(* ===== verification/Prelude.thy ===== *)
theory Prelude
  imports Main "HOL-Library.Word" "HOL-Library.Sublist" "HOL-Library.Multiset"
begin

text \<open>
  Shared vocabulary of the development: the machine integers of the Go sources, Go errors and
  panics as values, the parts of the Go standard library that the sources call in several places
  (\<open>encoding/binary\<close>, \<open>io.ReadFull\<close>, buffered channels, truncating division), and the interfaces
  between components as locales: a self-delimiting byte codec (\<open>stream_codec\<close>), a keyed registry
  (\<open>registry\<close>) and an invariant of a transition system (\<open>invariant_system\<close>).
  Log output is not part of any model in this development.
\<close>

unbundle bit_operations_syntax

section \<open>Types\<close>

type_synonym byte = "8 word"
type_synonym u8 = "8 word"
type_synonym u32 = "32 word"
type_synonym u64 = "64 word"

text \<open>An \<open>int64\<close> is kept as its 64 bits; \<open>sint\<close> reads its value.\<close>
type_synonym i64 = "64 word"
type_synonym i32 = "32 word"

text \<open>The error values that the Go sources produce, test or pass on.\<close>
datatype go_error =
    EOF
  | ErrUnexpectedEOF
  | EINVAL
  | ErrTimeout
  | ErrAuthFailed
  | ErrCipherNotSupported
  | KeySizeError nat
  | AesKeySizeError nat
  | ErrNet nat
  | ErrMsg string

type_synonym 'a result = "go_error + 'a"

text \<open>A run-time panic is an outcome of its own: it ends the process.\<close>
datatype 'a outcome = Ret 'a | Panic

text \<open>Collections for the proofs of the development.\<close>
named_theorems go_simps \<open>defining equations of the operations that are straight-line code\<close>
named_theorems inv_intros \<open>preservation of component invariants\<close>

section \<open>Fixed-width little-endian integers (encoding/binary)\<close>

fun le_put :: "nat \<Rightarrow> 'a::len word \<Rightarrow> byte list" where
  "le_put 0 v = []"
| "le_put (Suc n) v = ucast v # le_put n (drop_bit 8 v)"

fun le_get :: "byte list \<Rightarrow> 'a::len word" where
  "le_get [] = 0"
| "le_get (b # bs) = ucast b OR push_bit 8 (le_get bs)"

definition PutUint32 :: "u32 \<Rightarrow> byte list" where
  "PutUint32 v = le_put 4 v"

definition PutUint64 :: "u64 \<Rightarrow> byte list" where
  "PutUint64 v = le_put 8 v"

text \<open>\<open>Uint32\<close> and \<open>Uint64\<close> index the slice, so a short slice panics.\<close>
definition Uint32 :: "byte list \<Rightarrow> u32 outcome" where
  "Uint32 b = (if length b < 4 then Panic else Ret (le_get (take 4 b)))"

definition Uint64 :: "byte list \<Rightarrow> u64 outcome" where
  "Uint64 b = (if length b < 8 then Panic else Ret (le_get (take 8 b)))"

lemma length_le_put [simp]: "length (le_put n v) = n"
  by (induction n arbitrary: v) auto

lemma length_PutUint [simp]: "length (PutUint32 v) = 4" "length (PutUint64 w) = 8"
  by (simp_all add: PutUint32_def PutUint64_def)

lemma le_step:
  "ucast (ucast v :: byte) OR push_bit 8 (take_bit k (drop_bit 8 v)) = take_bit (8 + k) (v :: 'a::len word)"
  by (rule bit_word_eqI) (auto simp: bit_simps)

lemma le_get_put: "le_get (le_put n v) = take_bit (8 * n) (v :: 'a::len word)"
  by (induction n arbitrary: v) (simp_all add: le_step)

lemma le_get_put_full [simp]:
  "le_get (le_put 4 (v :: u32)) = v" "le_get (le_put 8 (w :: u64)) = w"
  by (simp_all add: le_get_put take_bit_word_eq_self)

lemma Uint32_PutUint32 [simp]: "Uint32 (PutUint32 v @ rest) = Ret v"
  by (simp add: Uint32_def PutUint32_def)

lemma Uint64_PutUint64 [simp]: "Uint64 (PutUint64 v @ rest) = Ret v"
  by (simp add: Uint64_def PutUint64_def)

lemma Uint64_PutUint64_exact [simp]: "Uint64 (PutUint64 v) = Ret v"
  using Uint64_PutUint64 [of v "[]"] by simp

lemma Uint32_PutUint32_exact [simp]: "Uint32 (PutUint32 v) = Ret v"
  using Uint32_PutUint32 [of v "[]"] by simp

lemma PutUint32_inject: "PutUint32 v = PutUint32 w \<longleftrightarrow> v = w"
  by (metis Uint32_PutUint32_exact outcome.inject)

section \<open>Reading from a byte stream (io.ReadFull)\<close>

text \<open>
  A reader is the list of bytes that will still arrive before the stream ends. \<open>io.ReadFull\<close>
  on a buffer of \<open>n\<close> bytes fails with \<open>EOF\<close> when nothing at all could be read and with
  \<open>ErrUnexpectedEOF\<close> when the stream ended in the middle; an empty buffer always succeeds.
\<close>
definition ReadFull :: "nat \<Rightarrow> byte list \<Rightarrow> (byte list \<times> byte list) result" where
  "ReadFull n s =
     (if n \<le> length s then Inr (take n s, drop n s)
      else if s = [] then Inl EOF else Inl ErrUnexpectedEOF)"

lemma ReadFull_append [simp]:
  "length xs = n \<Longrightarrow> ReadFull n (xs @ rest) = Inr (xs, rest)"
  by (auto simp: ReadFull_def)

lemma ReadFull_InrD:
  "ReadFull n s = Inr (xs, rest) \<Longrightarrow> s = xs @ rest \<and> length xs = n"
  by (auto simp: ReadFull_def split: if_splits)

lemma ReadFull_short: "length s < n \<Longrightarrow> \<exists>e. ReadFull n s = Inl e"
  by (auto simp: ReadFull_def)

section \<open>Signed arithmetic\<close>

text \<open>Go's integer division truncates towards zero.\<close>
definition go_div :: "int \<Rightarrow> int \<Rightarrow> int" where
  "go_div a b = sgn a * sgn b * (\<bar>a\<bar> div \<bar>b\<bar>)"

section \<open>Buffered channels\<close>

record 'a chan =
  chq :: "'a list"
  chcap :: nat
  chclosed :: bool

definition make_chan :: "nat \<Rightarrow> 'a chan" where
  "make_chan n = \<lparr>chq = [], chcap = n, chclosed = False\<rparr>"

text \<open>An operation on a channel goes through, waits for another goroutine, or panics.\<close>
datatype 'a attempt = Proceeds 'a | Waits | Panics

text \<open>A send on a closed channel panics; on a full one it waits.\<close>
definition chan_send :: "'a \<Rightarrow> 'a chan \<Rightarrow> 'a chan attempt" where
  "chan_send v c =
     (if chclosed c then Panics
      else if length (chq c) < chcap c then Proceeds (c\<lparr>chq := chq c @ [v]\<rparr>)
      else Waits)"

datatype 'a recv_result = Received 'a "'a chan" | RecvClosed | RecvBlocks

text \<open>A receive on a closed channel drains it first and then yields the zero value at once.\<close>
definition chan_recv :: "'a chan \<Rightarrow> 'a recv_result" where
  "chan_recv c =
     (case chq c of v # vs \<Rightarrow> Received v (c\<lparr>chq := vs\<rparr>)
      | [] \<Rightarrow> if chclosed c then RecvClosed else RecvBlocks)"

text \<open>Closing twice panics.\<close>
definition chan_close :: "'a chan \<Rightarrow> 'a chan outcome" where
  "chan_close c = (if chclosed c then Panic else Ret (c\<lparr>chclosed := True\<rparr>))"

section \<open>Interface: self-delimiting byte codecs\<close>

text \<open>
  What the users of a wire format rely on: a decoder reads back exactly one encoded value and
  leaves the rest of the stream alone, and a stream that ends inside a value is an error.
\<close>

fun decode_n :: "(byte list \<Rightarrow> ('a \<times> byte list) result) \<Rightarrow> nat \<Rightarrow> byte list \<Rightarrow> ('a list \<times> byte list) result" where
  "decode_n dec 0 s = Inr ([], s)"
| "decode_n dec (Suc n) s =
     (case dec s of Inl e \<Rightarrow> Inl e
      | Inr (x, s') \<Rightarrow>
          (case decode_n dec n s' of Inl e \<Rightarrow> Inl e | Inr (xs, s'') \<Rightarrow> Inr (x # xs, s'')))"

locale stream_codec =
  fixes enc :: "'a \<Rightarrow> byte list"
    and dec :: "byte list \<Rightarrow> ('a \<times> byte list) result"
    and valid :: "'a \<Rightarrow> bool"
  assumes dec_enc: "valid x \<Longrightarrow> dec (enc x @ rest) = Inr (x, rest)"
    and dec_cut: "valid x \<Longrightarrow> strict_prefix p (enc x) \<Longrightarrow> \<exists>e. dec p = Inl e"
begin

lemma enc_prefix_free:
  assumes "valid x" "valid y" "enc x @ r = enc y @ s"
  shows "x = y \<and> r = s"
proof -
  have "Inr (x, r) = dec (enc y @ s)"
    using dec_enc [OF assms(1), of r] unfolding assms(3) by (rule sym)
  also have "\<dots> = Inr (y, s)"
    by (rule dec_enc [OF assms(2)])
  finally show ?thesis by simp
qed

lemma decode_n_concat:
  assumes "\<forall>x\<in>set xs. valid x"
  shows "decode_n dec (length xs) (concat (map enc xs) @ rest) = Inr (xs, rest)"
  using assms by (induction xs) (simp_all add: dec_enc)

lemma decode_n_cut:
  assumes "\<forall>x\<in>set xs. valid x" "valid y" "strict_prefix p (enc y)"
  shows "\<exists>e. decode_n dec (Suc (length xs)) (concat (map enc xs) @ p) = Inl e"
  using assms
proof (induction xs)
  case Nil
  then show ?case using dec_cut by fastforce
next
  case (Cons x xs)
  then obtain e where "decode_n dec (Suc (length xs)) (concat (map enc xs) @ p) = Inl e"
    by auto
  with Cons.prems show ?case by (simp add: dec_enc)
qed

end

section \<open>Interface: keyed registries\<close>

text \<open>
  The connection pool, the tunnel pool and the peer group each keep a Go map from a 32-bit
  identifier to a live object and rely on the same laws. The two pools also count their members in
  a 32-bit statistics counter.
\<close>

locale registry =
  fixes key :: "'v \<Rightarrow> u32"
    and entry :: "'s \<Rightarrow> u32 \<rightharpoonup> 'v"
    and invar :: "'s \<Rightarrow> bool"
    and add :: "'v \<Rightarrow> 's \<Rightarrow> 's"
    and remove :: "'v \<Rightarrow> 's \<Rightarrow> 's"
  assumes entry_add: "invar s \<Longrightarrow> entry (add v s) = (entry s)(key v \<mapsto> v)"
    and entry_remove: "invar s \<Longrightarrow> entry (remove v s) = (entry s)(key v := None)"
    and invar_add: "invar s \<Longrightarrow> invar (add v s)"
    and invar_remove: "invar s \<Longrightarrow> invar (remove v s)"
begin

lemma entry_add_same: "invar s \<Longrightarrow> entry (add v s) (key v) = Some v"
  by (simp add: entry_add)

lemma entry_remove_other: "invar s \<Longrightarrow> j \<noteq> key v \<Longrightarrow> entry (remove v s) j = entry s j"
  by (simp add: entry_remove)

lemma entry_remove_add:
  "invar s \<Longrightarrow> key v \<notin> dom (entry s) \<Longrightarrow> entry (remove v (add v s)) = entry s"
  by (auto simp: entry_remove entry_add invar_add fun_eq_iff)

end

datatype 'v reg_event = RegAdd 'v | RegRemove 'v

fun reg_run :: "('v \<Rightarrow> 's \<Rightarrow> 's) \<Rightarrow> ('v \<Rightarrow> 's \<Rightarrow> 's) \<Rightarrow> 'v reg_event list \<Rightarrow> 's \<Rightarrow> 's" where
  "reg_run add remove [] s = s"
| "reg_run add remove (RegAdd v # es) s = reg_run add remove es (add v s)"
| "reg_run add remove (RegRemove v # es) s = reg_run add remove es (remove v s)"

text \<open>A run in which no member is added under a key that is in use.\<close>
fun fresh_adds :: "('v \<Rightarrow> u32) \<Rightarrow> 'v reg_event list \<Rightarrow> u32 set \<Rightarrow> bool" where
  "fresh_adds key [] K = True"
| "fresh_adds key (RegAdd v # es) K = (key v \<notin> K \<and> fresh_adds key es (insert (key v) K))"
| "fresh_adds key (RegRemove v # es) K = fresh_adds key es (K - {key v})"

locale counted_registry = registry +
  fixes count :: "'a \<Rightarrow> 32 word"
  assumes count_add: "invar s \<Longrightarrow> count (add v s) = count s + 1"
    and count_remove: "invar s \<Longrightarrow> count (remove v s) = (if key v \<in> dom (entry s) then count s - 1 else count s)"
begin

text \<open>With unused keys the counter is the number of members; adding under a used key breaks this.\<close>
lemma count_step_add:
  assumes "invar s" "key v \<notin> dom (entry s)" "count s = of_nat (card (dom (entry s)))"
  shows "count (add v s) = of_nat (card (dom (entry (add v s))))"
  using assms by (simp add: entry_add count_add)

lemma count_step_remove:
  assumes "invar s" "count s = of_nat (card (dom (entry s)))"
  shows "count (remove v s) = of_nat (card (dom (entry (remove v s))))"
proof (cases "key v \<in> dom (entry s)")
  case True
  then have "dom (entry s) \<noteq> {}" by auto
  then have "0 < card (dom (entry s))" by (simp add: card_gt_0_iff)
  with assms True show ?thesis by (simp add: entry_remove count_remove of_nat_diff)
next
  case False
  with assms show ?thesis by (simp add: entry_remove count_remove)
qed

lemma count_run:
  assumes "invar s" "fresh_adds key es (dom (entry s))" "count s = of_nat (card (dom (entry s)))"
  shows "count (reg_run add remove es s) = of_nat (card (dom (entry (reg_run add remove es s))))"
  using assms
proof (induction es arbitrary: s)
  case (Cons e es)
  show ?case
  proof (cases e)
    case (RegAdd v)
    then have "fresh_adds key es (dom (entry (add v s)))" "key v \<notin> dom (entry s)"
      using Cons.prems(1,2) by (simp_all add: entry_add)
    then show ?thesis
      using Cons.IH [OF invar_add [OF Cons.prems(1), of v]] count_step_add Cons.prems(1,3) RegAdd by simp
  next
    case (RegRemove v)
    then have "fresh_adds key es (dom (entry (remove v s)))"
      using Cons.prems(1,2) by (simp add: entry_remove)
    then show ?thesis
      using Cons.IH [OF invar_remove [OF Cons.prems(1), of v]] count_step_remove Cons.prems(1,3) RegRemove by simp
  qed
qed simp

lemma invar_run: "invar s \<Longrightarrow> invar (reg_run add remove es s)"
proof (induction es arbitrary: s)
  case (Cons e es)
  then show ?case by (cases e) (simp_all add: invar_add invar_remove)
qed simp

lemma count_drift:
  assumes "invar s" "key v \<in> dom (entry s)" "count s = of_nat (card (dom (entry s)))"
  shows "count (add v s) = of_nat (card (dom (entry (add v s)))) + 1"
  using assms by (simp add: entry_add count_add insert_absorb)

end

section \<open>Interface: invariants of transition systems\<close>

inductive reach :: "('s \<Rightarrow> bool) \<Rightarrow> ('s \<Rightarrow> 's \<Rightarrow> bool) \<Rightarrow> 's \<Rightarrow> bool" for init and step where
  reach_init: "init s \<Longrightarrow> reach init step s"
| reach_step: "reach init step s \<Longrightarrow> step s t \<Longrightarrow> reach init step t"

locale invariant_system =
  fixes init :: "'s \<Rightarrow> bool"
    and step :: "'s \<Rightarrow> 's \<Rightarrow> bool"
    and I :: "'s \<Rightarrow> bool"
  assumes init_I: "init s \<Longrightarrow> I s"
    and step_I: "I s \<Longrightarrow> step s t \<Longrightarrow> I t"
begin

lemma reach_I: "reach init step s \<Longrightarrow> I s"
  by (induction rule: reach.induct) (blast intro: init_I step_I)+

lemma steps_I: "step\<^sup>*\<^sup>* s t \<Longrightarrow> I s \<Longrightarrow> I t"
  by (induction rule: rtranclp_induct) (simp_all add: step_I)

end

section \<open>Generic lemmas\<close>

lemma take_drop_split: "take n xs @ take m (drop n xs) = take (n + m) xs"
  by (simp add: take_add)

lemma card_dom_upd_None: "k \<in> dom (m :: u32 \<rightharpoonup> 'v) \<Longrightarrow> card (dom (m(k := None))) < card (dom m)"
  by (metis card_Diff1_less dom_fun_upd finite)

lemma unat_of_nat_u32: "n < 2 ^ 32 \<Longrightarrow> unat (of_nat n :: u32) = n"
  by (simp add: unat_of_nat take_bit_nat_eq_self)

lemma telescope_add:
  fixes r1 r2 r3 :: "'a::ab_group_add"
  assumes "r2 + a = r1 + b" "r3 + b = r2 + x"
  shows "r3 + a = r1 + x"
proof -
  have "r2 = r1 + b - a" "r3 = r2 + x - b"
    using assms by (simp_all add: eq_diff_eq)
  then show ?thesis by simp
qed

end
