(* ===== verification/Block.thy ===== *)
theory Block
  imports Prelude
begin

text \<open>
  The wire unit of the program, \<open>block/block.go\<close>: the \<open>Block\<close> struct with its cached encoding,
  \<open>Pack\<close>, \<open>NewBlockFromReader\<close> and the constructors. \<open>wire\<close> is the reference layout that
  \<open>Pack\<close> is proved to produce; \<open>wf_block\<close> is the type invariant that every constructor
  establishes. Clock readings are arguments.
\<close>

section \<open>Constants\<close>

definition TypeConnect :: u8 where [simp]: "TypeConnect = 0"
definition TypeDisconnect :: u8 where [simp]: "TypeDisconnect = 1"
definition TypeData :: u8 where [simp]: "TypeData = 2"
definition TypePing :: u8 where [simp]: "TypePing = 3"
definition TypePong :: u8 where [simp]: "TypePong = 4"

text \<open>\<open>iota\<close> keeps counting inside the same \<open>const\<close> group, so the shutdown kinds start at 5.\<close>
definition ShutdownRead :: u8 where [simp]: "ShutdownRead = 5"
definition ShutdownWrite :: u8 where [simp]: "ShutdownWrite = 6"
definition ShutdownBoth :: u8 where [simp]: "ShutdownBoth = 7"

definition HeaderSize :: nat where "HeaderSize = 1 + 4 + 8 + 4 + 4"
definition DataSize :: nat where "DataSize = 32 * 1024 - 13"
definition MaxSize :: nat where "MaxSize = HeaderSize + DataSize"

section \<open>The block and its encoding\<close>

record block =
  Type :: u8
  ConnectionID :: u32
  TimeStamp :: i64
  BlockID :: u32
  BlockLength :: u32
  BlockData :: "byte list"
  packed :: "byte list option"

text \<open>The value a receive from a closed channel of blocks yields.\<close>
definition zero_block :: block where
  "zero_block = \<lparr>Type = 0, ConnectionID = 0, TimeStamp = 0, BlockID = 0, BlockLength = 0,
     BlockData = [], packed = None\<rparr>"

text \<open>Writing \<open>bs\<close> into a buffer at an offset (a \<open>Put\<close> call or a \<open>copy\<close> into a sub-slice).\<close>
definition put_at :: "nat \<Rightarrow> byte list \<Rightarrow> byte list \<Rightarrow> byte list" where
  "put_at off bs buf = take off buf @ bs @ drop (off + length bs) buf"

definition Pack :: "block \<Rightarrow> byte list \<times> block" where
  "Pack b =
     (case packed b of
        Some p \<Rightarrow> (p, b)
      | None \<Rightarrow>
          (let p0 = replicate (HeaderSize + length (BlockData b)) 0;
               p1 = p0[0 := Type b];
               p2 = put_at 1 (PutUint32 (ConnectionID b)) p1;
               p3 = put_at 5 (PutUint64 (TimeStamp b)) p2;
               p4 = put_at 13 (PutUint32 (BlockID b)) p3;
               p5 = put_at 17 (PutUint32 (BlockLength b)) p4;
               p6 = put_at HeaderSize (BlockData b) p5
           in (p6, b\<lparr>packed := Some p6\<rparr>)))"

text \<open>The block that the header describes, before its data has been read.\<close>
definition header_block :: "byte list \<Rightarrow> block" where
  "header_block headerBuf =
     \<lparr>Type = headerBuf ! 0,
      ConnectionID = le_get (take 4 (drop 1 headerBuf)),
      TimeStamp = le_get (take 8 (drop 5 headerBuf)),
      BlockID = le_get (take 4 (drop 13 headerBuf)),
      BlockLength = le_get (take 4 (drop 17 headerBuf)),
      BlockData = replicate (unat (le_get (take 4 (drop 17 headerBuf)) :: u32)) 0,
      packed = None\<rparr>"

definition NewBlockFromReader :: "byte list \<Rightarrow> (block \<times> byte list) result" where
  "NewBlockFromReader reader =
     (case ReadFull HeaderSize reader of
        Inl e \<Rightarrow> Inl e
      | Inr (headerBuf, r1) \<Rightarrow>
          (let blk = header_block headerBuf
           in if BlockLength blk > 0
              then (case ReadFull (unat (BlockLength blk)) r1 of
                      Inl e \<Rightarrow> Inl e
                    | Inr (dat, r2) \<Rightarrow> Inr (blk\<lparr>BlockData := dat\<rparr>, r2))
              else Inr (blk, r1)))"

section \<open>Constructors\<close>

definition NewConnectBlock :: "i64 \<Rightarrow> u32 \<Rightarrow> u32 \<Rightarrow> byte list \<Rightarrow> block" where
  "NewConnectBlock now connectID blockID address =
     \<lparr>Type = TypeConnect, ConnectionID = connectID, TimeStamp = now, BlockID = blockID,
      BlockLength = of_nat (length address), BlockData = address, packed = None\<rparr>"

definition newDataBlock :: "i64 \<Rightarrow> u32 \<Rightarrow> u32 \<Rightarrow> byte list \<Rightarrow> block" where
  "newDataBlock now connectID blockID dat =
     snd (Pack \<lparr>Type = TypeData, ConnectionID = connectID, TimeStamp = now, BlockID = blockID,
                BlockLength = of_nat (length dat), BlockData = dat, packed = None\<rparr>)"

text \<open>
  The loop of \<open>NewDataBlocks\<close>. \<open>now k\<close> is the clock reading for the \<open>k\<close>-th block; the atomic
  counter is passed along and \<open>Inc()-1\<close> is its value before the increment.
\<close>
function NewDataBlocks_loop ::
  "(nat \<Rightarrow> i64) \<Rightarrow> u32 \<Rightarrow> u32 \<Rightarrow> byte list \<Rightarrow> nat \<Rightarrow> nat \<Rightarrow> block list \<times> u32" where
  "NewDataBlocks_loop now connectID blockID dat k cursor =
     (if cursor < length dat
      then (let end0 = cursor + DataSize;
                end1 = (if length dat < end0 then length dat else end0);
                blk = newDataBlock (now k) connectID ((blockID + 1) - 1)
                        (take (end1 - cursor) (drop cursor dat));
                (blks, blockID') = NewDataBlocks_loop now connectID (blockID + 1) dat (Suc k) end1
            in (blk # blks, blockID'))
      else ([], blockID))"
  by pat_completeness auto
termination
  by (relation "measure (\<lambda>(_, _, _, dat, _, cursor). length dat - cursor)")
    (auto simp: DataSize_def)

declare NewDataBlocks_loop.simps [simp del]

definition NewDataBlocks :: "(nat \<Rightarrow> i64) \<Rightarrow> u32 \<Rightarrow> u32 \<Rightarrow> byte list \<Rightarrow> block list \<times> u32" where
  "NewDataBlocks now connectID blockID dat = NewDataBlocks_loop now connectID blockID dat 0 0"

definition NewDisconnectBlock :: "i64 \<Rightarrow> u32 \<Rightarrow> u32 \<Rightarrow> u8 \<Rightarrow> block" where
  "NewDisconnectBlock now connectID blockID shutdownType =
     \<lparr>Type = TypeDisconnect, ConnectionID = connectID, TimeStamp = now, BlockID = blockID,
      BlockLength = 1, BlockData = [shutdownType], packed = None\<rparr>"

definition NewPingBlock :: "i64 \<Rightarrow> u32 \<Rightarrow> u32 \<Rightarrow> u64 \<Rightarrow> block" where
  "NewPingBlock now connectID blockID lancenty =
     \<lparr>Type = TypePing, ConnectionID = connectID, TimeStamp = now, BlockID = blockID,
      BlockLength = 8, BlockData = PutUint64 lancenty, packed = None\<rparr>"

definition NewPongBlock :: "i64 \<Rightarrow> u32 \<Rightarrow> u32 \<Rightarrow> u64 \<Rightarrow> block" where
  "NewPongBlock now connectID blockID timestamp =
     \<lparr>Type = TypePong, ConnectionID = connectID, TimeStamp = now, BlockID = blockID,
      BlockLength = 8, BlockData = PutUint64 timestamp, packed = None\<rparr>"

lemmas block_constructor_defs =
  NewConnectBlock_def NewDisconnectBlock_def NewPingBlock_def NewPongBlock_def

section \<open>Reference layout and type invariant\<close>

definition wire :: "block \<Rightarrow> byte list" where
  "wire b = Type b # PutUint32 (ConnectionID b) @ PutUint64 (TimeStamp b)
     @ PutUint32 (BlockID b) @ PutUint32 (BlockLength b) @ BlockData b"

text \<open>The block as the peer sees it: the cached encoding is not transmitted.\<close>
definition unpacked :: "block \<Rightarrow> block" where
  "unpacked b = b\<lparr>packed := None\<rparr>"

definition wf_block :: "block \<Rightarrow> bool" where
  "wf_block b \<longleftrightarrow> unat (BlockLength b) = length (BlockData b)
     \<and> (packed b = None \<or> packed b = Some (wire b))"

lemma length_wire: "length (wire b) = HeaderSize + length (BlockData b)"
  by (simp add: wire_def HeaderSize_def)

lemma wire_unpacked [simp]: "wire (unpacked b) = wire b"
  by (simp add: wire_def unpacked_def)

lemma unpacked_sel [simp]:
  "Type (unpacked b) = Type b" "ConnectionID (unpacked b) = ConnectionID b"
  "BlockID (unpacked b) = BlockID b" "BlockData (unpacked b) = BlockData b"
  "TimeStamp (unpacked b) = TimeStamp b" "BlockLength (unpacked b) = BlockLength b"
  "packed (unpacked b) = None" "unpacked (unpacked b) = unpacked b"
  by (simp_all add: unpacked_def)

lemma wf_block_unpacked: "wf_block b \<Longrightarrow> wf_block (unpacked b)"
  by (simp add: wf_block_def)

lemma wf_block_packed: "wf_block b \<Longrightarrow> wf_block (b\<lparr>packed := Some (wire b)\<rparr>)"
  by (simp add: wf_block_def wire_def)

lemma put_at_mid:
  "length pre = off \<Longrightarrow> length mid = length bs \<Longrightarrow> put_at off bs (pre @ mid @ post) = pre @ bs @ post"
  by (simp add: put_at_def)

lemma header_zeros:
  "replicate (HeaderSize + n) (0::byte) =
     [0] @ replicate 4 0 @ replicate 8 0 @ replicate 4 0 @ replicate 4 0 @ replicate n 0"
  by (simp add: HeaderSize_def replicate_add [symmetric] flip: replicate_Suc)

text \<open>The buffer of \<open>Pack\<close>, filled field by field, is the reference layout.\<close>
lemma Pack_None:
  assumes "packed b = None"
  shows "Pack b = (wire b, b\<lparr>packed := Some (wire b)\<rparr>)"
proof -
  let ?n = "length (BlockData b)"
  let ?c = "PutUint32 (ConnectionID b)" and ?t = "PutUint64 (TimeStamp b)"
  let ?i = "PutUint32 (BlockID b)" and ?l = "PutUint32 (BlockLength b)"
  let ?z = "\<lambda>k. replicate k (0::byte)"
  have p1: "(replicate (HeaderSize + ?n) (0::byte))[0 := Type b]
      = [Type b] @ ?z 4 @ ?z 8 @ ?z 4 @ ?z 4 @ ?z ?n"
    by (simp add: header_zeros)
  have p2: "put_at 1 ?c ([Type b] @ ?z 4 @ ?z 8 @ ?z 4 @ ?z 4 @ ?z ?n)
      = ([Type b] @ ?c) @ ?z 8 @ ?z 4 @ ?z 4 @ ?z ?n"
    by (subst put_at_mid) simp_all
  have p3: "put_at 5 ?t (([Type b] @ ?c) @ ?z 8 @ ?z 4 @ ?z 4 @ ?z ?n)
      = ([Type b] @ ?c @ ?t) @ ?z 4 @ ?z 4 @ ?z ?n"
    by (subst put_at_mid) simp_all
  have p4: "put_at 13 ?i (([Type b] @ ?c @ ?t) @ ?z 4 @ ?z 4 @ ?z ?n)
      = ([Type b] @ ?c @ ?t @ ?i) @ ?z 4 @ ?z ?n"
    by (subst put_at_mid) simp_all
  have p5: "put_at 17 ?l (([Type b] @ ?c @ ?t @ ?i) @ ?z 4 @ ?z ?n)
      = ([Type b] @ ?c @ ?t @ ?i @ ?l) @ ?z ?n @ []"
    by (subst put_at_mid) simp_all
  have p6: "put_at HeaderSize (BlockData b) (([Type b] @ ?c @ ?t @ ?i @ ?l) @ ?z ?n @ []) = wire b"
    by (subst put_at_mid) (simp_all add: HeaderSize_def wire_def)
  show ?thesis
    using assms by (simp only: Pack_def Let_def option.case p1 p2 p3 p4 p5 p6)
qed

lemma Pack_wf: "wf_block b \<Longrightarrow> fst (Pack b) = wire b"
  by (auto simp: wf_block_def Pack_None) (auto simp: Pack_def)

lemma unpacked_Pack: "unpacked (snd (Pack b)) = unpacked b"
  by (simp add: Pack_def unpacked_def Let_def split: option.split)

section \<open>Decoding\<close>

definition header :: "block \<Rightarrow> byte list" where
  "header b = Type b # PutUint32 (ConnectionID b) @ PutUint64 (TimeStamp b)
     @ PutUint32 (BlockID b) @ PutUint32 (BlockLength b)"

lemma wire_header: "wire b = header b @ BlockData b"
  by (simp add: wire_def header_def)

lemma length_header [simp]: "length (header b) = HeaderSize"
  by (simp add: header_def HeaderSize_def)

lemma header_fields [simp]:
  "header b ! 0 = Type b"
  "(le_get (take 4 (drop 1 (header b))) :: u32) = ConnectionID b"
  "(le_get (take 8 (drop 5 (header b))) :: u64) = TimeStamp b"
  "(le_get (take 4 (drop 13 (header b))) :: u32) = BlockID b"
  "(le_get (take 4 (drop 17 (header b))) :: u32) = BlockLength b"
  by (simp_all add: header_def PutUint32_def PutUint64_def)

lemma header_block_header [simp]:
  "header_block (header b) = b\<lparr>BlockData := replicate (unat (BlockLength b)) 0, packed := None\<rparr>"
  by (simp only: header_block_def header_fields) simp

lemma NewBlockFromReader_header:
  "NewBlockFromReader (header b @ r) =
     (if BlockLength b > 0
      then (case ReadFull (unat (BlockLength b)) r of Inl e \<Rightarrow> Inl e
            | Inr (dat, r2) \<Rightarrow> Inr (b\<lparr>BlockData := dat, packed := None\<rparr>, r2))
      else Inr (b\<lparr>BlockData := [], packed := None\<rparr>, r))"
  by (simp add: NewBlockFromReader_def word_gt_0 split: sum.split)

lemma NewBlockFromReader_wire:
  assumes "unat (BlockLength b) = length (BlockData b)"
  shows "NewBlockFromReader (wire b @ rest) = Inr (unpacked b, rest)"
proof (cases "BlockLength b > 0")
  case True
  with assms show ?thesis
    by (simp add: wire_header NewBlockFromReader_header unpacked_def)
next
  case False
  then have "BlockLength b = 0" by (simp add: word_gt_0)
  with assms show ?thesis
    by (simp add: wire_header NewBlockFromReader_header unpacked_def)
qed

lemma NewBlockFromReader_cut:
  assumes len: "unat (BlockLength b) = length (BlockData b)" and cut: "strict_prefix p (wire b)"
  shows "\<exists>e. NewBlockFromReader p = Inl e"
proof (cases "length p < HeaderSize")
  case True
  then show ?thesis
    using ReadFull_short [OF True] by (auto simp: NewBlockFromReader_def)
next
  case False
  from cut have pl: "length p < length (wire b)" by (rule prefix_length_less)
  from cut have "p = take (length p) (wire b)"
    by (metis prefix_def strict_prefixE' append_eq_conv_conj)
  with False have p: "p = header b @ take (length p - HeaderSize) (BlockData b)"
    by (simp add: wire_header)
  define d where "d = take (length p - HeaderSize) (BlockData b)"
  have dl: "length d < unat (BlockLength b)"
    using pl False len by (simp add: d_def length_wire)
  then have "BlockLength b > 0" by (auto simp: word_gt_0)
  moreover obtain e where "ReadFull (unat (BlockLength b)) d = Inl e"
    using ReadFull_short [OF dl] by blast
  ultimately show ?thesis
    using p by (simp add: NewBlockFromReader_header flip: d_def)
qed

interpretation block_codec: stream_codec wire NewBlockFromReader
  "\<lambda>b. wf_block b \<and> packed b = None"
proof unfold_locales
  fix x rest
  assume "wf_block x \<and> packed x = None"
  then show "NewBlockFromReader (wire x @ rest) = Inr (x, rest)"
    by (simp add: NewBlockFromReader_wire wf_block_def unpacked_def)
next
  fix x p
  assume "wf_block x \<and> packed x = None" "strict_prefix p (wire x)"
  then show "\<exists>e. NewBlockFromReader p = Inl e"
    by (auto simp: wf_block_def intro: NewBlockFromReader_cut)
qed

section \<open>Constructors establish the invariant\<close>

lemma wf_NewConnectBlock [inv_intros]:
  "length address < 2 ^ 32 \<Longrightarrow> wf_block (NewConnectBlock now cid bid address)"
  by (simp add: wf_block_def NewConnectBlock_def unat_of_nat_u32)

lemma wf_NewDisconnectBlock [inv_intros]: "wf_block (NewDisconnectBlock now cid bid k)"
  by (simp add: wf_block_def NewDisconnectBlock_def)

lemma wf_NewPingBlock [inv_intros]: "wf_block (NewPingBlock now cid bid l)"
  by (simp add: wf_block_def NewPingBlock_def)

lemma wf_NewPongBlock [inv_intros]: "wf_block (NewPongBlock now cid bid l)"
  by (simp add: wf_block_def NewPongBlock_def)

lemma newDataBlock_sel [simp]:
  "Type (newDataBlock now cid bid dat) = TypeData"
  "ConnectionID (newDataBlock now cid bid dat) = cid"
  "BlockID (newDataBlock now cid bid dat) = bid"
  "BlockData (newDataBlock now cid bid dat) = dat"
  by (simp_all add: newDataBlock_def Pack_None)

lemma wf_newDataBlock [inv_intros]:
  "length dat < 2 ^ 32 \<Longrightarrow> wf_block (newDataBlock now cid bid dat)"
  by (simp add: newDataBlock_def Pack_None wf_block_def unat_of_nat_u32 wire_def)

text \<open>What one call of \<open>NewDataBlocks\<close> promises about the blocks it makes.\<close>
definition data_blocks_for :: "u32 \<Rightarrow> u32 \<Rightarrow> byte list \<Rightarrow> block list \<Rightarrow> bool" where
  "data_blocks_for cid bid dat bs \<longleftrightarrow>
     concat (map BlockData bs) = dat
   \<and> map BlockID bs = map (\<lambda>i. bid + of_nat i) [0..<length bs]
   \<and> list_all (\<lambda>b. Type b = TypeData \<and> ConnectionID b = cid \<and> wf_block b
        \<and> 0 < length (BlockData b) \<and> length (BlockData b) \<le> DataSize) bs
   \<and> length bs = (length dat + (DataSize - 1)) div DataSize"

lemma map_id_shift:
  "bid # map (\<lambda>i. bid + 1 + of_nat i) [0..<n] = map (\<lambda>i. bid + of_nat i) [0..<Suc n]"
  for bid :: "'a::len word"
proof -
  have "map (\<lambda>i. bid + of_nat i) [0..<Suc n] = map (\<lambda>i. bid + of_nat i) (0 # map Suc [0..<n])"
    by (simp only: map_Suc_upt upt_conv_Cons [OF zero_less_Suc])
  then show ?thesis by (simp add: algebra_simps del: upt_Suc)
qed

lemma NewDataBlocks_loop_correct:
  "case NewDataBlocks_loop now cid bid dat k cursor of (bs, bid') \<Rightarrow>
     data_blocks_for cid bid (drop cursor dat) bs \<and> bid' = bid + of_nat (length bs)"
proof (induction now cid bid dat k cursor rule: NewDataBlocks_loop.induct)
  case (1 now cid bid dat k cursor)
  show ?case
  proof (cases "cursor < length dat")
    case False
    then show ?thesis
      by (simp add: NewDataBlocks_loop.simps data_blocks_for_def DataSize_def)
  next
    case True
    define end1 where
      "end1 = (if length dat < cursor + DataSize then length dat else cursor + DataSize)"
    obtain bs bid' where rec: "NewDataBlocks_loop now cid (bid + 1) dat (Suc k) end1 = (bs, bid')"
      by fastforce
    have IH: "data_blocks_for cid (bid + 1) (drop end1 dat) bs" "bid' = bid + 1 + of_nat (length bs)"
      using "1.IH" [OF True refl, of end1] rec by (simp_all add: end1_def)
    let ?d = "take (end1 - cursor) (drop cursor dat)"
    let ?b = "newDataBlock (now k) cid bid ?d"
    have step: "NewDataBlocks_loop now cid bid dat k cursor = (?b # bs, bid')"
      using True rec by (subst NewDataBlocks_loop.simps) (simp add: Let_def end1_def)
    have e: "cursor < end1" "end1 \<le> length dat" "end1 - cursor \<le> DataSize"
      using True by (auto simp: end1_def DataSize_def)
    have cat: "?d @ drop end1 dat = drop cursor dat"
      using e by (metis append_take_drop_id drop_drop le_add_diff_inverse2 less_imp_le)
    have dl: "length ?d = end1 - cursor" using e by simp
    have "end1 = length dat \<or> end1 = cursor + DataSize" by (auto simp: end1_def)
    then have cnt: "Suc ((length dat - end1 + (DataSize - 1)) div DataSize)
        = (length dat - cursor + (DataSize - 1)) div DataSize"
      using e True by (auto simp: DataSize_def)
    have wf: "wf_block ?b"
      using e by (intro wf_newDataBlock) (simp add: DataSize_def)
    have "bid' = bid + of_nat (length (?b # bs))"
      using IH(2) by simp
    moreover have "data_blocks_for cid bid (drop cursor dat) (?b # bs)"
      using IH(1) e cat wf cnt by (simp add: data_blocks_for_def dl map_id_shift del: upt_Suc)
    ultimately show ?thesis by (simp only: step prod.case simp_thms)
  qed
qed

lemma NewDataBlocks_single:
  assumes "dat \<noteq> []" "length dat \<le> DataSize"
  shows "NewDataBlocks now cid bid dat = ([newDataBlock (now 0) cid bid dat], bid + 1)"
proof -
  have "NewDataBlocks_loop now cid (bid + 1) dat 1 (length dat) = ([], bid + 1)"
    by (subst NewDataBlocks_loop.simps) simp
  moreover have "(if length dat < DataSize then length dat else DataSize) = length dat"
    using assms(2) by simp
  ultimately show ?thesis
    using assms(1) unfolding NewDataBlocks_def
    by (subst NewDataBlocks_loop.simps) (simp add: Let_def del: if_split)
qed

lemma NewDataBlocks_blocks:
  assumes "NewDataBlocks now cid bid dat = (bs, bid')"
  shows "data_blocks_for cid bid dat bs" "bid' = bid + of_nat (length bs)"
  using NewDataBlocks_loop_correct [where now = now and cid = cid and bid = bid and dat = dat and k = 0 and cursor = 0] assms
  by (simp_all add: NewDataBlocks_def)

section \<open>Properties\<close>

text \<open>
  C11. Every well-formed block survives the wire: packing it and reading it back from any byte
  stream that starts with the packed bytes gives the same block (without the sender's cached
  encoding) and leaves exactly the rest of the stream unread.
\<close>
theorem Pack_NewBlockFromReader:
  assumes "wf_block b"
  shows "NewBlockFromReader (fst (Pack b) @ rest) = Inr (unpacked b, rest)"
  using assms by (simp add: Pack_wf NewBlockFromReader_wire wf_block_def)

theorem Pack_NewBlockFromReader_witness:
  "NewBlockFromReader (fst (Pack (NewDisconnectBlock 9 7 3 ShutdownBoth)) @ [1, 2])
     = Inr (unpacked (NewDisconnectBlock 9 7 3 ShutdownBoth), [1, 2])"
  by (rule Pack_NewBlockFromReader) (rule wf_NewDisconnectBlock)

text \<open>
  Splitting a write into data blocks loses nothing: the payloads concatenate to the data, the
  block IDs are consecutive from the counter (modulo 2^32), every block is a non-empty well-formed
  data block of the connection with at most \<open>DataSize\<close> bytes, their number is the length
  divided by \<open>DataSize\<close> rounded up, and the counter advances by that number.
\<close>
lemma NewDataBlocks_correct:
  "case NewDataBlocks now cid bid dat of (bs, bid') \<Rightarrow>
     data_blocks_for cid bid dat bs \<and> bid' = bid + of_nat (length bs)"
  using NewDataBlocks_blocks by (cases "NewDataBlocks now cid bid dat") auto

text \<open>
  A tunnel stream parses unambiguously: reading back a concatenation of packed blocks gives
  these blocks in order, and a stream cut inside a further block makes the next read fail instead
  of producing a block that was never sent.
\<close>
lemma block_stream_parse:
  assumes "\<forall>b\<in>set bs. wf_block b" and "wf_block b'" and "strict_prefix p (wire b')"
  shows "decode_n NewBlockFromReader (length bs) (concat (map (\<lambda>b. fst (Pack b)) bs) @ rest)
           = Inr (map unpacked bs, rest)
    \<and> (\<exists>e. decode_n NewBlockFromReader (Suc (length bs)) (concat (map (\<lambda>b. fst (Pack b)) bs) @ p) = Inl e)"
proof -
  have valid: "\<forall>b\<in>set (map unpacked bs). wf_block b \<and> packed b = None"
    using assms(1) by (auto intro: wf_block_unpacked)
  have cat: "concat (map (\<lambda>b. fst (Pack b)) bs) = concat (map wire (map unpacked bs))"
    using assms(1) by (induction bs) (simp_all add: Pack_wf)
  have "decode_n NewBlockFromReader (length bs) (concat (map (\<lambda>b. fst (Pack b)) bs) @ rest)
           = Inr (map unpacked bs, rest)"
    using block_codec.decode_n_concat [OF valid, of rest] by (simp only: cat length_map)
  moreover have "wf_block (unpacked b') \<and> packed (unpacked b') = None" "strict_prefix p (wire (unpacked b'))"
    using assms(2,3) by (simp_all add: wf_block_unpacked)
  then have "\<exists>e. decode_n NewBlockFromReader (Suc (length bs)) (concat (map (\<lambda>b. fst (Pack b)) bs) @ p) = Inl e"
    using block_codec.decode_n_cut [OF valid] by (simp only: cat length_map)
  ultimately show ?thesis ..
qed

theorem block_stream_parse_witness:
  "decode_n NewBlockFromReader 1 (concat (map (\<lambda>b. fst (Pack b)) [NewPingBlock 1 2 0 5]) @ [4])
     = Inr ([unpacked (NewPingBlock 1 2 0 5)], [4])
   \<and> (\<exists>e. decode_n NewBlockFromReader 2 (concat (map (\<lambda>b. fst (Pack b)) [NewPingBlock 1 2 0 5]) @ [3]) = Inl e)"
proof -
  have "strict_prefix [3] (wire (NewPingBlock 1 2 0 5))"
    by (simp add: wire_def strict_prefix_def NewPingBlock_def PutUint32_def numeral_eq_Suc)
  then show ?thesis
    using block_stream_parse [of "[NewPingBlock 1 2 0 5]" "NewPingBlock 1 2 0 5" "[3]" "[4]"]
    by (simp add: wf_NewPingBlock numeral_2_eq_2)
qed

end
