(* ===== verification/ByteSource.thy ===== *)
theory ByteSource
  imports Prelude
begin

text \<open>
  What the program's readers promise to their callers, as two interfaces. A \<open>byte_source\<close> may
  return fewer bytes than asked for, as every \<open>io.Reader\<close> may; abstractly it is the list of the
  bytes it will still deliver. A \<open>byte_buffer\<close> returns as many bytes as it has. The loop of
  \<open>io.ReadFull\<close> over any source gives exactly the bytes asked for.
\<close>

section \<open>Interface: a source of bytes\<close>

text \<open>The loop of \<open>io.ReadFull\<close>: read until the destination is full or nothing more comes.\<close>
fun ReadFull_loop :: "(nat \<Rightarrow> 'b \<Rightarrow> byte list \<times> 'b) \<Rightarrow> nat \<Rightarrow> nat \<Rightarrow> 'b \<Rightarrow> byte list \<times> 'b" where
  "ReadFull_loop rd 0 n b = ([], b)"
| "ReadFull_loop rd (Suc fuel) n b =
     (if n = 0 then ([], b)
      else let (xs, b') = rd n b
           in if xs = [] then ([], b')
              else let (ys, b'') = ReadFull_loop rd fuel (n - length xs) b' in (xs @ ys, b''))"

locale byte_source =
  fixes contents :: "'b \<Rightarrow> byte list"
    and invar :: "'b \<Rightarrow> bool"
    and rd :: "nat \<Rightarrow> 'b \<Rightarrow> byte list \<times> 'b"
  assumes src_split: "invar b \<Longrightarrow> contents b = fst (rd n b) @ contents (snd (rd n b))"
    and src_bound: "invar b \<Longrightarrow> length (fst (rd n b)) \<le> n"
    and src_progress: "invar b \<Longrightarrow> 0 < n \<Longrightarrow> contents b \<noteq> [] \<Longrightarrow> fst (rd n b) \<noteq> []"
    and src_invar: "invar b \<Longrightarrow> invar (snd (rd n b))"
begin

text \<open>A fuel of the number of bytes asked for is enough.\<close>
lemma ReadFull_loop_correct:
  assumes "invar b" "n \<le> fuel"
  shows "fst (ReadFull_loop rd fuel n b) = take n (contents b)
    \<and> contents (snd (ReadFull_loop rd fuel n b)) = drop n (contents b)
    \<and> invar (snd (ReadFull_loop rd fuel n b))"
  using assms
proof (induction fuel arbitrary: n b)
  case (Suc fuel)
  show ?case
  proof (cases "n = 0")
    case False
    obtain xs b' where r: "rd n b = (xs, b')" by fastforce
    have s: "contents b = xs @ contents b'" "length xs \<le> n" "invar b'"
      and p: "contents b \<noteq> [] \<Longrightarrow> xs \<noteq> []"
      using src_split [OF Suc.prems(1), of n] src_bound [OF Suc.prems(1), of n]
        src_invar [OF Suc.prems(1), of n] src_progress [OF Suc.prems(1), of n] r False by simp_all
    show ?thesis
    proof (cases "xs = []")
      case True
      then have "contents b = []" using p by blast
      with s r False True show ?thesis by simp
    next
      case ne: False
      then have "n - length xs \<le> fuel" using Suc.prems(2) False by (cases xs) auto
      from Suc.IH [OF s(3) this] ne False r s show ?thesis
        by (cases "ReadFull_loop rd fuel (n - length xs) b'") simp
    qed
  qed (use Suc.prems in simp)
qed simp

end

section \<open>Interface: a buffer of unread bytes\<close>

fun read_all :: "(nat \<Rightarrow> 'b \<Rightarrow> byte list \<times> 'b) \<Rightarrow> nat list \<Rightarrow> 'b \<Rightarrow> byte list \<times> 'b" where
  "read_all rd [] b = ([], b)"
| "read_all rd (n # ns) b =
     (let (xs, b') = rd n b; (ys, b'') = read_all rd ns b' in (xs @ ys, b''))"

locale byte_buffer =
  fixes contents :: "'b \<Rightarrow> byte list"
    and invar :: "'b \<Rightarrow> bool"
    and rd :: "nat \<Rightarrow> 'b \<Rightarrow> byte list \<times> 'b"
  assumes rd_bytes: "invar b \<Longrightarrow> fst (rd n b) = take n (contents b)"
    and rd_contents: "invar b \<Longrightarrow> contents (snd (rd n b)) = drop n (contents b)"
    and rd_invar: "invar b \<Longrightarrow> invar (snd (rd n b))"
begin

text \<open>A buffer is in particular a source.\<close>
sublocale byte_source contents invar rd
  by unfold_locales (simp_all add: rd_bytes rd_contents rd_invar)

lemma rd_split: "invar b \<Longrightarrow> fst (rd n b) @ contents (snd (rd n b)) = contents b"
  by (simp add: rd_bytes rd_contents)

text \<open>Reading in pieces of any sizes yields the same bytes as one read of the total size.\<close>
lemma read_all_correct:
  assumes "invar b"
  shows "fst (read_all rd ns b) = take (sum_list ns) (contents b)
    \<and> contents (snd (read_all rd ns b)) = drop (sum_list ns) (contents b)
    \<and> invar (snd (read_all rd ns b))"
  using assms
proof (induction ns arbitrary: b)
  case Nil
  then show ?case by simp
next
  case (Cons n ns)
  obtain xs b' where r: "rd n b = (xs, b')" by fastforce
  with Cons.prems have "xs = take n (contents b)" "contents b' = drop n (contents b)" "invar b'"
    using rd_bytes [of b n] rd_contents [of b n] rd_invar [of b n] by simp_all
  with Cons.IH [of b'] show ?case
    by (cases "read_all rd ns b'") (simp add: r take_add add.commute)
qed

end

end
