(* ===== verification/RingBuffer.thy ===== *)
theory RingBuffer
  imports ByteSource
begin

text \<open>
  The byte buffer of an inbound connection, \<open>connection/ring_buffer.go\<close>, an instance of the
  \<open>byte_buffer\<close> interface. The destination slice of a read is represented by its length; the bytes
  copied into it are returned.
\<close>

section \<open>The buffer\<close>

record ByteRingBuffer =
  buffer :: "byte list"
  head :: nat
  tail :: nat

definition NewByteRingBuffer :: "nat \<Rightarrow> ByteRingBuffer" where
  "NewByteRingBuffer sz = \<lparr>buffer = replicate sz 0, head = 0, tail = 0\<rparr>"

definition OverWrite :: "byte list \<Rightarrow> ByteRingBuffer \<Rightarrow> ByteRingBuffer" where
  "OverWrite dat rb =
     (let rb1 = (if length (buffer rb) < length dat then rb\<lparr>buffer := replicate (length dat) 0\<rparr> else rb);
          n = min (length (buffer rb1)) (length dat)
      in rb1\<lparr>buffer := take n dat @ drop n (buffer rb1), head := 0, tail := n\<rparr>)"

text \<open>\<open>rb_Read len\<close> models \<open>Read(data)\<close> with \<open>len(data) = len\<close>.\<close>
definition rb_Read :: "nat \<Rightarrow> ByteRingBuffer \<Rightarrow> byte list \<times> ByteRingBuffer" where
  "rb_Read len rb =
     (let n = (if len > tail rb - head rb then tail rb - head rb else len)
      in (take len (take (tail rb - head rb) (drop (head rb) (buffer rb))),
          rb\<lparr>head := head rb + n\<rparr>))"

definition rb_Empty :: "ByteRingBuffer \<Rightarrow> bool" where
  "rb_Empty rb \<longleftrightarrow> tail rb - head rb = 0"

definition rb_contents :: "ByteRingBuffer \<Rightarrow> byte list" where
  "rb_contents rb = take (tail rb - head rb) (drop (head rb) (buffer rb))"

definition rb_invar :: "ByteRingBuffer \<Rightarrow> bool" where
  "rb_invar rb \<longleftrightarrow> head rb \<le> tail rb \<and> tail rb \<le> length (buffer rb)"

lemma rb_New [simp]:
  "rb_invar (NewByteRingBuffer n)" "rb_contents (NewByteRingBuffer n) = []"
  by (simp_all add: rb_invar_def rb_contents_def NewByteRingBuffer_def)

lemma rb_Empty_contents: "rb_invar rb \<Longrightarrow> rb_Empty rb \<longleftrightarrow> rb_contents rb = []"
  by (auto simp: rb_Empty_def rb_contents_def rb_invar_def)

lemma OverWrite_contents [simp]: "rb_contents (OverWrite dat rb) = dat"
  by (simp add: rb_contents_def OverWrite_def Let_def)

lemma OverWrite_invar [simp, inv_intros]: "rb_invar (OverWrite dat rb)"
  by (simp add: rb_invar_def OverWrite_def Let_def)

interpretation ring: byte_buffer rb_contents rb_invar rb_Read
  by unfold_locales
    (auto simp: rb_contents_def rb_invar_def rb_Read_def Let_def drop_take min_def add.commute)

lemma rb_Read_length: "rb_invar rb \<Longrightarrow> length (fst (rb_Read n rb)) = min n (length (rb_contents rb))"
  by (simp add: ring.rd_bytes)

text \<open>
  The ring buffer is a faithful store of the last block: after \<open>OverWrite\<close>, reads of any
  sizes return the block's bytes in order, each byte once, and what is left unread is exactly the
  remainder.
\<close>
lemma OverWrite_reads:
  "case read_all rb_Read ns (OverWrite dat rb) of (xs, rb') \<Rightarrow>
     xs = take (sum_list ns) dat \<and> rb_contents rb' = drop (sum_list ns) dat
     \<and> (rb_Empty rb' \<longleftrightarrow> length dat \<le> sum_list ns)"
proof -
  obtain xs rb' where r: "read_all rb_Read ns (OverWrite dat rb) = (xs, rb')" by fastforce
  then show ?thesis
    using ring.read_all_correct [OF OverWrite_invar, of ns dat rb]
    by (auto simp: rb_Empty_contents)
qed

end
