(* ===== verification/BlockProcessor.thy ===== *)
theory BlockProcessor
  imports Block
begin

text \<open>
  The reordering stage of a connection, \<open>connection/block_processor.go\<close>. One iteration of the
  \<open>OrderedRelay\<close> loop is one \<open>relay_event\<close>: which case of the outer \<open>select\<close> fired. A send on
  the ordered queue races with the cancellation of the relay context; the budget of an event says
  how many sends succeed before the cancellation wins (\<open>None\<close>: all of them). The blocks put on
  the ordered queue are logged in \<open>ordered\<close>.
\<close>

section \<open>State and operations\<close>

record blockProcessor =
  cache :: "u32 \<rightharpoonup> block"
  sendBlockID :: u32
  recvBlockID :: u32
  lastRecvBlockID :: u32

definition newBlockProcessor :: blockProcessor where
  "newBlockProcessor = \<lparr>cache = Map.empty, sendBlockID = 0, recvBlockID = 0, lastRecvBlockID = 0\<rparr>"

record relay =
  proc :: blockProcessor
  ordered :: "block list"
  relay_stopped :: bool
  relay_removed :: bool

definition new_relay :: relay where
  "new_relay = \<lparr>proc = newBlockProcessor, ordered = [], relay_stopped = False, relay_removed = False\<rparr>"

type_synonym budget = "nat option"

text \<open>The inner \<open>select\<close>: \<open>None\<close> when the context was done first.\<close>
fun try_send :: "budget \<Rightarrow> budget option" where
  "try_send None = Some None"
| "try_send (Some 0) = None"
| "try_send (Some (Suc n)) = Some (Some n)"

text \<open>The inner loop that sends cached successors; \<open>False\<close> means the relay returned.\<close>
function drain_cache :: "budget \<Rightarrow> blockProcessor \<Rightarrow> block list \<Rightarrow> bool \<times> blockProcessor \<times> block list" where
  "drain_cache bud x out =
     (case cache x (recvBlockID x) of
        None \<Rightarrow> (True, x, out)
      | Some blk1 \<Rightarrow>
          (case try_send bud of
             None \<Rightarrow> (False, x, out)
           | Some bud' \<Rightarrow>
               drain_cache bud'
                 (x\<lparr>cache := (cache x)(recvBlockID x := None), recvBlockID := recvBlockID x + 1\<rparr>)
                 (out @ [blk1])))"
  by pat_completeness auto
termination
proof (relation "measure (\<lambda>(_, x, _). card (dom (cache x)))", goal_cases)
  case 1
  then show ?case by simp
next
  case (2 bud x out blk1 bud')
  then have "recvBlockID x \<in> dom (cache x)" by blast
  from card_dom_upd_None [OF this] show ?case by simp
qed

declare drain_cache.simps [simp del]

text \<open>The case that received a block.\<close>
definition relay_recv :: "budget \<Rightarrow> block \<Rightarrow> relay \<Rightarrow> relay" where
  "relay_recv bud blk st =
     (let x0 = proc st;
          x = (if BlockID blk + 1 > lastRecvBlockID x0
               then x0\<lparr>lastRecvBlockID := BlockID blk + 1\<rparr> else x0)
      in if recvBlockID x = BlockID blk
         then (case try_send bud of
                 None \<Rightarrow> st\<lparr>proc := x, relay_stopped := True\<rparr>
               | Some bud' \<Rightarrow>
                   (let (ok, x', out) = drain_cache bud' (x\<lparr>recvBlockID := recvBlockID x + 1\<rparr>)
                                          (ordered st @ [blk])
                    in st\<lparr>proc := x', ordered := out, relay_stopped := \<not> ok\<rparr>))
         else if BlockID blk < recvBlockID x then st\<lparr>proc := x\<rparr>
         else st\<lparr>proc := x\<lparr>cache := (cache x)(BlockID blk \<mapsto> blk)\<rparr>\<rparr>)"

text \<open>The packet-wait timeout.\<close>
definition relay_timeout :: "relay \<Rightarrow> relay" where
  "relay_timeout st =
     (if recvBlockID (proc st) = lastRecvBlockID (proc st) then st
      else st\<lparr>relay_removed := True\<rparr>)"

datatype relay_event = RelayRecv budget block | RelayClosed | RelayTimeout | RelayDone

fun OrderedRelay_step :: "relay_event \<Rightarrow> relay \<Rightarrow> relay" where
  "OrderedRelay_step (RelayRecv bud blk) st = relay_recv bud blk st"
| "OrderedRelay_step RelayClosed st = st\<lparr>relay_stopped := True\<rparr>"
| "OrderedRelay_step RelayTimeout st = relay_timeout st"
| "OrderedRelay_step RelayDone st = st\<lparr>relay_stopped := True\<rparr>"

text \<open>The loop: events after the relay returned are not processed.\<close>
fun OrderedRelay :: "relay_event list \<Rightarrow> relay \<Rightarrow> relay" where
  "OrderedRelay [] st = st"
| "OrderedRelay (e # es) st =
     (if relay_stopped st then st else OrderedRelay es (OrderedRelay_step e st))"

text \<open>The packing helpers thread the atomic send counter.\<close>
definition packData :: "(nat \<Rightarrow> i64) \<Rightarrow> byte list \<Rightarrow> u32 \<Rightarrow> blockProcessor \<Rightarrow> block list \<times> blockProcessor" where
  "packData now dat connectionID x =
     (let (bs, n) = NewDataBlocks now connectionID (sendBlockID x) dat
      in (bs, x\<lparr>sendBlockID := n\<rparr>))"

definition packConnect :: "i64 \<Rightarrow> byte list \<Rightarrow> u32 \<Rightarrow> blockProcessor \<Rightarrow> block \<times> blockProcessor" where
  "packConnect now address connectionID x =
     (NewConnectBlock now connectionID ((sendBlockID x + 1) - 1) address,
      x\<lparr>sendBlockID := sendBlockID x + 1\<rparr>)"

definition packDisconnect :: "i64 \<Rightarrow> u32 \<Rightarrow> u8 \<Rightarrow> blockProcessor \<Rightarrow> block \<times> blockProcessor" where
  "packDisconnect now connectionID shutdownType x =
     (NewDisconnectBlock now connectionID ((sendBlockID x + 1) - 1) shutdownType,
      x\<lparr>sendBlockID := sendBlockID x + 1\<rparr>)"

definition packPing :: "i64 \<Rightarrow> u32 \<Rightarrow> u64 \<Rightarrow> block" where
  "packPing now connectionID latency = NewPingBlock now connectionID 0 latency"

definition packPong :: "i64 \<Rightarrow> u32 \<Rightarrow> u64 \<Rightarrow> block" where
  "packPong now connectionID timestamp = NewPongBlock now connectionID 0 timestamp"

section \<open>Reordering\<close>

text \<open>A numbered sequence: the \<open>i\<close>-th block carries ID \<open>i\<close>, and the IDs have not wrapped around.\<close>
definition numbered :: "block list \<Rightarrow> bool" where
  "numbered S \<longleftrightarrow> length S < 2 ^ 32 \<and> (\<forall>i<length S. BlockID (S ! i) = of_nat i)"

lemma numbered_unat: "numbered S \<Longrightarrow> i < length S \<Longrightarrow> unat (BlockID (S ! i)) = i"
  by (simp add: numbered_def unat_of_nat_u32)

lemma numbered_member:
  assumes "numbered S" "b \<in> set S"
  shows "unat (BlockID b) < length S" "S ! unat (BlockID b) = b"
  using assms by (auto simp: in_set_conv_nth numbered_unat)

text \<open>The cache when the next block to deliver is \<open>r\<close> and the blocks of \<open>A\<close> have arrived.\<close>
definition pending :: "block list \<Rightarrow> block set \<Rightarrow> nat \<Rightarrow> u32 \<rightharpoonup> block" where
  "pending S A r = (\<lambda>k. if r \<le> unat k \<and> unat k < length S \<and> S ! unat k \<in> A
                        then Some (S ! unat k) else None)"

lemma pending_Suc:
  assumes "r < 2 ^ 32"
  shows "(pending S A r)(of_nat r := None) = pending S A (Suc r)"
proof
  fix k :: u32
  have "k = of_nat r \<longleftrightarrow> unat k = r"
    using assms by (simp add: word_unat_eq_iff unat_of_nat_u32)
  then show "((pending S A r)(of_nat r := None)) k = pending S A (Suc r) k"
    by (auto simp: pending_def)
qed

lemma pending_insert:
  assumes "numbered S" "b \<in> set S" "r \<le> unat (BlockID b)"
  shows "(pending S A r)(BlockID b \<mapsto> b) = pending S (insert b A) r"
proof
  fix k :: u32
  show "((pending S A r)(BlockID b \<mapsto> b)) k = pending S (insert b A) r k"
  proof (cases "k = BlockID b")
    case True
    then show ?thesis using assms numbered_member [OF assms(1,2)] by (simp add: pending_def)
  next
    case False
    have "S ! unat k \<noteq> b" if "unat k < length S"
      using False numbered_unat [OF assms(1) that] by (auto simp: word_unat_eq_iff)
    with False show ?thesis by (auto simp: pending_def)
  qed
qed

lemma pending_next:
  assumes "numbered S" "r < length S" "S ! r \<notin> A"
  shows "pending S A r = pending S (insert (S ! r) A) (Suc r)"
proof
  fix k :: u32
  have "S ! unat k = S ! r \<longleftrightarrow> unat k = r" if "unat k < length S"
    using numbered_unat [OF assms(1)] that assms(2) by metis
  then show "pending S A r k = pending S (insert (S ! r) A) (Suc r) k"
    using assms(3) by (auto simp: pending_def Suc_le_eq order_le_less)
qed

lemma pending_self:
  assumes "numbered S" "r \<le> length S"
  shows "pending S A r (of_nat r) = (if r < length S \<and> S ! r \<in> A then Some (S ! r) else None)"
  using assms by (simp add: pending_def numbered_def unat_of_nat_u32)

text \<open>
  The outcome of the inner loop: the next blocks were delivered in order up to position \<open>r\<close>, as
  far as they are cached; if it ended normally, the block at \<open>r\<close> has not arrived.
\<close>
definition drained ::
  "block list \<Rightarrow> block set \<Rightarrow> blockProcessor \<Rightarrow> budget \<Rightarrow> nat \<Rightarrow> bool \<times> blockProcessor \<times> block list \<Rightarrow> bool" where
  "drained S A x bud r res \<longleftrightarrow>
     r \<le> length S \<and> (\<forall>i<r. S ! i \<in> A)
   \<and> fst (snd res) = x\<lparr>recvBlockID := of_nat r, cache := pending S A r\<rparr>
   \<and> snd (snd res) = take r S
   \<and> (fst res \<longrightarrow> r < length S \<longrightarrow> S ! r \<notin> A)
   \<and> (bud = None \<longrightarrow> fst res)"

lemma drain_cache_correct:
  assumes "numbered S" "r \<le> length S" "\<forall>i<r. S ! i \<in> A"
    and "recvBlockID x = of_nat r" "cache x = pending S A r"
  shows "\<exists>r'\<ge>r. drained S A x bud r' (drain_cache bud x (take r S))"
  using assms
proof (induction bud x "take r S" arbitrary: r rule: drain_cache.induct)
  case (1 bud x)
  note self = pending_self [OF "1.prems"(1,2), of A]
  show ?case
  proof (cases "r < length S \<and> S ! r \<in> A")
    case False
    with "1.prems" self show ?thesis
      by (subst drain_cache.simps) (auto simp: drained_def intro!: exI [of _ r])
  next
    case True
    then have hit: "cache x (recvBlockID x) = Some (S ! r)"
      using "1.prems" self by simp
    show ?thesis
    proof (cases "try_send bud")
      case None
      then have "bud \<noteq> None" by (cases bud) auto
      with None "1.prems" hit show ?thesis
        by (subst drain_cache.simps) (auto simp: drained_def intro!: exI [of _ r])
    next
      case (Some bud')
      let ?x = "x\<lparr>cache := (cache x)(recvBlockID x := None), recvBlockID := recvBlockID x + 1\<rparr>"
      have out: "take r S @ [S ! r] = take (Suc r) S"
        using True by (simp add: take_Suc_conv_app_nth)
      have bud: "bud = None \<Longrightarrow> bud' = None" using Some by simp
      have r32: "r < 2 ^ 32" using True "1.prems"(1) by (simp add: numbered_def)
      have "\<exists>r'\<ge>Suc r. drained S A ?x bud' r' (drain_cache bud' ?x (take (Suc r) S))"
      proof (rule "1.hyps" [OF hit Some out "1.prems"(1)])
        show "\<forall>i<Suc r. S ! i \<in> A" using "1.prems"(3) True by (auto simp: less_Suc_eq)
        show "cache ?x = pending S A (Suc r)"
          using "1.prems"(4,5) pending_Suc [OF r32] by simp
        show "recvBlockID ?x = of_nat (Suc r)"
          using "1.prems"(4) by (simp add: add.commute)
      qed (use True in simp)
      then obtain r' where r': "Suc r \<le> r'" "drained S A ?x bud' r' (drain_cache bud' ?x (take (Suc r) S))"
        by blast
      have "drain_cache bud x (take r S) = drain_cache bud' ?x (take (Suc r) S)"
        unfolding drain_cache.simps [of bud x "take r S"] hit Some option.case out ..
      moreover have "drained S A x bud r' (drain_cache bud' ?x (take (Suc r) S))"
        using r'(2) bud by (auto simp: drained_def)
      ultimately show ?thesis using r'(1) by (intro exI [of _ r']) simp
    qed
  qed
qed

text \<open>The invariant of the relay when \<open>A\<close> are the blocks that have been received.\<close>
definition relay_inv :: "block list \<Rightarrow> block set \<Rightarrow> relay \<Rightarrow> bool" where
  "relay_inv S A st \<longleftrightarrow>
     (\<exists>r\<le>length S. ordered st = take r S
        \<and> (\<not> relay_stopped st \<longrightarrow>
             recvBlockID (proc st) = of_nat r \<and> cache (proc st) = pending S A r
           \<and> (\<forall>i<r. S ! i \<in> A) \<and> (r < length S \<longrightarrow> S ! r \<notin> A)
           \<and> (\<forall>b\<in>A. BlockID b < lastRecvBlockID (proc st))
           \<and> (lastRecvBlockID (proc st) = 0 \<or> (\<exists>b\<in>A. BlockID b + 1 = lastRecvBlockID (proc st)))))"

lemma relay_inv_init: "relay_inv S {} new_relay"
  by (auto simp: relay_inv_def new_relay_def newBlockProcessor_def pending_def intro!: exI [of _ 0])

lemma BlockID_Suc:
  assumes "numbered S" "b \<in> set S"
  shows "BlockID b < BlockID b + 1" "unat (BlockID b + 1) = Suc (unat (BlockID b))"
proof -
  have "unat (BlockID b) < 2 ^ 32 - 1"
    using numbered_member(1) [OF assms] assms(1) by (simp add: numbered_def)
  then show *: "unat (BlockID b + 1) = Suc (unat (BlockID b))"
    by (simp add: unat_word_ariths)
  show "BlockID b < BlockID b + 1"
    by (simp add: word_less_nat_alt *)
qed

text \<open>What the update of \<open>lastRecvBlockID\<close> keeps true.\<close>
lemma last_recv_update:
  assumes S: "numbered S" "b \<in> set S"
    and hi: "\<forall>c\<in>A. BlockID c < l" "l = 0 \<or> (\<exists>c\<in>A. BlockID c + 1 = l)"
  defines "l' \<equiv> (if BlockID b + 1 > l then BlockID b + 1 else l)"
  shows "\<forall>c\<in>insert b A. BlockID c < l'" "l' = 0 \<or> (\<exists>c\<in>insert b A. BlockID c + 1 = l')"
proof -
  note [simp] = BlockID_Suc(1) [OF S]
  show "\<forall>c\<in>insert b A. BlockID c < l'"
    using hi(1) order.strict_trans2 [OF BlockID_Suc(1) [OF S]]
    by (auto simp: l'_def not_less intro: order.strict_trans)
  show "l' = 0 \<or> (\<exists>c\<in>insert b A. BlockID c + 1 = l')"
    using hi(2) by (auto simp: l'_def)
qed

text \<open>A running relay that has handed over \<open>r\<close> blocks, and its update of \<open>lastRecvBlockID\<close>.\<close>
definition last_seen :: "block set \<Rightarrow> u32 \<Rightarrow> bool" where
  "last_seen A l \<longleftrightarrow> (\<forall>b\<in>A. BlockID b < l) \<and> (l = 0 \<or> (\<exists>b\<in>A. BlockID b + 1 = l))"

definition relay_at :: "block list \<Rightarrow> block set \<Rightarrow> nat \<Rightarrow> relay \<Rightarrow> bool" where
  "relay_at S A r st \<longleftrightarrow>
     r \<le> length S \<and> ordered st = take r S \<and> recvBlockID (proc st) = of_nat r \<and> cache (proc st) = pending S A r
   \<and> (\<forall>i<r. S ! i \<in> A) \<and> (r < length S \<longrightarrow> S ! r \<notin> A) \<and> last_seen A (lastRecvBlockID (proc st))"

definition noted :: "block \<Rightarrow> blockProcessor \<Rightarrow> blockProcessor" where
  "noted b x = (if BlockID b + 1 > lastRecvBlockID x then x\<lparr>lastRecvBlockID := BlockID b + 1\<rparr> else x)"

lemma noted_sel [simp]: "recvBlockID (noted b x) = recvBlockID x" "cache (noted b x) = cache x"
  by (simp_all add: noted_def)

lemma last_seen_noted:
  assumes "numbered S" "b \<in> set S" "last_seen A (lastRecvBlockID x)"
  shows "last_seen (insert b A) (lastRecvBlockID (noted b x))"
proof -
  have hi: "\<forall>c\<in>A. BlockID c < lastRecvBlockID x" "lastRecvBlockID x = 0 \<or> (\<exists>c\<in>A. BlockID c + 1 = lastRecvBlockID x)"
    using assms(3) by (simp_all add: last_seen_def)
  have last: "lastRecvBlockID (noted b x) = (if BlockID b + 1 > lastRecvBlockID x then BlockID b + 1 else lastRecvBlockID x)"
    by (simp add: noted_def)
  show ?thesis
    unfolding last_seen_def last using last_recv_update [OF assms(1,2) hi] by (rule conjI)
qed

lemma relay_inv_running: "\<not> relay_stopped st \<Longrightarrow> relay_inv S A st \<longleftrightarrow> (\<exists>r. relay_at S A r st)"
  by (auto simp: relay_inv_def relay_at_def last_seen_def)

lemma relay_recv_eq:
  assumes "numbered S" "relay_at S A r st"
  shows "relay_recv bud b st =
    (let x = noted b (proc st) in
     if unat (BlockID b) = r
     then (case try_send bud of
             None \<Rightarrow> st\<lparr>proc := x, relay_stopped := True\<rparr>
           | Some bud' \<Rightarrow> (let (ok, x', out) = drain_cache bud' (x\<lparr>recvBlockID := of_nat (Suc r)\<rparr>) (ordered st @ [b])
                         in st\<lparr>proc := x', ordered := out, relay_stopped := \<not> ok\<rparr>))
     else if unat (BlockID b) < r then st\<lparr>proc := x\<rparr>
     else st\<lparr>proc := x\<lparr>cache := (cache x)(BlockID b \<mapsto> b)\<rparr>\<rparr>)"
proof -
  have "unat (of_nat r :: u32) = r" "recvBlockID (proc st) = of_nat r"
    using assms by (simp_all add: relay_at_def numbered_def unat_of_nat_u32)
  moreover from this have "of_nat r = BlockID b \<longleftrightarrow> unat (BlockID b) = r" "BlockID b < of_nat r \<longleftrightarrow> unat (BlockID b) < r"
    by (auto simp: word_unat_eq_iff word_less_nat_alt)
  ultimately show ?thesis
    unfolding relay_recv_def noted_def [symmetric] by (cases "try_send bud") (simp_all add: Let_def add.commute)
qed

text \<open>The block that is expected: it is handed over, and after it its cached successors.\<close>
lemma relay_recv_next:
  assumes S: "numbered S" "b \<in> set S" and at: "relay_at S A r st" and "unat (BlockID b) = r"
  shows "relay_inv S (insert b A) (relay_recv bud b st) \<and> (bud = None \<longrightarrow> \<not> relay_stopped (relay_recv bud b st))"
proof (cases "try_send bud")
  case None
  then have "bud \<noteq> None" by (cases bud) auto
  with None assms(4) at show ?thesis by (auto simp: relay_recv_eq [OF S(1) at] Let_def relay_inv_def relay_at_def)
next
  case (Some bud')
  let ?x = "(noted b (proc st))\<lparr>recvBlockID := of_nat (Suc r)\<rparr>"
  have bud: "bud = None \<Longrightarrow> bud' = None" using Some by simp
  have rb: "r < length S" "S ! r = b" using numbered_member [OF S] assms(4) by auto
  have out: "ordered st @ [b] = take (Suc r) S" using rb at by (simp add: relay_at_def take_Suc_conv_app_nth)
  have "cache ?x = pending S (insert b A) (Suc r)"
    using pending_next [OF S(1) rb(1), of A] rb at by (simp add: relay_at_def)
  moreover have "\<forall>i<Suc r. S ! i \<in> insert b A" using rb at by (auto simp: relay_at_def less_Suc_eq)
  ultimately obtain r' where r': "drained S (insert b A) ?x bud' r' (drain_cache bud' ?x (take (Suc r) S))"
    using drain_cache_correct [OF S(1), of "Suc r" "insert b A" ?x bud'] rb(1) by (auto simp: Suc_le_eq)
  obtain ok x' out' where d: "drain_cache bud' ?x (take (Suc r) S) = (ok, x', out')" by (metis prod_cases3)
  have "relay_recv bud b st = st\<lparr>proc := x', ordered := out', relay_stopped := \<not> ok\<rparr>"
    using assms(4) d out by (simp add: relay_recv_eq [OF S(1) at] Let_def Some)
  moreover have "last_seen (insert b A) (lastRecvBlockID (noted b (proc st)))"
    using at by (intro last_seen_noted [OF S]) (simp add: relay_at_def)
  ultimately show ?thesis
    using r' bud unfolding d by (auto simp: drained_def relay_inv_def last_seen_def intro!: exI [of _ r'])
qed

text \<open>A block that was handed over before is ignored; one ahead of order is cached.\<close>
lemma relay_recv_other:
  assumes S: "numbered S" "b \<in> set S" and at: "relay_at S A r st" and "unat (BlockID b) \<noteq> r"
  shows "relay_at S (insert b A) r (relay_recv bud b st)"
proof (cases "unat (BlockID b) < r")
  case True
  then have "b \<in> A" using numbered_member [OF S] at by (auto simp: relay_at_def)
  with last_seen_noted [OF S, of A "proc st"] at True show ?thesis
    by (simp add: relay_recv_eq [OF S(1) at] Let_def relay_at_def insert_absorb)
next
  case False
  then have "(pending S A r)(BlockID b \<mapsto> b) = pending S (insert b A) r"
    using assms(4) by (intro pending_insert [OF S]) simp
  moreover have "r < length S \<longrightarrow> S ! r \<noteq> b" using assms(4) numbered_unat [OF S(1), of r] by auto
  ultimately show ?thesis
    using last_seen_noted [OF S, of A "proc st"] at False assms(4)
    by (simp add: relay_recv_eq [OF S(1) at] Let_def relay_at_def)
qed

lemma relay_recv_frame: "relay_removed (relay_recv bud b st) = relay_removed st"
  by (simp add: relay_recv_def Let_def split: option.split prod.split)

lemma relay_recv_inv:
  assumes S: "numbered S" "b \<in> set S" and inv: "relay_inv S A st" and run: "\<not> relay_stopped st"
  shows "relay_inv S (insert b A) (relay_recv bud b st)"
    and "bud = None \<Longrightarrow> \<not> relay_stopped (relay_recv bud b st)"
    and "relay_removed (relay_recv bud b st) = relay_removed st"
proof -
  obtain r where at: "relay_at S A r st" using inv run by (auto simp: relay_inv_running)
  have "relay_inv S (insert b A) (relay_recv bud b st) \<and> (bud = None \<longrightarrow> \<not> relay_stopped (relay_recv bud b st))"
  proof (cases "unat (BlockID b) = r")
    case False
    then have "\<not> relay_stopped (relay_recv bud b st)"
      using run by (auto simp: relay_recv_eq [OF S(1) at] Let_def)
    with relay_recv_other [OF S at False] show ?thesis by (auto simp: relay_inv_running)
  qed (rule relay_recv_next [OF S at])
  then show "relay_inv S (insert b A) (relay_recv bud b st)"
    and "bud = None \<Longrightarrow> \<not> relay_stopped (relay_recv bud b st)" by blast+
  show "relay_removed (relay_recv bud b st) = relay_removed st" by (rule relay_recv_frame)
qed

text \<open>The two counters of a running relay differ exactly when there is a hole.\<close>
lemma hole_iff:
  assumes "numbered S" "A \<subseteq> set S" "relay_at S A r st"
  shows "(\<exists>i j. i < j \<and> j < length S \<and> S ! j \<in> A \<and> S ! i \<notin> A) \<longleftrightarrow> recvBlockID (proc st) \<noteq> lastRecvBlockID (proc st)"
    (is "?hole \<longleftrightarrow> _ \<noteq> ?l")
proof -
  have r: "r \<le> length S" "\<forall>i<r. S ! i \<in> A" "r < length S \<longrightarrow> S ! r \<notin> A"
    and hi: "\<forall>b\<in>A. BlockID b < ?l" "?l = 0 \<or> (\<exists>b\<in>A. BlockID b + 1 = ?l)"
    using assms(3) by (auto simp: relay_at_def last_seen_def)
  have "unat (of_nat r :: u32) = r" using r(1) assms(1) by (simp add: numbered_def unat_of_nat_u32)
  then have eq: "recvBlockID (proc st) = ?l \<longleftrightarrow> unat ?l = r"
    using assms(3) by (auto simp: relay_at_def word_unat_eq_iff)
  have below: "j < unat ?l" if "j < length S" "S ! j \<in> A" for j
    using hi(1) that numbered_unat [OF assms(1) that(1)] by (auto simp: word_less_nat_alt)
  have "unat ?l \<noteq> r" if hole: ?hole
  proof
    assume "unat ?l = r"
    moreover obtain i j where "i < j" "j < length S" "S ! j \<in> A" "S ! i \<notin> A" using hole by blast
    ultimately show False using below [of j] r(2) by simp
  qed
  moreover have ?hole if l: "unat ?l \<noteq> r"
  proof -
    have "r - 1 < unat ?l \<or> r = 0" using r(1,2) by (cases r) (auto intro: below)
    with l have "r < unat ?l" by linarith
    then obtain b where b: "b \<in> A" "BlockID b + 1 = ?l" using hi(2) by auto
    note bS = numbered_member [OF assms(1) subsetD [OF assms(2) b(1)]]
    have "Suc (unat (BlockID b)) = unat ?l"
      using BlockID_Suc(2) [OF assms(1) subsetD [OF assms(2) b(1)]] b(2) by simp
    with \<open>r < unat ?l\<close> have "r \<le> unat (BlockID b)" by simp
    moreover from this have "S ! r \<notin> A" using bS(1) r(3) by simp
    ultimately have "r < unat (BlockID b)" using bS(2) b(1) by (cases "r = unat (BlockID b)") auto
    with \<open>S ! r \<notin> A\<close> bS b(1) show ?thesis by metis
  qed
  ultimately show ?thesis using eq by blast
qed

fun event_blocks :: "relay_event list \<Rightarrow> block set" where
  "event_blocks [] = {}"
| "event_blocks (RelayRecv bud b # es) = insert b (event_blocks es)"
| "event_blocks (_ # es) = event_blocks es"

text \<open>A run in which the relay is never told to stop.\<close>
fun uninterrupted :: "relay_event list \<Rightarrow> bool" where
  "uninterrupted [] = True"
| "uninterrupted (RelayRecv None b # es) = uninterrupted es"
| "uninterrupted (RelayTimeout # es) = uninterrupted es"
| "uninterrupted (_ # es) = False"

lemma OrderedRelay_stopped [simp]: "relay_stopped st \<Longrightarrow> OrderedRelay es st = st"
  by (cases es) simp_all

lemma relay_inv_stopped: "relay_inv S A st \<Longrightarrow> relay_inv S B (st\<lparr>relay_stopped := True\<rparr>)"
  by (auto simp: relay_inv_def)

lemma relay_inv_stopped_any: "relay_inv S A st \<Longrightarrow> relay_stopped st \<Longrightarrow> relay_inv S B st"
  by (auto simp: relay_inv_def)

lemma relay_timeout_inv: "relay_inv S A st \<Longrightarrow> relay_inv S A (relay_timeout st)"
  by (auto simp: relay_inv_def relay_timeout_def)

lemma relay_timeout_stopped [simp]: "relay_stopped (relay_timeout st) = relay_stopped st"
  by (simp add: relay_timeout_def)

lemma OrderedRelay_inv:
  assumes "numbered S" "event_blocks es \<subseteq> set S" "relay_inv S A st"
  shows "relay_inv S (A \<union> event_blocks es) (OrderedRelay es st)
    \<and> (uninterrupted es \<longrightarrow> \<not> relay_stopped st \<longrightarrow> \<not> relay_stopped (OrderedRelay es st))"
  using assms(2,3)
proof (induction es arbitrary: A st)
  case Nil
  then show ?case by simp
next
  case (Cons e es)
  show ?case
  proof (cases "relay_stopped st")
    case True
    then show ?thesis using Cons.prems(2) by (auto intro: relay_inv_stopped_any)
  next
    case run: False
    show ?thesis
    proof (cases e)
      case (RelayRecv bud b)
      with Cons.prems have b: "b \<in> set S" "event_blocks es \<subseteq> set S" by auto
      note step = relay_recv_inv [OF assms(1) b(1) Cons.prems(2) run, of bud]
      from Cons.IH [OF b(2) step(1)] step(2) run RelayRecv show ?thesis
        by (cases bud) (simp_all add: Un_insert_right)
    next
      case RelayTimeout
      with Cons.IH [of A "relay_timeout st"] Cons.prems run show ?thesis
        by (simp add: relay_timeout_inv)
    qed (use Cons.prems run in \<open>auto intro: relay_inv_stopped\<close>)
  qed
qed

lemma ordered_take:
  assumes "numbered S" "event_blocks es \<subseteq> set S"
  obtains r where "r \<le> length S" "ordered (OrderedRelay es new_relay) = take r S"
  using OrderedRelay_inv [OF assms relay_inv_init] by (auto simp: relay_inv_def)

text \<open>A relay that was not stopped has delivered up to the first block that is missing.\<close>
lemma delivered_upto:
  assumes "numbered S" "event_blocks es \<subseteq> set S" "uninterrupted es"
  shows "\<exists>r\<le>length S. ordered (OrderedRelay es new_relay) = take r S
    \<and> (\<forall>i<r. S ! i \<in> event_blocks es) \<and> (r < length S \<longrightarrow> S ! r \<notin> event_blocks es)"
  using OrderedRelay_inv [OF assms(1,2) relay_inv_init] assms(3)
  by (auto simp: relay_inv_def new_relay_def)

lemma delivered_all:
  assumes "numbered S" "event_blocks es \<subseteq> set S" "uninterrupted es" "event_blocks es = set S"
  shows "ordered (OrderedRelay es new_relay) = S"
  using delivered_upto [OF assms(1-3)] assms(4) by (metis le_neq_implies_less nth_mem take_all_iff order_refl)

section \<open>Properties\<close>

text \<open>
  C5. Ordering safety: whatever the arrival order, duplication, timeouts and cancellation, the
  blocks handed to the connection are an initial segment of the sequence the peer numbered.
\<close>
theorem OrderedRelay_prefix:
  assumes "numbered S" and "event_blocks es \<subseteq> set S"
  shows "prefix (ordered (OrderedRelay es new_relay)) S"
  using ordered_take [OF assms] by (metis take_is_prefix)

text \<open>A concrete sequence of three blocks for the witnesses.\<close>
definition sample_blocks :: "block list" where
  "sample_blocks = [NewConnectBlock 0 7 0 [], newDataBlock 0 7 1 [65], NewDisconnectBlock 0 7 2 ShutdownBoth]"

lemma numbered_sample: "numbered sample_blocks"
  by (simp add: numbered_def sample_blocks_def NewConnectBlock_def NewDisconnectBlock_def
      All_less_Suc numeral_3_eq_3)

theorem OrderedRelay_prefix_witness:
  "prefix (ordered (OrderedRelay [RelayRecv None (sample_blocks ! 2), RelayTimeout,
       RelayRecv (Some 1) (sample_blocks ! 0), RelayRecv None (sample_blocks ! 1)] new_relay)) sample_blocks"
  by (rule OrderedRelay_prefix [OF numbered_sample]) (simp add: sample_blocks_def)

text \<open>
  C6. Ordering liveness: as long as the relay is not stopped, it has delivered block \<open>i\<close> exactly
  when all of the blocks \<open>0, ..., i\<close> have arrived, in whatever order; in particular, once every
  block of the sequence has arrived, the connection has received the whole sequence in order.
\<close>
theorem OrderedRelay_delivers:
  assumes "numbered S" and "event_blocks es \<subseteq> set S" and "uninterrupted es"
  shows "(\<forall>i<length S. i < length (ordered (OrderedRelay es new_relay))
            \<longleftrightarrow> (\<forall>j\<le>i. S ! j \<in> event_blocks es))
    \<and> (event_blocks es = set S \<longrightarrow> ordered (OrderedRelay es new_relay) = S)"
proof -
  obtain r where r: "r \<le> length S" "ordered (OrderedRelay es new_relay) = take r S"
    "\<forall>i<r. S ! i \<in> event_blocks es" "r < length S \<longrightarrow> S ! r \<notin> event_blocks es"
    using delivered_upto [OF assms] by blast
  then have "i < r \<longleftrightarrow> (\<forall>j\<le>i. S ! j \<in> event_blocks es)" if "i < length S" for i
    using that by (meson le_less_trans not_le order_le_less_trans)
  moreover have "event_blocks es = set S \<longrightarrow> ordered (OrderedRelay es new_relay) = S"
    using delivered_all [OF assms] by simp
  ultimately show ?thesis using r(1,2) by auto
qed

theorem OrderedRelay_delivers_witness:
  "ordered (OrderedRelay [RelayRecv None (sample_blocks ! 2), RelayTimeout,
       RelayRecv None (sample_blocks ! 0), RelayRecv None (sample_blocks ! 1)] new_relay) = sample_blocks"
proof -
  let ?es = "[RelayRecv None (sample_blocks ! 2), RelayTimeout,
       RelayRecv None (sample_blocks ! 0), RelayRecv None (sample_blocks ! 1)]"
  have "event_blocks ?es = set sample_blocks" by (auto simp: sample_blocks_def)
  then show ?thesis
    using OrderedRelay_delivers [OF numbered_sample, of ?es] by simp
qed

text \<open>
  C20. The packet-wait timeout closes a connection exactly when there is a hole: some block has
  arrived while an earlier one has not. A connection that merely is idle is kept.
\<close>
theorem relay_timeout_iff_hole:
  assumes "numbered S" and "event_blocks es \<subseteq> set S" and "uninterrupted es"
  shows "relay_timeout (OrderedRelay es new_relay) =
     (if \<exists>i j. i < j \<and> j < length S \<and> S ! j \<in> event_blocks es \<and> S ! i \<notin> event_blocks es
      then (OrderedRelay es new_relay)\<lparr>relay_removed := True\<rparr>
      else OrderedRelay es new_relay)"
proof -
  have "relay_inv S (event_blocks es) (OrderedRelay es new_relay)" "\<not> relay_stopped (OrderedRelay es new_relay)"
    using OrderedRelay_inv [OF assms(1,2) relay_inv_init] assms(3) by (simp_all add: new_relay_def)
  then obtain r where "relay_at S (event_blocks es) r (OrderedRelay es new_relay)" by (auto simp: relay_inv_running)
  from hole_iff [OF assms(1,2) this] show ?thesis unfolding relay_timeout_def by presburger
qed

theorem relay_timeout_iff_hole_witness:
  "relay_removed (relay_timeout (OrderedRelay [RelayRecv None (sample_blocks ! 2)] new_relay))"
proof -
  let ?es = "[RelayRecv None (sample_blocks ! 2)]"
  have "event_blocks ?es \<subseteq> set sample_blocks"
    by (simp add: sample_blocks_def)
  moreover have "(0::nat) < 2 \<and> 2 < length sample_blocks
      \<and> sample_blocks ! 2 \<in> event_blocks ?es \<and> sample_blocks ! 0 \<notin> event_blocks ?es"
    by (simp add: sample_blocks_def NewConnectBlock_def NewDisconnectBlock_def)
  then have "\<exists>i j. i < j \<and> j < length sample_blocks
      \<and> sample_blocks ! j \<in> event_blocks ?es \<and> sample_blocks ! i \<notin> event_blocks ?es"
    by blast
  moreover have "uninterrupted ?es" by simp
  ultimately have "relay_timeout (OrderedRelay ?es new_relay)
      = (OrderedRelay ?es new_relay)\<lparr>relay_removed := True\<rparr>"
    using relay_timeout_iff_hole [OF numbered_sample, of ?es] by (simp only: if_True)
  then show ?thesis by simp
qed

text \<open>
  C37. Sequence numbers do not survive wrap-around: when the next expected ID is the last one,
  2^32 - 1, a block that overtakes it (its successor has ID 0) is discarded as old, so after the
  expected block arrives the relay waits for ID 0 forever, with the overtaking block lost.
\<close>
theorem OrderedRelay_wraparound_loss:
  assumes "recvBlockID (proc st) = 2 ^ 32 - 1" "cache (proc st) = Map.empty" "\<not> relay_stopped st"
    and "BlockID b0 = 0" "BlockID b1 = 2 ^ 32 - 1"
  shows "ordered (OrderedRelay [RelayRecv None b0, RelayRecv None b1] st) = ordered st @ [b1]
    \<and> recvBlockID (proc (OrderedRelay [RelayRecv None b0, RelayRecv None b1] st)) = 0
    \<and> cache (proc (OrderedRelay [RelayRecv None b0, RelayRecv None b1] st)) = Map.empty"
  using assms by (simp add: relay_recv_def Let_def drain_cache.simps)

theorem OrderedRelay_wraparound_loss_witness:
  "ordered (OrderedRelay [RelayRecv None (newDataBlock 0 7 0 [66]), RelayRecv None (newDataBlock 0 7 (2 ^ 32 - 1) [65])]
     (new_relay\<lparr>proc := newBlockProcessor\<lparr>recvBlockID := 2 ^ 32 - 1\<rparr>\<rparr>))
   = [newDataBlock 0 7 (2 ^ 32 - 1) [65]]"
  using OrderedRelay_wraparound_loss [of "new_relay\<lparr>proc := newBlockProcessor\<lparr>recvBlockID := 2 ^ 32 - 1\<rparr>\<rparr>"
      "newDataBlock 0 7 0 [66]" "newDataBlock 0 7 (2 ^ 32 - 1) [65]"]
  by (simp add: new_relay_def newBlockProcessor_def)

end
