(* ===== verification/Connection.thy ===== *)
theory Connection
  imports BlockProcessor RingBuffer
begin

text \<open>
  The part that inbound and outbound connections share, \<open>connection/connection.go\<close>: counters,
  queues, and the operations that pack and send blocks. The send queue belongs to the connection
  pool; here it is the log \<open>sendq\<close> of the blocks a connection has put on it. The cancel function
  of the connection's context is modelled by its effect, the flag \<open>ctxDone\<close>.
\<close>

text \<open>The channel capacities of \<open>connection/const.go\<close> are variables that the configuration sets.\<close>
record conn_config =
  OrderedRecvQueueSize :: nat
  RecvQueueSize :: nat
  OutboundRecvBuffer :: nat

definition default_conn_config :: conn_config where
  "default_conn_config = \<lparr>OrderedRecvQueueSize = 32, RecvQueueSize = 32, OutboundRecvBuffer = 32 * 1024\<rparr>"

record baseConnection =
  bproc :: blockProcessor
  connectionID :: u32
  closed :: bool
  sendq :: "block list"
  recvQueue :: "block chan"
  orderedRecvQueue :: "block chan"
  LastActivity :: i64
  LatencyNano :: i64
  SentBytes :: u64
  RecvBytes :: u64
  ctxDone :: bool

definition SetLastActive :: "i64 \<Rightarrow> 'a baseConnection_scheme \<Rightarrow> 'a baseConnection_scheme" where
  "SetLastActive now c = c\<lparr>LastActivity := now\<rparr>"

definition SetLatencyNanoSince :: "i64 \<Rightarrow> i64 \<Rightarrow> 'a baseConnection_scheme \<Rightarrow> 'a baseConnection_scheme" where
  "SetLatencyNanoSince now timestamp c = c\<lparr>LatencyNano := now - timestamp\<rparr>"

text \<open>What the pool and the status page read of a connection.\<close>
definition GetLastActive :: "'a baseConnection_scheme \<Rightarrow> i64" where
  [simp]: "GetLastActive c = LastActivity c"

definition GetLatencyNano :: "'a baseConnection_scheme \<Rightarrow> i64" where
  [simp]: "GetLatencyNano c = LatencyNano c"

definition GetConnectionID :: "'a baseConnection_scheme \<Rightarrow> u32" where
  [simp]: "GetConnectionID c = connectionID c"

definition GetRecvQueue :: "'a baseConnection_scheme \<Rightarrow> block chan" where
  [simp]: "GetRecvQueue c = recvQueue c"

definition GetOrderedRecvQueue :: "'a baseConnection_scheme \<Rightarrow> block chan" where
  [simp]: "GetOrderedRecvQueue c = orderedRecvQueue c"

definition GetSentBytes :: "'a baseConnection_scheme \<Rightarrow> u64" where
  [simp]: "GetSentBytes c = SentBytes c"

definition GetRecvBytes :: "'a baseConnection_scheme \<Rightarrow> u64" where
  [simp]: "GetRecvBytes c = RecvBytes c"

text \<open>\<open>Stop\<close> calls \<open>removeFromPool\<close>, the cancel function of the connection's context.\<close>
definition Stop :: "'a baseConnection_scheme \<Rightarrow> 'a baseConnection_scheme" where
  "Stop c = c\<lparr>ctxDone := True\<rparr>"

definition RecvBlock :: "block \<Rightarrow> 'a baseConnection_scheme \<Rightarrow> 'a baseConnection_scheme attempt" where
  "RecvBlock blk c =
     (case chan_send blk (recvQueue c) of
        Proceeds q \<Rightarrow> Proceeds (c\<lparr>recvQueue := q\<rparr>) | Waits \<Rightarrow> Waits | Panics \<Rightarrow> Panics)"

definition SendConnect :: "i64 \<Rightarrow> byte list \<Rightarrow> 'a baseConnection_scheme \<Rightarrow> 'a baseConnection_scheme" where
  "SendConnect now address c =
     (let (blk, p) = packConnect now address (connectionID c) (bproc c)
      in c\<lparr>bproc := p, sendq := sendq c @ [blk]\<rparr>)"

definition SendDisconnect :: "i64 \<Rightarrow> u8 \<Rightarrow> 'a baseConnection_scheme \<Rightarrow> 'a baseConnection_scheme" where
  "SendDisconnect now shutdownType c =
     (let (blk, p) = packDisconnect now (connectionID c) shutdownType (bproc c);
          c1 = c\<lparr>bproc := p, sendq := sendq c @ [blk]\<rparr>
      in if shutdownType = ShutdownBoth then Stop c1 else c1)"

definition sendData :: "(nat \<Rightarrow> i64) \<Rightarrow> byte list \<Rightarrow> 'a baseConnection_scheme \<Rightarrow> 'a baseConnection_scheme" where
  "sendData now dat c =
     (let (bs, p) = packData now dat (connectionID c) (bproc c)
      in c\<lparr>bproc := p, sendq := sendq c @ bs\<rparr>)"

section \<open>What a connection sends\<close>

text \<open>
  The send invariant: the blocks a connection has sent carry its own ID and consecutive block IDs
  from zero, and the next ID to use is the number of blocks sent (modulo 2^32). Keep-alive blocks
  belong to tunnels; a connection sends none.
\<close>
definition sent_numbered :: "'a baseConnection_scheme \<Rightarrow> bool" where
  "sent_numbered c \<longleftrightarrow>
     map BlockID (sendq c) = map of_nat [0..<length (sendq c)]
   \<and> sendBlockID (bproc c) = of_nat (length (sendq c))
   \<and> (\<forall>b\<in>set (sendq c). ConnectionID b = connectionID c \<and> wf_block b
        \<and> Type b \<noteq> TypePing \<and> Type b \<noteq> TypePong)"

text \<open>The bytes carried by a sequence of blocks.\<close>
definition payload :: "block list \<Rightarrow> byte list" where
  "payload bs = concat (map (\<lambda>b. if Type b = TypeData then BlockData b else []) bs)"

lemma payload_simps [simp]:
  "payload [] = []"
  "payload (b # bs) = (if Type b = TypeData then BlockData b else []) @ payload bs"
  "payload (bs @ cs) = payload bs @ payload cs"
  by (simp_all add: payload_def)

lemma payload_data:
  "list_all (\<lambda>b. Type b = TypeData \<and> P b) bs \<Longrightarrow> payload bs = concat (map BlockData bs)"
  by (induction bs) auto

lemma map_ids_append:
  "map of_nat [0..<n] @ map (\<lambda>i. of_nat n + of_nat i) [0..<m] = (map of_nat [0..<n + m] :: 'a::semiring_1 list)"
  by (induction m) simp_all

lemma sent_numbered_frame [simp]:
  "sent_numbered (c\<lparr>ctxDone := b\<rparr>) = sent_numbered c" "sent_numbered (c\<lparr>closed := b\<rparr>) = sent_numbered c"
  "sent_numbered (c\<lparr>RecvBytes := n\<rparr>) = sent_numbered c" "sent_numbered (c\<lparr>SentBytes := n\<rparr>) = sent_numbered c"
  "sent_numbered (c\<lparr>recvQueue := q\<rparr>) = sent_numbered c" "sent_numbered (c\<lparr>orderedRecvQueue := q\<rparr>) = sent_numbered c"
  by (simp_all add: sent_numbered_def)

lemma sent_numbered_one:
  assumes "sent_numbered c" "BlockID b = sendBlockID (bproc c)" "ConnectionID b = connectionID c" "wf_block b"
    and "Type b \<noteq> TypePing" "Type b \<noteq> TypePong"
    and "sendq c' = sendq c @ [b]" "sendBlockID (bproc c') = sendBlockID (bproc c) + 1"
    and "connectionID c' = connectionID c"
  shows "sent_numbered c'"
  using assms by (auto simp: sent_numbered_def)

lemma SendConnect_numbered [inv_intros]:
  "sent_numbered c \<Longrightarrow> length address < 2 ^ 32 \<Longrightarrow> sent_numbered (SendConnect now address c)"
  by (rule sent_numbered_one [where c = c and b = "NewConnectBlock now (connectionID c) (sendBlockID (bproc c)) address"])
    (simp_all add: SendConnect_def packConnect_def wf_NewConnectBlock, simp_all add: NewConnectBlock_def)

lemma SendDisconnect_numbered [inv_intros]:
  "sent_numbered c \<Longrightarrow> sent_numbered (SendDisconnect now k c)"
  by (rule sent_numbered_one [where c = c and b = "NewDisconnectBlock now (connectionID c) (sendBlockID (bproc c)) k"])
    (simp_all add: SendDisconnect_def packDisconnect_def Stop_def Let_def wf_NewDisconnectBlock,
     simp_all add: NewDisconnectBlock_def)

lemma sendData_blocks:
  obtains bs where "sendq (sendData now dat c) = sendq c @ bs"
    and "data_blocks_for (connectionID c) (sendBlockID (bproc c)) dat bs"
    and "sendData now dat c = c\<lparr>bproc := (bproc c)\<lparr>sendBlockID := sendBlockID (bproc c) + of_nat (length bs)\<rparr>,
           sendq := sendq c @ bs\<rparr>"
proof -
  obtain bs n where nd: "NewDataBlocks now (connectionID c) (sendBlockID (bproc c)) dat = (bs, n)"
    by fastforce
  then have "data_blocks_for (connectionID c) (sendBlockID (bproc c)) dat bs"
    and "n = sendBlockID (bproc c) + of_nat (length bs)"
    by (simp_all add: NewDataBlocks_blocks)
  with nd show thesis
    by (intro that [of bs]) (simp_all add: sendData_def packData_def)
qed

lemma sendData_numbered [inv_intros]:
  assumes "sent_numbered c"
  shows "sent_numbered (sendData now dat c)"
proof (rule sendData_blocks [of now dat c])
  fix bs
  assume d: "data_blocks_for (connectionID c) (sendBlockID (bproc c)) dat bs"
    and eq: "sendData now dat c = c\<lparr>bproc := (bproc c)\<lparr>sendBlockID := sendBlockID (bproc c) + of_nat (length bs)\<rparr>,
           sendq := sendq c @ bs\<rparr>"
  show ?thesis
    using assms d unfolding eq
    by (auto simp: sent_numbered_def data_blocks_for_def map_ids_append list_all_iff)
qed

lemma sendData_payload: "payload (sendq (sendData now dat c)) = payload (sendq c) @ dat"
proof (rule sendData_blocks [of now dat c])
  fix bs
  assume "sendq (sendData now dat c) = sendq c @ bs"
    and "data_blocks_for (connectionID c) (sendBlockID (bproc c)) dat bs"
  then show ?thesis
    using payload_data [of _ bs] by (auto simp: data_blocks_for_def)
qed

lemma sendData_frame [simp]:
  "connectionID (sendData now dat c) = connectionID c" "closed (sendData now dat c) = closed c"
  "recvQueue (sendData now dat c) = recvQueue c" "ctxDone (sendData now dat c) = ctxDone c"
  "orderedRecvQueue (sendData now dat c) = orderedRecvQueue c"
  "SentBytes (sendData now dat c) = SentBytes c" "RecvBytes (sendData now dat c) = RecvBytes c"
  by (simp_all add: sendData_def Let_def split: prod.split)

text \<open>Both ends index the data of a disconnect block, so an empty one makes them panic.\<close>
definition no_empty_disconnect :: "block list \<Rightarrow> bool" where
  "no_empty_disconnect bs \<longleftrightarrow> (\<forall>b\<in>set bs. Type b = TypeDisconnect \<longrightarrow> BlockData b \<noteq> [])"

lemma no_empty_disconnect_simps [simp]:
  "no_empty_disconnect []" "no_empty_disconnect (bs @ cs) \<longleftrightarrow> no_empty_disconnect bs \<and> no_empty_disconnect cs"
  "no_empty_disconnect (b # bs) \<longleftrightarrow> (Type b = TypeDisconnect \<longrightarrow> BlockData b \<noteq> []) \<and> no_empty_disconnect bs"
  by (auto simp: no_empty_disconnect_def)

lemma BlockData_NewDisconnectBlock [simp]: "BlockData (NewDisconnectBlock now cid bid k) = [k]"
  by (simp add: NewDisconnectBlock_def)

lemma no_empty_disconnect_data: "data_blocks_for cid bid dat bs \<Longrightarrow> no_empty_disconnect bs"
  by (auto simp: no_empty_disconnect_def data_blocks_for_def list_all_iff)

end
