(* ===== verification/Inbound.thy ===== *)
theory Inbound
  imports Connection
begin

text \<open>
  The connection that the local application uses, \<open>connection/inbound_connection.go\<close>. A \<open>Read\<close>
  works on the state of the ordered queue at the call. \<open>fire k\<close> says that the \<open>k\<close>-th \<open>select\<close>
  of the call takes its \<open>readCtx.Done()\<close> case. The loops of \<open>Read\<close> have fuel: \<open>None\<close> means that
  the call has not returned within it; \<open>Read_returns\<close> shows how much is enough, and
  \<open>Read_after_Close_hangs\<close> that no amount is after \<open>Close\<close>.
\<close>

section \<open>State and operations\<close>

text \<open>The read context is the connection's own one until a deadline replaces it.\<close>
datatype ctx = ConnCtx | DeadlineCtx i64

record InboundConnection = baseConnection +
  dataBuffer :: ByteRingBuffer
  writeCtx :: ctx
  readCtx :: ctx
  readClosed :: bool
  writeClosed :: bool
  inLastActivity :: i64

definition NewInboundConnection :: "conn_config \<Rightarrow> i64 \<Rightarrow> u32 \<Rightarrow> InboundConnection" where
  "NewInboundConnection cfg now connID =
     \<lparr>bproc = newBlockProcessor, connectionID = connID, closed = False, sendq = [],
      recvQueue = make_chan (RecvQueueSize cfg), orderedRecvQueue = make_chan (OrderedRecvQueueSize cfg),
      LastActivity = 0, LatencyNano = 0, SentBytes = 0, RecvBytes = 0, ctxDone = False,
      dataBuffer = NewByteRingBuffer MaxSize, writeCtx = ConnCtx, readCtx = ConnCtx,
      readClosed = False, writeClosed = False, inLastActivity = now\<rparr>"

definition in_SetLastActive :: "i64 \<Rightarrow> InboundConnection \<Rightarrow> InboundConnection" where
  "in_SetLastActive now c = c\<lparr>inLastActivity := now\<rparr>"

definition in_GetLastActive :: "InboundConnection \<Rightarrow> i64" where
  [simp]: "in_GetLastActive c = inLastActivity c"

text \<open>
  \<open>readBlock\<close> on a destination of \<open>len\<close> bytes of which the first ones already hold \<open>acc\<close>
  (\<open>readN = length acc\<close>). Indexing the empty data of a disconnect block panics.
\<close>
definition readBlock ::
  "i64 \<Rightarrow> block \<Rightarrow> nat \<Rightarrow> byte list \<Rightarrow> InboundConnection \<Rightarrow> (InboundConnection \<times> byte list \<times> go_error option) outcome" where
  "readBlock now blk len acc c0 =
     (let c = in_SetLastActive now c0 in
      if Type blk = TypeDisconnect
      then (case BlockData blk of
              [] \<Rightarrow> Panic
            | k # _ \<Rightarrow>
                if k = ShutdownBoth then Ret (c\<lparr>closed := True\<rparr>, acc, Some EOF)
                else if k = ShutdownWrite then Ret (c\<lparr>readClosed := True\<rparr>, acc, Some EOF)
                else if k = ShutdownRead then Ret (c\<lparr>writeClosed := True\<rparr>, acc, None)
                else Ret (c, acc, None))
      else if Type blk = TypeData
      then (let dst = len - length acc in
            if dst < length (BlockData blk)
            then (let (xs, rb) = rb_Read dst (OverWrite (BlockData blk) (dataBuffer c))
                  in Ret (c\<lparr>dataBuffer := rb, RecvBytes := RecvBytes c + of_nat (length xs)\<rparr>, acc @ xs, None))
            else Ret (c\<lparr>RecvBytes := RecvBytes c + of_nat (length (BlockData blk))\<rparr>, acc @ BlockData blk, None))
      else Ret (c, acc, None))"

text \<open>A receive from the ordered queue that is ready; a closed and drained queue yields zero blocks.\<close>
definition recv_ordered :: "InboundConnection \<Rightarrow> (block \<times> InboundConnection) option" where
  "recv_ordered c =
     (case chan_recv (orderedRecvQueue c) of
        Received blk q \<Rightarrow> Some (blk, c\<lparr>orderedRecvQueue := q\<rparr>)
      | RecvClosed \<Rightarrow> Some (zero_block, c)
      | RecvBlocks \<Rightarrow> None)"

datatype read_result =
    ReadReturns (read_bytes: "byte list") (read_err: "go_error option") (read_conn: InboundConnection)
  | ReadBlocked
  | ReadPanics

text \<open>The loop of a closed connection: take what is left in the queue.\<close>
fun Read_rest :: "nat \<Rightarrow> i64 \<Rightarrow> nat \<Rightarrow> byte list \<Rightarrow> InboundConnection \<Rightarrow> read_result option" where
  "Read_rest 0 now len acc c = None"
| "Read_rest (Suc fuel) now len acc c =
     (case recv_ordered c of
        None \<Rightarrow> Some (if acc \<noteq> [] then ReadReturns acc None c else ReadReturns [] (Some EOF) c)
      | Some (blk, c1) \<Rightarrow>
          (case readBlock now blk len acc c1 of
             Panic \<Rightarrow> Some ReadPanics
           | Ret (c2, acc2, _) \<Rightarrow>
               if length acc2 = len then Some (ReadReturns acc2 None c2)
               else Read_rest fuel now len acc2 c2))"

text \<open>The last loop: read on without waiting. Both other cases of the select return.\<close>
fun Read_more :: "nat \<Rightarrow> (nat \<Rightarrow> bool) \<Rightarrow> nat \<Rightarrow> i64 \<Rightarrow> nat \<Rightarrow> byte list \<Rightarrow> InboundConnection \<Rightarrow> read_result option" where
  "Read_more 0 fire k now len acc c = None"
| "Read_more (Suc fuel) fire k now len acc c =
     (if fire k then Some (ReadReturns acc None c)
      else case recv_ordered c of
        None \<Rightarrow> Some (ReadReturns acc None c)
      | Some (blk, c1) \<Rightarrow>
          (case readBlock now blk len acc c1 of
             Panic \<Rightarrow> Some ReadPanics
           | Ret (c2, acc2, err) \<Rightarrow>
               if err = Some EOF \<or> length acc2 = len then Some (ReadReturns acc2 None c2)
               else Read_more fuel fire (Suc k) now len acc2 c2))"

text \<open>The part of \<open>Read\<close> after the buffer has been emptied into the destination.\<close>
definition Read_queue :: "nat \<Rightarrow> (nat \<Rightarrow> bool) \<Rightarrow> i64 \<Rightarrow> nat \<Rightarrow> byte list \<Rightarrow> InboundConnection \<Rightarrow> read_result option" where
  "Read_queue fuel fire now len acc c =
     (if closed c \<or> readClosed c then Read_rest fuel now len acc c
      else if acc = []
      then (if fire 0 then Some (ReadReturns [] (Some EOF) c)
            else case recv_ordered c of
              None \<Rightarrow> Some ReadBlocked
            | Some (blk, c1) \<Rightarrow>
                (case readBlock now blk len acc c1 of
                   Panic \<Rightarrow> Some ReadPanics
                 | Ret (c2, acc2, err) \<Rightarrow>
                     if err = Some EOF \<or> length acc2 = len
                     then Some (if acc2 \<noteq> [] then ReadReturns acc2 None c2 else ReadReturns [] err c2)
                     else Read_more fuel fire 1 now len acc2 c2))
      else Read_more fuel fire 1 now len acc c)"

definition Read :: "nat \<Rightarrow> (nat \<Rightarrow> bool) \<Rightarrow> i64 \<Rightarrow> nat \<Rightarrow> InboundConnection \<Rightarrow> read_result option" where
  "Read fuel fire now len c =
     (if \<not> rb_Empty (dataBuffer c)
      then (let (acc, rb) = rb_Read len (dataBuffer c)
            in if length acc = len then Some (ReadReturns acc None (c\<lparr>dataBuffer := rb\<rparr>))
               else Read_queue fuel fire now len acc (c\<lparr>dataBuffer := rb\<rparr>))
      else Read_queue fuel fire now len [] c)"

definition Write :: "(nat \<Rightarrow> i64) \<Rightarrow> byte list \<Rightarrow> InboundConnection \<Rightarrow> (nat \<times> go_error option) \<times> InboundConnection" where
  "Write now b c =
     (if writeClosed c \<or> closed c then ((0, Some EINVAL), c)
      else (let c1 = sendData now b c
            in ((length b, None), c1\<lparr>SentBytes := SentBytes c1 + of_nat (length b)\<rparr>)))"

definition Close :: "i64 \<Rightarrow> InboundConnection \<Rightarrow> InboundConnection outcome" where
  "Close now c =
     (if \<not> closed c
      then (let c1 = SendDisconnect now ShutdownBoth (c\<lparr>closed := True\<rparr>)
            in case chan_close (recvQueue c1) of
                 Panic \<Rightarrow> Panic
               | Ret rq \<Rightarrow>
                   (case chan_close (orderedRecvQueue c1) of
                      Panic \<Rightarrow> Panic
                    | Ret oq \<Rightarrow> Ret (Stop (c1\<lparr>recvQueue := rq, orderedRecvQueue := oq\<rparr>))))
      else Ret (Stop c))"

definition CloseRead :: "i64 \<Rightarrow> InboundConnection \<Rightarrow> InboundConnection" where
  "CloseRead now c = SendDisconnect now ShutdownRead c"

definition CloseWrite :: "i64 \<Rightarrow> InboundConnection \<Rightarrow> InboundConnection" where
  "CloseWrite now c = SendDisconnect now ShutdownWrite c"

definition SetReadDeadline :: "i64 \<Rightarrow> InboundConnection \<Rightarrow> InboundConnection" where
  "SetReadDeadline t c = c\<lparr>readCtx := DeadlineCtx t\<rparr>"

definition SetWriteDeadline :: "i64 \<Rightarrow> InboundConnection \<Rightarrow> InboundConnection" where
  "SetWriteDeadline t c = c\<lparr>writeCtx := DeadlineCtx t\<rparr>"

definition SetDeadline :: "i64 \<Rightarrow> InboundConnection \<Rightarrow> InboundConnection" where
  "SetDeadline t c = SetWriteDeadline t (SetReadDeadline t c)"

section \<open>The byte stream behind the reads\<close>

text \<open>The bytes the application has still to read: buffered first, then queued.\<close>
definition unread :: "InboundConnection \<Rightarrow> byte list" where
  "unread c = rb_contents (dataBuffer c) @ payload (chq (orderedRecvQueue c))"

lemma recv_ordered_SomeD:
  assumes "recv_ordered c = Some (blk, c1)"
  shows "dataBuffer c1 = dataBuffer c" "RecvBytes c1 = RecvBytes c"
    "payload (chq (orderedRecvQueue c)) = payload [blk] @ payload (chq (orderedRecvQueue c1))"
    "chclosed (orderedRecvQueue c1) = chclosed (orderedRecvQueue c)"
    "\<not> chclosed (orderedRecvQueue c) \<Longrightarrow>
       chq (orderedRecvQueue c) = blk # chq (orderedRecvQueue c1)"
    "no_empty_disconnect (chq (orderedRecvQueue c)) \<Longrightarrow>
       (Type blk = TypeDisconnect \<longrightarrow> BlockData blk \<noteq> []) \<and> no_empty_disconnect (chq (orderedRecvQueue c1))"
  using assms
  by (auto simp: recv_ordered_def chan_recv_def zero_block_def no_empty_disconnect_def
      split: list.splits if_splits)

text \<open>
  One block read into the destination: the buffered remainder and the delivered bytes are the
  block's payload, and something is left over only when the destination is full.
\<close>
lemma readBlock_RetD:
  assumes "readBlock now blk len acc c = Ret (c', acc', err)"
    and "length acc \<le> len" "rb_invar (dataBuffer c)" "rb_contents (dataBuffer c) = []"
  shows "acc @ payload [blk] = acc' @ rb_contents (dataBuffer c')"
    "rb_invar (dataBuffer c')" "length acc' \<le> len"
    "length acc' < len \<Longrightarrow> rb_contents (dataBuffer c') = []"
    "orderedRecvQueue c' = orderedRecvQueue c"
    "RecvBytes c' + of_nat (length acc) = RecvBytes c + of_nat (length acc')"
    "acc' = [] \<Longrightarrow> acc = []"
proof -
  have "acc @ payload [blk] = acc' @ rb_contents (dataBuffer c') \<and> rb_invar (dataBuffer c')
    \<and> length acc' \<le> len \<and> (length acc' < len \<longrightarrow> rb_contents (dataBuffer c') = [])
    \<and> orderedRecvQueue c' = orderedRecvQueue c
    \<and> RecvBytes c' + of_nat (length acc) = RecvBytes c + of_nat (length acc') \<and> (acc' = [] \<longrightarrow> acc = [])"
  proof (cases "Type blk = TypeData \<and> len - length acc < length (BlockData blk)")
    case True
    obtain xs rb where r: "rb_Read (len - length acc) (OverWrite (BlockData blk) (dataBuffer c)) = (xs, rb)"
      by fastforce
    have "xs = take (len - length acc) (BlockData blk)" "rb_contents rb = drop (len - length acc) (BlockData blk)"
      "rb_invar rb"
      using ring.rd_bytes [OF OverWrite_invar] ring.rd_contents [OF OverWrite_invar]
        ring.rd_invar [OF OverWrite_invar] r by (metis OverWrite_contents fst_conv snd_conv)+
    moreover have "c' = (in_SetLastActive now c)\<lparr>dataBuffer := rb, RecvBytes := RecvBytes c + of_nat (length xs)\<rparr>"
      and "acc' = acc @ xs"
      using assms(1) True r by (auto simp: readBlock_def Let_def in_SetLastActive_def)
    ultimately show ?thesis
      using True assms(2) by (simp add: in_SetLastActive_def)
  next
    case False
    then show ?thesis
      using assms by (auto simp: readBlock_def Let_def in_SetLastActive_def split: if_splits list.splits)
  qed
  then show "acc @ payload [blk] = acc' @ rb_contents (dataBuffer c')"
    "rb_invar (dataBuffer c')" "length acc' \<le> len"
    "length acc' < len \<Longrightarrow> rb_contents (dataBuffer c') = []"
    "orderedRecvQueue c' = orderedRecvQueue c"
    "RecvBytes c' + of_nat (length acc) = RecvBytes c + of_nat (length acc')"
    "acc' = [] \<Longrightarrow> acc = []"
    by blast+
qed

text \<open>What a read that started with \<open>acc\<close> already in the destination may return.\<close>
definition read_ok :: "byte list \<Rightarrow> nat \<Rightarrow> InboundConnection \<Rightarrow> read_result \<Rightarrow> bool" where
  "read_ok acc len c r \<longleftrightarrow>
     (case r of
        ReadReturns xs err c' \<Rightarrow>
          acc @ unread c = xs @ unread c' \<and> length xs \<le> len \<and> rb_invar (dataBuffer c')
        \<and> RecvBytes c' + of_nat (length acc) = RecvBytes c + of_nat (length xs)
        \<and> (err = None \<or> err = Some EOF \<and> xs = [])
      | _ \<Rightarrow> True)"

lemma read_ok_trivial [simp]: "read_ok acc len c ReadBlocked" "read_ok acc len c ReadPanics"
  by (simp_all add: read_ok_def)

lemma read_ok_here:
  "length acc \<le> len \<Longrightarrow> rb_invar (dataBuffer c) \<Longrightarrow> err = None \<or> err = Some EOF \<and> acc = [] \<Longrightarrow>
   read_ok acc len c (ReadReturns acc err c)"
  by (auto simp: read_ok_def)

lemma read_ok_step:
  assumes rc: "recv_ordered c = Some (blk, c1)" and rb: "readBlock now blk len acc c1 = Ret (c2, acc2, err)"
    and inv: "length acc \<le> len" "rb_invar (dataBuffer c)" "rb_contents (dataBuffer c) = []"
    and rest: "read_ok acc2 len c2 r"
  shows "read_ok acc len c r"
proof -
  note R = recv_ordered_SomeD [OF rc]
  note B = readBlock_RetD [OF rb inv(1) inv(2,3) [folded R(1)]]
  have "acc @ unread c = acc2 @ unread c2"
    using R(3) B(1) inv(3) by (simp add: unread_def B(5))
  moreover have "RecvBytes c2 + of_nat (length acc) = RecvBytes c + of_nat (length acc2)"
    using B(6) by (simp add: R(2))
  moreover have "RecvBytes c' + of_nat (length acc) = RecvBytes c + of_nat (length xs)"
    if "RecvBytes c' + of_nat (length acc2) = RecvBytes c2 + of_nat (length xs)" for xs :: "byte list" and c' :: InboundConnection
    using calculation(2) that by (rule telescope_add)
  ultimately show ?thesis
    using rest by (simp add: read_ok_def split: read_result.splits)
qed

lemma readBlock_keeps:
  assumes "recv_ordered c = Some (blk, c1)" "readBlock now blk len acc c1 = Ret (c2, acc2, err)"
    and "length acc \<le> len" "rb_invar (dataBuffer c)" "rb_contents (dataBuffer c) = []"
  shows "length acc2 \<le> len" "rb_invar (dataBuffer c2)"
    "length acc2 \<noteq> len \<Longrightarrow> rb_contents (dataBuffer c2) = []"
  using readBlock_RetD [OF assms(2,3)] recv_ordered_SomeD(1) [OF assms(1)] assms(4,5) by auto

lemma Read_rest_ok:
  assumes "Read_rest fuel now len acc c = Some r"
    and "length acc \<le> len" "rb_invar (dataBuffer c)" "rb_contents (dataBuffer c) = []"
  shows "read_ok acc len c r"
  using assms
proof (induction fuel now len acc c rule: Read_rest.induct)
  case (2 fuel now len acc c)
  show ?case
  proof (cases "recv_ordered c")
    case None
    with "2.prems" show ?thesis by (auto intro!: read_ok_here split: if_splits)
  next
    case (Some p)
    then obtain blk c1 where rc: "recv_ordered c = Some (blk, c1)" by (cases p) auto
    show ?thesis
    proof (cases "readBlock now blk len acc c1")
      case Panic
      with "2.prems" rc show ?thesis by (auto simp: read_ok_def)
    next
      case (Ret q)
      then obtain c2 acc2 err where rb: "readBlock now blk len acc c1 = Ret (c2, acc2, err)"
        by (cases q) auto
      note K = readBlock_keeps [OF rc rb "2.prems"(2-4)]
      have "read_ok acc2 len c2 r"
      proof (cases "length acc2 = len")
        case True
        with "2.prems"(1) rc rb have "r = ReadReturns acc2 None c2" by simp
        with K show ?thesis by (auto intro: read_ok_here)
      next
        case False
        with "2.prems"(1) rc rb have "Read_rest fuel now len acc2 c2 = Some r" by simp
        from "2.IH" [OF rc refl rb refl refl False this K(1,2) K(3) [OF False]] show ?thesis .
      qed
      then show ?thesis by (rule read_ok_step [OF rc rb "2.prems"(2-4)])
    qed
  qed
qed simp

lemma Read_more_ok:
  assumes "Read_more fuel fire k now len acc c = Some r"
    and "length acc \<le> len" "rb_invar (dataBuffer c)" "rb_contents (dataBuffer c) = []"
  shows "read_ok acc len c r"
  using assms
proof (induction fuel fire k now len acc c rule: Read_more.induct)
  case (2 fuel fire k now len acc c)
  show ?case
  proof (cases "fire k \<or> recv_ordered c = None")
    case True
    with "2.prems" show ?thesis by (auto intro!: read_ok_here split: if_splits)
  next
    case False
    then obtain blk c1 where nf: "\<not> fire k" and rc: "recv_ordered c = Some (blk, c1)" by auto
    show ?thesis
    proof (cases "readBlock now blk len acc c1")
      case Panic
      with "2.prems" nf rc show ?thesis by (auto simp: read_ok_def)
    next
      case (Ret q)
      then obtain c2 acc2 err where rb: "readBlock now blk len acc c1 = Ret (c2, acc2, err)"
        by (cases q) auto
      note K = readBlock_keeps [OF rc rb "2.prems"(2-4)]
      have "read_ok acc2 len c2 r"
      proof (cases "err = Some EOF \<or> length acc2 = len")
        case True
        with "2.prems"(1) nf rc rb have "r = ReadReturns acc2 None c2" by simp
        with K show ?thesis by (auto intro: read_ok_here)
      next
        case False
        with "2.prems"(1) nf rc rb have "Read_more fuel fire (Suc k) now len acc2 c2 = Some r" by simp
        from "2.IH" [OF nf rc refl rb refl refl False this K(1,2)] K(3) False show ?thesis by blast
      qed
      then show ?thesis by (rule read_ok_step [OF rc rb "2.prems"(2-4)])
    qed
  qed
qed simp

text \<open>
  The whole call. The bytes taken from the buffer at the start are not counted in \<open>RecvBytes\<close>.
\<close>
definition from_buffer :: "nat \<Rightarrow> InboundConnection \<Rightarrow> byte list" where
  "from_buffer len c = take len (rb_contents (dataBuffer c))"

lemma readBlock_err:
  "readBlock now blk len acc c = Ret (c', acc', err) \<Longrightarrow> err = None \<or> err = Some EOF"
  by (auto simp: readBlock_def Let_def split: if_splits list.splits prod.splits)

lemma Read_queue_ok:
  assumes q: "Read_queue fuel fire now len acc c = Some r"
    and inv: "length acc \<le> len" "rb_invar (dataBuffer c)" "rb_contents (dataBuffer c) = []"
  shows "read_ok acc len c r"
proof (cases "closed c \<or> readClosed c \<or> acc \<noteq> []")
  case True
  with q have "Read_rest fuel now len acc c = Some r \<or> Read_more fuel fire 1 now len acc c = Some r"
    by (auto simp: Read_queue_def split: if_splits)
  with inv show ?thesis by (blast intro: Read_rest_ok Read_more_ok)
next
  case wait: False
  show ?thesis
  proof (cases "fire 0 \<or> recv_ordered c = None")
    case True
    with q wait inv show ?thesis by (auto simp: Read_queue_def intro!: read_ok_here split: if_splits)
  next
    case False
    then obtain blk c2 where rc: "recv_ordered c = Some (blk, c2)" and nf: "\<not> fire 0" by auto
    show ?thesis
    proof (cases "readBlock now blk len acc c2")
      case Panic
      with q wait rc nf show ?thesis by (auto simp: Read_queue_def)
    next
      case (Ret q')
      then obtain c3 acc3 err where rb: "readBlock now blk len acc c2 = Ret (c3, acc3, err)"
        by (cases q') auto
      note K = readBlock_keeps [OF rc rb inv]
      have "read_ok acc3 len c3 r"
      proof (cases "err = Some EOF \<or> length acc3 = len")
        case True
        with q wait rc nf rb have "r = (if acc3 \<noteq> [] then ReadReturns acc3 None c3 else ReadReturns [] err c3)"
          by (simp add: Read_queue_def)
        with K readBlock_err [OF rb] show ?thesis by (auto intro!: read_ok_here split: if_splits)
      next
        case F: False
        with q wait rc nf rb have "Read_more fuel fire 1 now len acc3 c3 = Some r"
          by (simp add: Read_queue_def)
        with K F show ?thesis by (auto intro: Read_more_ok)
      qed
      then show ?thesis by (rule read_ok_step [OF rc rb inv])
    qed
  qed
qed

lemma Read_ok:
  assumes "Read fuel fire now len c = Some r" "rb_invar (dataBuffer c)"
  shows "\<exists>c1. RecvBytes c1 = RecvBytes c \<and> unread c = from_buffer len c @ unread c1
    \<and> read_ok (from_buffer len c) len c1 r"
proof (cases "rb_Empty (dataBuffer c)")
  case True
  then have "rb_contents (dataBuffer c) = []" using rb_Empty_contents [OF assms(2)] by simp
  with True assms show ?thesis
    by (auto simp: Read_def from_buffer_def intro!: Read_queue_ok exI [of _ c])
next
  case False
  obtain acc rb where r: "rb_Read len (dataBuffer c) = (acc, rb)" by fastforce
  then have acc: "acc = from_buffer len c" and rb: "rb_contents rb = drop len (rb_contents (dataBuffer c))"
    "rb_invar rb"
    using ring.rd_bytes [OF assms(2), of len] ring.rd_contents [OF assms(2), of len]
      ring.rd_invar [OF assms(2), of len] by (simp_all add: from_buffer_def)
  have le: "length acc \<le> len" by (simp add: acc from_buffer_def)
  have "read_ok acc len (c\<lparr>dataBuffer := rb\<rparr>) r"
  proof (cases "length acc = len")
    case True
    with assms(1) False r have "r = ReadReturns acc None (c\<lparr>dataBuffer := rb\<rparr>)" by (simp add: Read_def)
    with le rb show ?thesis by (auto intro: read_ok_here)
  next
    case ne: False
    then have "rb_contents rb = []" by (auto simp: rb(1) acc from_buffer_def)
    moreover have "Read_queue fuel fire now len acc (c\<lparr>dataBuffer := rb\<rparr>) = Some r"
      using assms(1) False ne r by (simp add: Read_def)
    ultimately show ?thesis using le rb(2) by (intro Read_queue_ok) simp_all
  qed
  moreover have "unread c = acc @ unread (c\<lparr>dataBuffer := rb\<rparr>)"
    by (simp add: unread_def acc from_buffer_def rb(1))
  ultimately show ?thesis
    by (intro exI [of _ "c\<lparr>dataBuffer := rb\<rparr>"]) (simp add: acc)
qed

lemma Read_rest_returns:
  assumes "\<not> chclosed (orderedRecvQueue c)" "length (chq (orderedRecvQueue c)) < fuel"
    and "length acc \<le> len" "rb_invar (dataBuffer c)" "rb_contents (dataBuffer c) = []"
  shows "\<exists>r. Read_rest fuel now len acc c = Some r"
  using assms
proof (induction fuel now len acc c rule: Read_rest.induct)
  case (2 fuel now len acc c)
  show ?case
  proof (cases "recv_ordered c")
    case (Some p)
    then obtain blk c1 where rc: "recv_ordered c = Some (blk, c1)" by (cases p) auto
    note R = recv_ordered_SomeD [OF rc]
    show ?thesis
    proof (cases "readBlock now blk len acc c1")
      case (Ret q)
      then obtain c2 acc2 err where rb: "readBlock now blk len acc c1 = Ret (c2, acc2, err)"
        by (cases q) auto
      note K = readBlock_keeps [OF rc rb "2.prems"(3-5)]
      have oq: "orderedRecvQueue c2 = orderedRecvQueue c1"
        using readBlock_RetD(5) [OF rb "2.prems"(3)] R(1) "2.prems"(4,5) by simp
      have "length acc2 \<noteq> len \<Longrightarrow> \<exists>r. Read_rest fuel now len acc2 c2 = Some r"
        using "2.IH" [OF rc refl rb refl refl _ _ _ K(1,2)] K(3) "2.prems"(1,2) R(4,5) oq by simp
      with rc rb show ?thesis by auto
    qed (use rc in simp)
  qed simp
qed simp

lemma Read_more_returns:
  assumes "\<not> chclosed (orderedRecvQueue c)" "length (chq (orderedRecvQueue c)) < fuel"
    and "length acc \<le> len" "rb_invar (dataBuffer c)" "rb_contents (dataBuffer c) = []"
  shows "\<exists>r. Read_more fuel fire k now len acc c = Some r"
  using assms
proof (induction fuel fire k now len acc c rule: Read_more.induct)
  case (2 fuel fire k now len acc c)
  show ?case
  proof (cases "fire k \<or> recv_ordered c = None")
    case False
    then obtain blk c1 where nf: "\<not> fire k" and rc: "recv_ordered c = Some (blk, c1)" by auto
    note R = recv_ordered_SomeD [OF rc]
    show ?thesis
    proof (cases "readBlock now blk len acc c1")
      case (Ret q)
      then obtain c2 acc2 err where rb: "readBlock now blk len acc c1 = Ret (c2, acc2, err)"
        by (cases q) auto
      note K = readBlock_keeps [OF rc rb "2.prems"(3-5)]
      have oq: "orderedRecvQueue c2 = orderedRecvQueue c1"
        using readBlock_RetD(5) [OF rb "2.prems"(3)] R(1) "2.prems"(4,5) by simp
      have "\<not> (err = Some EOF \<or> length acc2 = len) \<Longrightarrow>
          \<exists>r. Read_more fuel fire (Suc k) now len acc2 c2 = Some r"
        using "2.IH" [OF nf rc refl rb refl refl _ _ _ K(1,2)] K(3) "2.prems"(1,2) R(4,5) oq by simp
      with nf rc rb show ?thesis by auto
    qed (use rc nf in simp)
  qed auto
qed simp

lemma Read_queue_returns:
  assumes q: "\<not> chclosed (orderedRecvQueue c)" "length (chq (orderedRecvQueue c)) < fuel"
    and inv: "length acc \<le> len" "rb_invar (dataBuffer c)" "rb_contents (dataBuffer c) = []"
  shows "\<exists>r. Read_queue fuel fire now len acc c = Some r"
proof (cases "closed c \<or> readClosed c \<or> acc \<noteq> []")
  case True
  then show ?thesis
    using Read_rest_returns [OF q inv] Read_more_returns [OF q inv] by (auto simp: Read_queue_def)
next
  case wait: False
  show ?thesis
  proof (cases "fire 0 \<or> recv_ordered c = None")
    case False
    then obtain blk c1 where rc: "recv_ordered c = Some (blk, c1)" by auto
    note R = recv_ordered_SomeD [OF rc]
    show ?thesis
    proof (cases "readBlock now blk len acc c1")
      case (Ret p)
      then obtain c2 acc2 err where rb: "readBlock now blk len acc c1 = Ret (c2, acc2, err)"
        by (cases p) auto
      note K = readBlock_keeps [OF rc rb inv]
      have "orderedRecvQueue c2 = orderedRecvQueue c1"
        using readBlock_RetD(5) [OF rb inv(1)] R(1) inv(2,3) by simp
      then have "length acc2 \<noteq> len \<Longrightarrow> \<exists>r. Read_more fuel fire 1 now len acc2 c2 = Some r"
        using Read_more_returns [OF _ _ K(1,2)] K(3) q R(4,5) by simp
      with wait False rc rb show ?thesis by (auto simp: Read_queue_def)
    qed (use wait False rc in \<open>simp add: Read_queue_def\<close>)
  qed (use wait in \<open>auto simp: Read_queue_def\<close>)
qed

text \<open>With a closed queue and too few bytes left the loop of a closed connection never ends.\<close>
lemma Read_rest_hangs:
  assumes "chclosed (orderedRecvQueue c)" "no_empty_disconnect (chq (orderedRecvQueue c))"
    and "length acc + length (payload (chq (orderedRecvQueue c))) < len"
    and "rb_invar (dataBuffer c)" "rb_contents (dataBuffer c) = []"
  shows "Read_rest fuel now len acc c = None"
  using assms
proof (induction fuel now len acc c rule: Read_rest.induct)
  case (2 fuel now len acc c)
  obtain blk c1 where rc: "recv_ordered c = Some (blk, c1)"
    using "2.prems"(1)
    by (cases "chq (orderedRecvQueue c)") (auto simp: recv_ordered_def chan_recv_def)
  note R = recv_ordered_SomeD [OF rc]
  have "readBlock now blk len acc c1 \<noteq> Panic"
    using R(6) "2.prems"(2) by (auto simp: readBlock_def Let_def split: list.splits prod.splits)
  then obtain c2 acc2 err where rb: "readBlock now blk len acc c1 = Ret (c2, acc2, err)"
    by (metis outcome.exhaust prod_cases3)
  have le: "length acc \<le> len" using "2.prems"(3) by simp
  note B = readBlock_RetD [OF rb le] and K = readBlock_keeps [OF rc rb le "2.prems"(4,5)]
  have "length (acc @ payload [blk]) = length acc2 + length (rb_contents (dataBuffer c2))"
    using B(1) R(1) "2.prems"(4,5) by (metis length_append)
  then have small: "length acc2 + length (payload (chq (orderedRecvQueue c1))) < len"
    using "2.prems"(3) R(3) by simp
  moreover have "orderedRecvQueue c2 = orderedRecvQueue c1" using B(5) R(1) "2.prems"(4,5) by simp
  ultimately have "Read_rest fuel now len acc2 c2 = None"
    using "2.IH" [OF rc refl rb refl refl] K R(4,6) "2.prems"(1,2) by simp
  with rc rb small show ?case by simp
qed simp

lemma Read_hangs:
  assumes "closed c" "chclosed (orderedRecvQueue c)" "rb_invar (dataBuffer c)"
    and "no_empty_disconnect (chq (orderedRecvQueue c))" "length (unread c) < len"
  shows "Read fuel fire now len c = None"
proof (cases "rb_Empty (dataBuffer c)")
  case True
  have "Read_rest fuel now len [] c = None"
    using True assms rb_Empty_contents [OF assms(3)] by (intro Read_rest_hangs) (simp_all add: unread_def)
  with True assms(1) show ?thesis by (simp add: Read_def Read_queue_def)
next
  case False
  obtain acc rb where r: "rb_Read len (dataBuffer c) = (acc, rb)" by fastforce
  then have acc: "acc = take len (rb_contents (dataBuffer c))"
    and rb: "rb_contents rb = drop len (rb_contents (dataBuffer c))" "rb_invar rb"
    using ring.rd_bytes [OF assms(3), of len] ring.rd_contents [OF assms(3), of len]
      ring.rd_invar [OF assms(3), of len] by simp_all
  have "Read_rest fuel now len acc (c\<lparr>dataBuffer := rb\<rparr>) = None"
    using assms rb acc by (intro Read_rest_hangs) (simp_all add: unread_def)
  moreover have "length acc \<noteq> len" using acc assms(5) by (simp add: unread_def)
  ultimately show ?thesis using False assms(1) r by (simp add: Read_def Read_queue_def)
qed

section \<open>Properties\<close>

text \<open>
  C12. Reads preserve the byte stream: what a call returns, followed by what is still unread
  afterwards, is what was unread before; it never returns more than the destination holds, and it
  reports end-of-file only together with zero bytes.
\<close>
theorem Read_stream:
  assumes "rb_invar (dataBuffer c)" and "Read fuel fire now len c = Some (ReadReturns xs err c')"
  shows "unread c = xs @ unread c' \<and> length xs \<le> len \<and> rb_invar (dataBuffer c')
    \<and> (err = None \<or> err = Some EOF \<and> xs = [])"
  using Read_ok [OF assms(2,1)] by (auto simp: read_ok_def)

text \<open>An inbound connection with one five-byte block in its ordered queue.\<close>
definition sample_inbound :: InboundConnection where
  "sample_inbound = (NewInboundConnection default_conn_config 0 7)
     \<lparr>orderedRecvQueue := \<lparr>chq = [newDataBlock 0 7 1 [1, 2, 3, 4, 5]], chcap = 32, chclosed = False\<rparr>\<rparr>"

lemma sample_inbound_sel:
  "rb_invar (dataBuffer sample_inbound)" "rb_Empty (dataBuffer sample_inbound)"
  "closed sample_inbound = False" "readClosed sample_inbound = False"
  "orderedRecvQueue sample_inbound = \<lparr>chq = [newDataBlock 0 7 1 [1, 2, 3, 4, 5]], chcap = 32, chclosed = False\<rparr>"
  by (simp_all add: sample_inbound_def NewInboundConnection_def rb_Empty_def NewByteRingBuffer_def rb_invar_def)

theorem Read_stream_witness:
  "\<exists>c'. Read 2 (\<lambda>_. False) 0 3 sample_inbound = Some (ReadReturns [1, 2, 3] None c')
     \<and> unread sample_inbound = [1, 2, 3] @ unread c'"
proof -
  define c' where "c' = sample_inbound\<lparr>orderedRecvQueue := \<lparr>chq = [], chcap = 32, chclosed = False\<rparr>,
     inLastActivity := 0, dataBuffer := snd (rb_Read 3 (OverWrite [1, 2, 3, 4, 5] (dataBuffer sample_inbound))),
     RecvBytes := RecvBytes sample_inbound + 3\<rparr>"
  have "fst (rb_Read 3 (OverWrite [1, 2, 3, 4, 5] (dataBuffer sample_inbound))) = [1, 2, 3]"
    by (simp add: ring.rd_bytes)
  then have r: "Read 2 (\<lambda>_. False) 0 3 sample_inbound = Some (ReadReturns [1, 2, 3] None c')"
    by (simp add: Read_def Read_queue_def sample_inbound_sel recv_ordered_def chan_recv_def readBlock_def
        in_SetLastActive_def Let_def c'_def case_prod_beta)
  then show ?thesis using Read_stream [OF sample_inbound_sel(1) r] by blast
qed

text \<open>
  C28. A read on a connection that has not been closed locally ends: as long as the ordered queue
  is open, a fuel of one more than its length suffices for the call to return, to wait for the
  peer, or to panic on a malformed disconnect block.
\<close>
theorem Read_returns:
  assumes "\<not> chclosed (orderedRecvQueue c)" and "rb_invar (dataBuffer c)"
    and "length (chq (orderedRecvQueue c)) < fuel"
  shows "\<exists>r. Read fuel fire now len c = Some r"
proof (cases "rb_Empty (dataBuffer c)")
  case True
  then show ?thesis
    using assms rb_Empty_contents [OF assms(2)] by (simp add: Read_def Read_queue_returns)
next
  case False
  obtain acc rb where r: "rb_Read len (dataBuffer c) = (acc, rb)" by fastforce
  then have acc: "acc = take len (rb_contents (dataBuffer c))"
    and rb: "rb_contents rb = drop len (rb_contents (dataBuffer c))" "rb_invar rb"
    using ring.rd_bytes [OF assms(2), of len] ring.rd_contents [OF assms(2), of len]
      ring.rd_invar [OF assms(2), of len] by simp_all
  show ?thesis
    using False assms rb Read_queue_returns [of "c\<lparr>dataBuffer := rb\<rparr>" fuel acc len fire now]
    by (auto simp: Read_def r acc)
qed

theorem Read_returns_witness: "\<exists>r. Read 2 (\<lambda>_. False) 0 3 sample_inbound = Some r"
  by (rule Read_returns) (simp_all add: sample_inbound_sel)

text \<open>
  A read after a local \<open>Close\<close> may never return: \<open>Close\<close> closes the ordered queue, and the
  loop that drains a closed connection treats the zero blocks of a closed channel as blocks to
  read. If fewer bytes are left than the destination holds, no number of iterations is enough.
\<close>
lemma Read_after_Close_hangs:
  assumes "closed c = False" and "Close now c = Ret c'"
    and "rb_invar (dataBuffer c)" and "no_empty_disconnect (chq (orderedRecvQueue c))"
    and "length (unread c) < len"
  shows "Read fuel fire now' len c' = None"
proof -
  have c': "closed c'" "chclosed (orderedRecvQueue c')"
    "chq (orderedRecvQueue c') = chq (orderedRecvQueue c)" "dataBuffer c' = dataBuffer c"
    using assms(1,2)
    by (auto simp: Close_def Let_def chan_close_def Stop_def SendDisconnect_def packDisconnect_def split: if_splits)
  then show ?thesis using assms(3-5) by (intro Read_hangs) (simp_all add: unread_def)
qed

lemma Read_after_Close_hangs_witness:
  "\<exists>c'. Close 0 sample_inbound = Ret c' \<and> Read 1000 (\<lambda>_. False) 0 32 c' = None"
proof -
  obtain c' where c': "Close 0 sample_inbound = Ret c'"
    by (simp add: Close_def Let_def chan_close_def sample_inbound_def NewInboundConnection_def
        make_chan_def SendDisconnect_def packDisconnect_def Stop_def)
  have "Read 1000 (\<lambda>_. False) 0 32 c' = None"
    by (rule Read_after_Close_hangs [OF sample_inbound_sel(3) c' sample_inbound_sel(1)])
      (simp_all add: sample_inbound_sel no_empty_disconnect_def unread_def, simp add: rb_contents_def sample_inbound_def NewInboundConnection_def NewByteRingBuffer_def)
  with c' show ?thesis by blast
qed

text \<open>
  The receive counter misses bytes: a read adds to \<open>RecvBytes\<close> only what it took from
  the queue; the bytes it served from the ring buffer, the remainder of a block that did not fit
  earlier, are never counted.
\<close>
lemma Read_RecvBytes:
  assumes "rb_invar (dataBuffer c)" and "Read fuel fire now len c = Some (ReadReturns xs err c')"
  shows "RecvBytes c' = RecvBytes c + of_nat (length xs) - of_nat (min len (length (rb_contents (dataBuffer c))))"
  using Read_ok [OF assms(2,1)] by (auto simp: read_ok_def from_buffer_def eq_diff_eq min.commute)

text \<open>The connection after its first read: two bytes are left in the buffer.\<close>
definition sample_buffered :: InboundConnection where
  "sample_buffered = (NewInboundConnection default_conn_config 0 7)\<lparr>dataBuffer := OverWrite [4, 5] (NewByteRingBuffer 8)\<rparr>"

lemma sample_buffered_sel:
  "rb_invar (dataBuffer sample_buffered)" "rb_contents (dataBuffer sample_buffered) = [4, 5]"
  "\<not> rb_Empty (dataBuffer sample_buffered)" "RecvBytes sample_buffered = 0"
  by (simp_all add: sample_buffered_def NewInboundConnection_def rb_Empty_contents)

theorem Read_RecvBytes_witness:
  "\<exists>c'. Read 1 (\<lambda>_. False) 0 2 sample_buffered = Some (ReadReturns [4, 5] None c') \<and> RecvBytes c' = 0"
proof -
  define c' where "c' = sample_buffered\<lparr>dataBuffer := snd (rb_Read 2 (dataBuffer sample_buffered))\<rparr>"
  have "fst (rb_Read 2 (dataBuffer sample_buffered)) = [4, 5]"
    by (simp add: ring.rd_bytes sample_buffered_sel)
  then have r: "Read 1 (\<lambda>_. False) 0 2 sample_buffered = Some (ReadReturns [4, 5] None c')"
    by (simp add: Read_def sample_buffered_sel Let_def c'_def case_prod_beta)
  then show ?thesis using Read_RecvBytes [OF sample_buffered_sel(1) r] by (simp add: sample_buffered_sel)
qed

text \<open>
  A write on an open connection accepts all bytes: it returns their number, appends exactly
  these bytes to what the connection has sent, in consecutively numbered well-formed blocks of this
  connection, and counts them. On a connection closed by either side for writing it fails with
  \<open>EINVAL\<close> and sends nothing.
\<close>
lemma Write_correct:
  assumes "sent_numbered c"
  shows "case Write now b c of ((n, err), c') \<Rightarrow>
     sent_numbered c'
   \<and> (if writeClosed c \<or> closed c then n = 0 \<and> err = Some EINVAL \<and> c' = c
      else n = length b \<and> err = None \<and> payload (sendq c') = payload (sendq c) @ b
         \<and> SentBytes c' = SentBytes c + of_nat (length b))"
  using assms sendData_numbered [OF assms, of now b] sendData_payload [of now b c]
  by (simp add: Write_def Let_def sent_numbered_def)

lemma Write_correct_witness:
  "payload (sendq (snd (Write (\<lambda>_. 0) [1, 2, 3] sample_inbound))) = [1, 2, 3]"
proof -
  have "sent_numbered sample_inbound"
    by (simp add: sent_numbered_def sample_inbound_def NewInboundConnection_def newBlockProcessor_def)
  from Write_correct [OF this, where now = "\<lambda>_. 0" and b = "[1, 2, 3]"] show ?thesis
    by (simp add: case_prod_beta sample_inbound_def NewInboundConnection_def)
qed

text \<open>
  \<open>Close\<close> announces the end once: the first call sends exactly one \<open>ShutdownBoth\<close> block,
  closes both queues and cancels the connection's context; every further call, and a call after
  the peer has disconnected, sends nothing and cannot panic.
\<close>
lemma Close_once:
  assumes "\<not> closed c \<Longrightarrow> \<not> chclosed (recvQueue c) \<and> \<not> chclosed (orderedRecvQueue c)"
  shows "\<exists>c'. Close now c = Ret c' \<and> closed c' \<and> ctxDone c'
     \<and> sendq c' = sendq c @ (if closed c then []
          else [NewDisconnectBlock now (connectionID c) (sendBlockID (bproc c)) ShutdownBoth])
     \<and> (\<not> closed c \<longrightarrow> chclosed (recvQueue c') \<and> chclosed (orderedRecvQueue c'))
     \<and> Close now' c' = Ret c'"
  using assms
  by (cases "closed c")
    (simp_all add: Close_def Let_def chan_close_def Stop_def SendDisconnect_def packDisconnect_def)

lemma Close_once_witness:
  "\<exists>c'. Close 0 sample_inbound = Ret c' \<and> length (sendq c') = 1 \<and> Close 0 c' = Ret c'"
  using Close_once [of sample_inbound 0 0]
  by (auto simp: sample_inbound_def NewInboundConnection_def make_chan_def)

end
