(* ===== verification/Outbound.thy ===== *)
theory Outbound
  imports Connection
begin

text \<open>
  The connection to the real destination, \<open>connection/outbound_connection.go\<close>. The TCP
  connection is represented by the log of the calls made on it; what it returns is an input of the
  step that asks. \<open>RecvRelay\<close> and \<open>SendRelay\<close> run one loop iteration per list element.
  Deadlines only decide when a call returns a timeout, so they are part of the environment.
\<close>

section \<open>State and operations\<close>

datatype tcp_call = TcpWrite "byte list" | TcpCloseRead | TcpCloseWrite | TcpClose

record OutboundConnection = baseConnection +
  halfOpenConn :: "tcp_call list option"
  recvRelayOn :: bool
  sendRelayOn :: bool

definition NewOutboundConnection :: "conn_config \<Rightarrow> u32 \<Rightarrow> OutboundConnection" where
  "NewOutboundConnection cfg connID =
     \<lparr>bproc = newBlockProcessor, connectionID = connID, closed = True, sendq = [],
      recvQueue = make_chan (RecvQueueSize cfg), orderedRecvQueue = make_chan (OrderedRecvQueueSize cfg),
      LastActivity = 0, LatencyNano = 0, SentBytes = 0, RecvBytes = 0, ctxDone = False,
      halfOpenConn = None, recvRelayOn = False, sendRelayOn = False\<rparr>"

text \<open>A call on the real connection; on a nil connection it would panic.\<close>
definition tcp :: "tcp_call \<Rightarrow> OutboundConnection \<Rightarrow> OutboundConnection outcome" where
  "tcp call oc = (case halfOpenConn oc of None \<Rightarrow> Panic
                  | Some l \<Rightarrow> Ret (oc\<lparr>halfOpenConn := Some (l @ [call])\<rparr>))"

definition closeThenCancel :: "OutboundConnection \<Rightarrow> OutboundConnection outcome" where
  "closeThenCancel oc = (case tcp TcpClose oc of Panic \<Rightarrow> Panic | Ret oc1 \<Rightarrow> Ret (oc1\<lparr>ctxDone := True\<rparr>))"

definition closeThenCancelWithOnceSend :: "i64 \<Rightarrow> OutboundConnection \<Rightarrow> OutboundConnection outcome" where
  "closeThenCancelWithOnceSend now oc =
     (case tcp TcpClose oc of
        Panic \<Rightarrow> Panic
      | Ret oc1 \<Rightarrow>
          (let oc2 = oc1\<lparr>ctxDone := True\<rparr>
           in if \<not> closed oc2 then Ret (SendDisconnect now ShutdownBoth (oc2\<lparr>closed := True\<rparr>)) else Ret oc2))"

text \<open>What a read of the real connection returned.\<close>
datatype rd_result = RdOk "byte list" | RdEOF | RdTimeout | RdErr

text \<open>
  One iteration of the receive loop: whether the context was seen done before and after the read,
  what the read returned, and what the at most five last reads return.
\<close>
record recv_iter =
  done_before :: bool
  rd :: rd_result
  done_after :: bool
  last_reads :: "rd_result list"
  iter_now :: "nat \<Rightarrow> i64"

text \<open>The bounded loop that picks up remaining data after the context was cancelled.\<close>
fun recv_remaining :: "nat \<Rightarrow> rd_result list \<Rightarrow> (nat \<Rightarrow> i64) \<Rightarrow> OutboundConnection \<Rightarrow> OutboundConnection" where
  "recv_remaining 0 rs now oc = oc"
| "recv_remaining (Suc i) [] now oc = oc"
| "recv_remaining (Suc i) (r # rs) now oc =
     (case r of
        RdOk dat \<Rightarrow>
          if length dat > 0
          then recv_remaining i rs now
                 ((sendData now dat oc)\<lparr>RecvBytes := RecvBytes oc + of_nat (length dat)\<rparr>)
          else oc
      | _ \<Rightarrow> oc)"

definition RecvRelay_iter :: "recv_iter \<Rightarrow> OutboundConnection \<Rightarrow> OutboundConnection outcome" where
  "RecvRelay_iter it oc =
     (if done_before it then Ret (oc\<lparr>recvRelayOn := False\<rparr>)
      else case rd it of
        RdEOF \<Rightarrow>
          (case closeThenCancelWithOnceSend (iter_now it 0) oc of
             Panic \<Rightarrow> Panic | Ret oc1 \<Rightarrow> Ret (oc1\<lparr>recvRelayOn := False\<rparr>))
      | RdErr \<Rightarrow>
          (case closeThenCancelWithOnceSend (iter_now it 0) oc of
             Panic \<Rightarrow> Panic | Ret oc1 \<Rightarrow> Ret (oc1\<lparr>recvRelayOn := False\<rparr>))
      | ok_or_timeout \<Rightarrow>
          (let oc1 = (case ok_or_timeout of
                        RdOk dat \<Rightarrow> (sendData (iter_now it) dat oc)\<lparr>RecvBytes := RecvBytes oc + of_nat (length dat)\<rparr>
                      | _ \<Rightarrow> oc)
           in if done_after it
              then Ret ((recv_remaining 5 (last_reads it) (iter_now it) oc1)\<lparr>recvRelayOn := False\<rparr>)
              else Ret oc1))"

fun RecvRelay :: "recv_iter list \<Rightarrow> OutboundConnection \<Rightarrow> OutboundConnection outcome" where
  "RecvRelay [] oc = Ret oc"
| "RecvRelay (it # its) oc =
     (if \<not> recvRelayOn oc then Ret oc
      else case RecvRelay_iter it oc of Panic \<Rightarrow> Panic | Ret oc1 \<Rightarrow> RecvRelay its oc1)"

text \<open>
  One iteration of the send loop: which case of the select fired; for a data block also whether
  the write succeeded (\<open>None\<close>) or failed after some bytes. The context case occurs twice in the
  select, with different bodies.
\<close>
datatype send_iter = SendDone | SendDoneSecond i64 | SendQueueClosed | SendBlock i64 block "nat option"

definition SendRelay_block :: "i64 \<Rightarrow> block \<Rightarrow> nat option \<Rightarrow> OutboundConnection \<Rightarrow> OutboundConnection outcome" where
  "SendRelay_block now blk wrote oc =
     (if Type blk = TypeConnect \<or> Type blk = TypePing \<or> Type blk = TypePong then Ret oc
      else if Type blk = TypeData
      then (if halfOpenConn oc = None then closeThenCancelWithOnceSend now oc
            else (case wrote of
                    None \<Rightarrow>
                      (case tcp (TcpWrite (BlockData blk)) oc of
                         Panic \<Rightarrow> Panic
                       | Ret oc1 \<Rightarrow> Ret (oc1\<lparr>SentBytes := SentBytes oc1 + of_nat (length (BlockData blk))\<rparr>))
                  | Some n \<Rightarrow>
                      (case tcp (TcpWrite (take n (BlockData blk))) oc of
                         Panic \<Rightarrow> Panic
                       | Ret oc1 \<Rightarrow> closeThenCancelWithOnceSend now oc1)))
      else if Type blk = TypeDisconnect
      then (case BlockData blk of
              [] \<Rightarrow> Panic
            | k # _ \<Rightarrow> if k = ShutdownRead then tcp TcpCloseRead oc
                       else if k = ShutdownWrite then tcp TcpCloseWrite oc
                       else closeThenCancel oc)
      else Ret oc)"

fun SendRelay_iter :: "send_iter \<Rightarrow> OutboundConnection \<Rightarrow> OutboundConnection outcome" where
  "SendRelay_iter SendDone oc = Ret (oc\<lparr>sendRelayOn := False\<rparr>)"
| "SendRelay_iter (SendDoneSecond now) oc =
     (case closeThenCancelWithOnceSend now oc of
        Panic \<Rightarrow> Panic | Ret oc1 \<Rightarrow> Ret (oc1\<lparr>sendRelayOn := False\<rparr>))"
| "SendRelay_iter SendQueueClosed oc = Ret (oc\<lparr>sendRelayOn := False\<rparr>)"
| "SendRelay_iter (SendBlock now blk wrote) oc = SendRelay_block now blk wrote oc"

fun SendRelay :: "send_iter list \<Rightarrow> OutboundConnection \<Rightarrow> OutboundConnection outcome" where
  "SendRelay [] oc = Ret oc"
| "SendRelay (it # its) oc =
     (if \<not> sendRelayOn oc then Ret oc
      else case SendRelay_iter it oc of Panic \<Rightarrow> Panic | Ret oc1 \<Rightarrow> SendRelay its oc1)"

text \<open>\<open>connect\<close> with the outcome of the dial; \<open>closed\<close> starts true and is toggled on success.\<close>
definition connect :: "i64 \<Rightarrow> bool \<Rightarrow> OutboundConnection \<Rightarrow> OutboundConnection" where
  "connect now dialed oc =
     (if \<not> closed oc \<or> halfOpenConn oc \<noteq> None then oc
      else if dialed
      then oc\<lparr>halfOpenConn := Some [], closed := \<not> closed oc, recvRelayOn := True, sendRelayOn := True\<rparr>
      else SendDisconnect now ShutdownBoth oc)"

text \<open>
  \<open>RecvBlock\<close> spawns \<open>connect\<close> for a connect block (the second component) and queues every block.
\<close>
definition out_RecvBlock :: "block \<Rightarrow> OutboundConnection \<Rightarrow> OutboundConnection attempt \<times> byte list option" where
  "out_RecvBlock blk oc =
     (RecvBlock blk oc, if Type blk = TypeConnect then Some (BlockData blk) else None)"

section \<open>Runs\<close>

text \<open>The goroutines of an outbound connection interleave; one event is one loop iteration.\<close>
datatype out_event = EvConnect i64 bool | EvRecv recv_iter | EvSend send_iter

fun out_step :: "out_event \<Rightarrow> OutboundConnection \<Rightarrow> OutboundConnection outcome" where
  "out_step (EvConnect now dialed) oc = Ret (connect now dialed oc)"
| "out_step (EvRecv it) oc = RecvRelay [it] oc"
| "out_step (EvSend it) oc = SendRelay [it] oc"

fun out_run :: "out_event list \<Rightarrow> OutboundConnection \<Rightarrow> OutboundConnection outcome" where
  "out_run [] oc = Ret oc"
| "out_run (e # es) oc = (case out_step e oc of Panic \<Rightarrow> Panic | Ret oc1 \<Rightarrow> out_run es oc1)"

definition is_shutdown_both :: "block \<Rightarrow> bool" where
  "is_shutdown_both b \<longleftrightarrow> Type b = TypeDisconnect \<and> BlockData b = [ShutdownBoth]"

definition shutdowns :: "block list \<Rightarrow> nat" where
  "shutdowns bs = length (filter is_shutdown_both bs)"

lemma shutdowns_simps [simp]:
  "shutdowns [] = 0" "shutdowns (bs @ cs) = shutdowns bs + shutdowns cs"
  "shutdowns (b # bs) = (if is_shutdown_both b then 1 else 0) + shutdowns bs"
  by (simp_all add: shutdowns_def)

lemma shutdowns_data: "data_blocks_for cid bid dat bs \<Longrightarrow> shutdowns bs = 0"
  by (auto simp: data_blocks_for_def shutdowns_def is_shutdown_both_def list_all_iff filter_empty_conv)

lemma shutdowns_sendData [simp]: "shutdowns (sendq (sendData now dat c)) = shutdowns (sendq c)"
  by (rule sendData_blocks [of now dat c]) (auto dest: shutdowns_data)

text \<open>
  The invariant after a successful dial: the real connection stays, and a \<open>ShutdownBoth\<close> has been
  sent exactly when the closed flag is set.
\<close>
definition out_inv :: "OutboundConnection \<Rightarrow> bool" where
  "out_inv oc \<longleftrightarrow> halfOpenConn oc \<noteq> None \<and> shutdowns (sendq oc) = (if closed oc then 1 else 0)
     \<and> sent_numbered oc \<and> no_empty_disconnect (sendq oc)"

lemma no_empty_disconnect_sendData [simp]:
  "no_empty_disconnect (sendq (sendData now dat c)) = no_empty_disconnect (sendq c)"
  by (rule sendData_blocks [of now dat c]) (auto dest: no_empty_disconnect_data)

lemma out_frame [simp]:
  "sent_numbered (oc\<lparr>halfOpenConn := h\<rparr>) = sent_numbered oc"
  "sent_numbered (oc\<lparr>recvRelayOn := b\<rparr>) = sent_numbered oc"
  "sent_numbered (oc\<lparr>sendRelayOn := b\<rparr>) = sent_numbered oc"
  by (simp_all add: sent_numbered_def)

lemma out_inv_frame [simp]:
  "out_inv (oc\<lparr>recvRelayOn := b\<rparr>) = out_inv oc" "out_inv (oc\<lparr>sendRelayOn := b\<rparr>) = out_inv oc"
  "out_inv (oc\<lparr>ctxDone := b\<rparr>) = out_inv oc" "out_inv (oc\<lparr>SentBytes := n\<rparr>) = out_inv oc"
  "out_inv (oc\<lparr>RecvBytes := n\<rparr>) = out_inv oc"
  by (simp_all add: out_inv_def)

lemma out_inv_tcp:
  assumes "out_inv oc"
  obtains oc' where "tcp call oc = Ret oc'" "out_inv oc'"
proof -
  obtain l where "halfOpenConn oc = Some l" using assms by (auto simp: out_inv_def)
  then show thesis
    using assms by (intro that [of "oc\<lparr>halfOpenConn := Some (l @ [call])\<rparr>"])
      (auto simp: tcp_def out_inv_def)
qed

lemma SendDisconnect_frame [simp]:
  "closed (SendDisconnect now k c) = closed c"
  "sendq (SendDisconnect now k c) = sendq c @ [NewDisconnectBlock now (connectionID c) (sendBlockID (bproc c)) k]"
  "connectionID (SendDisconnect now k c) = connectionID c"
  by (simp_all add: SendDisconnect_def packDisconnect_def Stop_def Let_def)

lemma halfOpenConn_send [simp]:
  "halfOpenConn (SendDisconnect now k oc) = halfOpenConn oc"
  "halfOpenConn (sendData now' dat oc) = halfOpenConn oc"
  "sendRelayOn (sendData now' dat oc) = sendRelayOn oc"
  "recvRelayOn (sendData now' dat oc) = recvRelayOn oc"
  by (simp_all add: SendDisconnect_def packDisconnect_def Stop_def Let_def sendData_def split: prod.split)

lemma is_shutdown_both_Disconnect [simp]:
  "is_shutdown_both (NewDisconnectBlock now cid bid k) \<longleftrightarrow> k = ShutdownBoth"
  by (simp add: is_shutdown_both_def NewDisconnectBlock_def)

lemma out_inv_once:
  assumes "out_inv oc"
  obtains oc' where "closeThenCancelWithOnceSend now oc = Ret oc'" "out_inv oc'"
proof -
  obtain oc1 where oc1: "tcp TcpClose oc = Ret oc1" "out_inv oc1" using assms by (rule out_inv_tcp)
  let ?oc2 = "oc1\<lparr>ctxDone := True\<rparr>"
  show thesis
  proof (cases "closed oc1")
    case True
    with oc1 show thesis
      by (intro that [of ?oc2]) (auto simp: closeThenCancelWithOnceSend_def Let_def)
  next
    case False
    have "sent_numbered (SendDisconnect now ShutdownBoth (oc1\<lparr>ctxDone := True, closed := True\<rparr>))"
      using oc1(2) by (intro SendDisconnect_numbered) (simp add: out_inv_def)
    with oc1 False show thesis
      by (intro that [of "SendDisconnect now ShutdownBoth (?oc2\<lparr>closed := True\<rparr>)"])
        (auto simp: closeThenCancelWithOnceSend_def Let_def out_inv_def)
  qed
qed

lemma out_inv_data: "out_inv oc \<Longrightarrow> out_inv (sendData now dat oc)"
  by (simp add: out_inv_def sendData_numbered)

lemma out_inv_remaining: "out_inv oc \<Longrightarrow> out_inv (recv_remaining i rs now oc)"
  by (induction i rs now oc rule: recv_remaining.induct)
    (auto intro: out_inv_data split: rd_result.split)

text \<open>Blocks that the send loop can process without an index panic.\<close>
fun safe_send :: "send_iter \<Rightarrow> bool" where
  "safe_send (SendBlock now blk w) = (Type blk = TypeDisconnect \<longrightarrow> BlockData blk \<noteq> [])"
| "safe_send _ = True"

fun safe_event :: "out_event \<Rightarrow> bool" where
  "safe_event (EvSend it) = safe_send it"
| "safe_event _ = True"

lemma SendRelay_block_inv:
  assumes "out_inv oc" "Type blk = TypeDisconnect \<longrightarrow> BlockData blk \<noteq> []"
  shows "\<exists>oc'. SendRelay_block now blk w oc = Ret oc' \<and> out_inv oc'"
proof -
  obtain oc1 where t: "closeThenCancelWithOnceSend now oc = Ret oc1" "out_inv oc1"
    using assms(1) by (rule out_inv_once)
  have call: "\<exists>oc'. tcp call oc = Ret oc' \<and> out_inv oc'" for call
    using assms(1) by (rule out_inv_tcp) blast
  have fail: "\<exists>oc'. (case tcp call oc of Panic \<Rightarrow> Panic | Ret oc1 \<Rightarrow> closeThenCancelWithOnceSend now oc1) = Ret oc' \<and> out_inv oc'" for call
  proof -
    obtain oc1 where oc1: "tcp call oc = Ret oc1" "out_inv oc1" using assms(1) by (rule out_inv_tcp)
    from oc1(2) obtain oc2 where "closeThenCancelWithOnceSend now oc1 = Ret oc2" "out_inv oc2"
      by (rule out_inv_once)
    with oc1(1) show ?thesis by simp
  qed
  have c: "\<exists>oc'. closeThenCancel oc = Ret oc' \<and> out_inv oc'"
    using call [of TcpClose] by (auto simp: closeThenCancel_def)
  obtain d where d: "tcp (TcpWrite (BlockData blk)) oc = Ret d" "out_inv d"
    using assms(1) by (rule out_inv_tcp)
  consider (dat) "Type blk = TypeData" | (disc) "Type blk = TypeDisconnect"
    | (other) "Type blk \<noteq> TypeData" "Type blk \<noteq> TypeDisconnect" by blast
  then show ?thesis
  proof cases
    case dat
    from assms(1) have "halfOpenConn oc \<noteq> None" by (simp add: out_inv_def)
    with dat d fail show ?thesis
      by (cases w) (auto simp: SendRelay_block_def)
  next
    case disc
    with assms(2) obtain k ks where "BlockData blk = k # ks" by (cases "BlockData blk") auto
    with disc call c show ?thesis by (simp add: SendRelay_block_def)
  next
    case other
    with assms(1) show ?thesis by (simp add: SendRelay_block_def)
  qed
qed

lemma out_step_inv:
  assumes "out_inv oc" "safe_event e"
  shows "\<exists>oc'. out_step e oc = Ret oc' \<and> out_inv oc'"
proof (cases e)
  case (EvConnect now dialed)
  with assms(1) show ?thesis by (auto simp: connect_def out_inv_def)
next
  case (EvRecv it)
  obtain oc1 where t: "closeThenCancelWithOnceSend (iter_now it 0) oc = Ret oc1" "out_inv oc1"
    using assms(1) by (rule out_inv_once)
  then show ?thesis
    using EvRecv assms(1) out_inv_data [OF assms(1)]
    by (auto simp: RecvRelay_iter_def Let_def intro!: out_inv_remaining split: rd_result.splits)
next
  case (EvSend it)
  show ?thesis
  proof (cases it)
    case (SendDoneSecond now)
    obtain oc1 where "closeThenCancelWithOnceSend now oc = Ret oc1" "out_inv oc1"
      using assms(1) by (rule out_inv_once)
    with SendDoneSecond EvSend assms(1) show ?thesis by auto
  next
    case (SendBlock now blk w)
    with EvSend assms SendRelay_block_inv [OF assms(1), of blk now w] show ?thesis by auto
  qed (use EvSend assms(1) in auto)
qed

lemma out_run_inv:
  assumes "out_inv oc" "\<forall>e\<in>set es. safe_event e"
  shows "\<exists>oc'. out_run es oc = Ret oc' \<and> out_inv oc'"
  using assms
proof (induction es arbitrary: oc)
  case (Cons e es)
  then obtain oc1 where "out_step e oc = Ret oc1" "out_inv oc1"
    using out_step_inv by force
  with Cons show ?case by simp
qed simp

lemma out_inv_connected: "out_inv (connect now True (NewOutboundConnection cfg cid))"
  by (simp add: out_inv_def connect_def NewOutboundConnection_def sent_numbered_def newBlockProcessor_def)

section \<open>Properties\<close>


text \<open>An iteration of the receive loop that reads \<open>dat\<close>, and one that reads the end of file.\<close>
definition sample_recv :: "rd_result \<Rightarrow> recv_iter" where
  "sample_recv r = \<lparr>done_before = False, rd = r, done_after = False, last_reads = [], iter_now = (\<lambda>_. 0)\<rparr>"


text \<open>The bytes a run of the receive loop takes from the real connection.\<close>
fun remaining_bytes :: "nat \<Rightarrow> rd_result list \<Rightarrow> byte list" where
  "remaining_bytes (Suc i) (RdOk dat # rs) = (if dat = [] then [] else dat @ remaining_bytes i rs)"
| "remaining_bytes _ _ = []"

fun read_bytes_of :: "recv_iter list \<Rightarrow> byte list" where
  "read_bytes_of [] = []"
| "read_bytes_of (it # its) =
     (if done_before it then []
      else case rd it of
        RdOk dat \<Rightarrow> dat @ (if done_after it then remaining_bytes 5 (last_reads it) else read_bytes_of its)
      | RdTimeout \<Rightarrow> (if done_after it then remaining_bytes 5 (last_reads it) else read_bytes_of its)
      | _ \<Rightarrow> [])"

lemma recv_remaining_forwards:
  "payload (sendq (recv_remaining i rs now oc)) = payload (sendq oc) @ remaining_bytes i rs
   \<and> RecvBytes (recv_remaining i rs now oc) = RecvBytes oc + of_nat (length (remaining_bytes i rs))"
  by (induction i rs now oc rule: recv_remaining.induct)
    (auto simp: sendData_payload split: rd_result.split)

lemma closeThenCancelWithOnceSend_payload:
  "closeThenCancelWithOnceSend now oc = Ret oc' \<Longrightarrow>
   payload (sendq oc') = payload (sendq oc) \<and> RecvBytes oc' = RecvBytes oc"
  by (auto simp: closeThenCancelWithOnceSend_def tcp_def Let_def NewDisconnectBlock_def SendDisconnect_def
      packDisconnect_def Stop_def split: option.splits if_splits)

lemma RecvRelay_off [simp]: "\<not> recvRelayOn oc \<Longrightarrow> RecvRelay its oc = Ret oc"
  by (cases its) simp_all

text \<open>
  The receive loop forwards faithfully: the bytes it takes from the real connection, over
  any number of iterations, timeouts and the final reads after a cancellation, are exactly what it
  adds to the sent payload, in order, and what it counts.
\<close>
lemma RecvRelay_forwards:
  assumes "recvRelayOn oc" and "RecvRelay its oc = Ret oc'"
  shows "payload (sendq oc') = payload (sendq oc) @ read_bytes_of its
     \<and> RecvBytes oc' = RecvBytes oc + of_nat (length (read_bytes_of its))"
  using assms
proof (induction its arbitrary: oc)
  case (Cons it its)
  have IH: "payload (sendq oc') = payload (sendq oc1) @ read_bytes_of its
     \<and> RecvBytes oc' = RecvBytes oc1 + of_nat (length (read_bytes_of its))"
    if "RecvRelay its oc1 = Ret oc'" "recvRelayOn oc1" for oc1
    using Cons.IH that by blast
  show ?case
  proof (cases "done_before it \<or> rd it = RdEOF \<or> rd it = RdErr")
    case True
    with Cons.prems show ?thesis
      by (auto simp: RecvRelay_iter_def split: outcome.splits dest!: closeThenCancelWithOnceSend_payload)
  next
    case False
    show ?thesis
    proof (cases "done_after it")
      case True
      with False Cons.prems show ?thesis
        by (cases "rd it") (auto simp: RecvRelay_iter_def Let_def recv_remaining_forwards sendData_payload)
    next
      case cont: False
      show ?thesis
      proof (cases "rd it")
        case (RdOk dat)
        let ?oc1 = "(sendData (iter_now it) dat oc)\<lparr>RecvBytes := RecvBytes oc + of_nat (length dat)\<rparr>"
        have "RecvRelay its ?oc1 = Ret oc'" "recvRelayOn ?oc1"
          using RdOk False cont Cons.prems by (simp_all add: RecvRelay_iter_def Let_def)
        from IH [OF this] RdOk False cont show ?thesis by (simp add: sendData_payload)
      next
        case RdTimeout
        with False cont Cons.prems IH [of oc] show ?thesis by (simp add: RecvRelay_iter_def Let_def)
      qed (use False in simp_all)
    qed
  qed
qed simp

text \<open>The bytes written to the real connection.\<close>
definition calls_written :: "tcp_call list \<Rightarrow> byte list" where
  "calls_written l = concat (map (\<lambda>c. case c of TcpWrite d \<Rightarrow> d | _ \<Rightarrow> []) l)"

lemma calls_written_simps [simp]:
  "calls_written [] = []" "calls_written (l @ l') = calls_written l @ calls_written l'"
  "calls_written [TcpWrite d] = d" "calls_written [TcpClose] = []" "calls_written [TcpCloseRead] = []"
  "calls_written [TcpCloseWrite] = []"
  by (simp_all add: calls_written_def)

definition tcp_written :: "OutboundConnection \<Rightarrow> byte list" where
  "tcp_written oc = calls_written (case halfOpenConn oc of None \<Rightarrow> [] | Some l \<Rightarrow> l)"

definition is_shutdown_write :: "block \<Rightarrow> bool" where
  "is_shutdown_write b \<longleftrightarrow> Type b = TypeDisconnect \<and> BlockData b \<noteq> [] \<and> BlockData b ! 0 = ShutdownWrite"

definition half_closed :: "block list \<Rightarrow> bool" where
  "half_closed bs \<longleftrightarrow> (\<exists>b\<in>set bs. is_shutdown_write b)"

lemma half_closed_simps [simp]:
  "half_closed [] = False" "half_closed (b # bs) \<longleftrightarrow> is_shutdown_write b \<or> half_closed bs"
  "half_closed (bs @ cs) \<longleftrightarrow> half_closed bs \<or> half_closed cs"
  by (auto simp: half_closed_def)

lemma is_shutdown_write_New [simp]: "is_shutdown_write (NewDisconnectBlock now cid bid k) \<longleftrightarrow> k = ShutdownWrite"
  by (auto simp: is_shutdown_write_def NewDisconnectBlock_def)

lemma half_closed_data: "data_blocks_for cid bid dat bs \<Longrightarrow> \<not> half_closed bs"
  by (auto simp: half_closed_def is_shutdown_write_def data_blocks_for_def list_all_iff)

lemma shutdown_kinds [simp]: "ShutdownBoth \<noteq> ShutdownWrite" "ShutdownRead \<noteq> ShutdownWrite"
  "ShutdownRead \<noteq> ShutdownBoth" "ShutdownWrite \<noteq> ShutdownBoth"
  by (simp_all add: ShutdownBoth_def ShutdownRead_def ShutdownWrite_def)

text \<open>What one block makes the send loop do to the real connection, when the write succeeds.\<close>
lemma SendRelay_block_calls:
  assumes "halfOpenConn oc = Some l" "no_empty_disconnect [b]"
  shows "\<exists>oc1 l1. SendRelay_block now b None oc = Ret oc1 \<and> halfOpenConn oc1 = Some (l @ l1) \<and> sendRelayOn oc1 = sendRelayOn oc
    \<and> calls_written l1 = payload [b] \<and> (TcpCloseWrite \<in> set l1 \<longleftrightarrow> is_shutdown_write b)"
proof (cases "Type b = TypeDisconnect")
  case True
  then obtain k ks where "BlockData b = k # ks" using assms(2) by (cases "BlockData b") auto
  with True assms(1) show ?thesis
    by (auto simp: SendRelay_block_def tcp_def closeThenCancel_def is_shutdown_write_def)
next
  case False
  with assms(1) show ?thesis by (auto simp: SendRelay_block_def tcp_def is_shutdown_write_def)
qed

text \<open>
  The send loop delivers faithfully: as long as writes succeed, the bytes written to the real
  connection are the payload of the blocks in the order of the ordered queue, and its write side is
  closed exactly when one of the blocks says so.
\<close>
lemma SendRelay_calls:
  assumes "halfOpenConn oc = Some l" "sendRelayOn oc" "no_empty_disconnect bs"
  shows "\<exists>oc' l'. SendRelay (map (\<lambda>b. SendBlock now b None) bs) oc = Ret oc' \<and> halfOpenConn oc' = Some (l @ l')
     \<and> calls_written l' = payload bs \<and> (TcpCloseWrite \<in> set l' \<longleftrightarrow> half_closed bs)"
  using assms
proof (induction bs arbitrary: oc l)
  case (Cons b bs)
  obtain oc1 l1 where 1: "SendRelay_block now b None oc = Ret oc1" "halfOpenConn oc1 = Some (l @ l1)" "sendRelayOn oc1"
    "calls_written l1 = payload [b]" "TcpCloseWrite \<in> set l1 \<longleftrightarrow> is_shutdown_write b"
    using SendRelay_block_calls [OF Cons.prems(1), of b now] Cons.prems(2,3) by auto
  obtain oc' l' where 2: "SendRelay (map (\<lambda>b. SendBlock now b None) bs) oc1 = Ret oc'" "halfOpenConn oc' = Some ((l @ l1) @ l')"
    "calls_written l' = payload bs" "TcpCloseWrite \<in> set l' \<longleftrightarrow> half_closed bs"
    using Cons.IH [OF 1(2,3)] Cons.prems(3) by auto
  show ?case
    using 1 2 Cons.prems(2) by (intro exI [of _ oc'] exI [of _ "l1 @ l'"]) auto
qed simp

text \<open>The receive loop never panics on a connected destination and keeps the invariant.\<close>
lemma RecvRelay_inv:
  assumes "out_inv oc"
  shows "\<exists>oc'. RecvRelay its oc = Ret oc' \<and> out_inv oc'"
  using assms
proof (induction its arbitrary: oc)
  case (Cons it its)
  then obtain oc1 where "RecvRelay [it] oc = Ret oc1" "out_inv oc1"
    using out_step_inv [of oc "EvRecv it"] by auto
  with Cons.IH [of oc1] Cons.prems show ?case by (cases "recvRelayOn oc") (auto split: outcome.splits)
qed simp

text \<open>The receive loop keeps the ID of its connection.\<close>
lemma connectionID_sendData [simp]: "connectionID (sendData now dat c) = connectionID c"
  by (rule sendData_blocks [of now dat c]) (metis (no_types, lifting) baseConnection.ext_inject baseConnection.surjective baseConnection.update_convs(1,4))

lemma connectionID_recv_remaining: "connectionID (recv_remaining i rs now oc) = connectionID oc"
  by (induction i rs now oc rule: recv_remaining.induct) (auto split: rd_result.splits)

lemma connectionID_closeOnce: "closeThenCancelWithOnceSend now oc = Ret oc' \<Longrightarrow> connectionID oc' = connectionID oc"
  by (auto simp: closeThenCancelWithOnceSend_def tcp_def SendDisconnect_def packDisconnect_def Stop_def Let_def
      split: option.splits outcome.splits if_splits)

lemma connectionID_RecvRelay: "RecvRelay its oc = Ret oc' \<Longrightarrow> connectionID oc' = connectionID oc"
proof (induction its arbitrary: oc)
  case (Cons it its)
  have "connectionID oc1 = connectionID oc" if "RecvRelay_iter it oc = Ret oc1" for oc1
    using that connectionID_closeOnce [of "iter_now it 0" oc]
    by (auto simp: RecvRelay_iter_def Let_def connectionID_recv_remaining split: if_splits rd_result.splits outcome.splits)
  with Cons show ?case by (fastforce split: if_splits outcome.splits)
qed simp

end
