(* ===== verification/Session.thy ===== *)
theory Session
  imports Inbound Outbound
begin

text \<open>
  One application's session on the client, \<open>biRelay\<close> and \<open>relay\<close> of \<open>client/client.go\<close>: two
  goroutines copy between the application's connection and the connection to the tunnels, in
  either direction, with \<open>io.Copy\<close>; when both have ended, both connections are closed. Every read of
  either goroutine, every block that the reordering stage puts on the ordered queue meanwhile, and
  the end of \<open>biRelay\<close> is an event; a list of events is an interleaving. The application's
  connection is the log of the calls on it; what its reads and writes give is part of the event.
  An event that cannot happen in a state (its goroutine has ended, its call has not returned) has
  no successor state.
\<close>

section \<open>State and steps\<close>

record session =
  ss_conn :: InboundConnection
  ss_app :: "tcp_call list"
  ss_up :: bool
  ss_down :: bool
  ss_ended :: bool

definition start_session :: "InboundConnection \<Rightarrow> session" where
  "start_session c = \<lparr>ss_conn = c, ss_app = [], ss_up = True, ss_down = True, ss_ended = False\<rparr>"

text \<open>A read of the tunnel's connection: its fuel, its choices in the selects, and the time.\<close>
record read_call =
  rc_fuel :: nat
  rc_fire :: "nat \<Rightarrow> bool"
  rc_now :: i64

datatype session_event =
    UpRead "nat \<Rightarrow> i64" i64 rd_result
  | DownRead read_call i64 "nat option"
  | Arrive block
  | Finish i64

text \<open>The buffer of \<open>io.Copy\<close>.\<close>
definition copyBufferSize :: nat where "copyBufferSize = 32 * 1024"

text \<open>The end of \<open>relay\<close>: after an error both ends are closed, otherwise the direction is.\<close>
definition relay_up_end :: "i64 \<Rightarrow> bool \<Rightarrow> session \<Rightarrow> session outcome" where
  "relay_up_end now failed s =
     (if failed
      then (case Close now (SetDeadline now (ss_conn s)) of
              Panic \<Rightarrow> Panic
            | Ret c \<Rightarrow> Ret (s\<lparr>ss_conn := c, ss_app := ss_app s @ [TcpClose], ss_up := False\<rparr>))
      else Ret (s\<lparr>ss_conn := CloseWrite now (ss_conn s), ss_app := ss_app s @ [TcpCloseRead], ss_up := False\<rparr>))"

definition relay_down_end :: "i64 \<Rightarrow> bool \<Rightarrow> session \<Rightarrow> session outcome" where
  "relay_down_end now failed s =
     (if failed
      then (case Close now (SetDeadline now (ss_conn s)) of
              Panic \<Rightarrow> Panic
            | Ret c \<Rightarrow> Ret (s\<lparr>ss_conn := c, ss_app := ss_app s @ [TcpClose], ss_down := False\<rparr>))
      else Ret (s\<lparr>ss_conn := CloseRead now (ss_conn s), ss_app := ss_app s @ [TcpCloseWrite], ss_down := False\<rparr>))"

text \<open>One round of \<open>io.Copy\<close> from the application to the tunnels.\<close>
definition copy_up :: "(nat \<Rightarrow> i64) \<Rightarrow> i64 \<Rightarrow> rd_result \<Rightarrow> session \<Rightarrow> session outcome" where
  "copy_up clock now r s =
     (case r of
        RdOk b \<Rightarrow>
          if b = [] then Ret s
          else (case Write clock b (ss_conn s) of
                  ((n, None), c) \<Rightarrow> Ret (s\<lparr>ss_conn := c\<rparr>)
                | ((n, Some e), c) \<Rightarrow> relay_up_end now True (s\<lparr>ss_conn := c\<rparr>))
      | RdEOF \<Rightarrow> relay_up_end now False s
      | RdTimeout \<Rightarrow> relay_up_end now True s
      | RdErr \<Rightarrow> relay_up_end now True s)"

text \<open>The other direction, after a read returned; \<open>wrote\<close> is where the write to the application failed.\<close>
definition copy_down :: "i64 \<Rightarrow> nat option \<Rightarrow> byte list \<Rightarrow> go_error option \<Rightarrow> session \<Rightarrow> session outcome" where
  "copy_down now wrote xs err s =
     (let s1 = (if xs = [] then s
                else s\<lparr>ss_app := ss_app s @ [TcpWrite (case wrote of None \<Rightarrow> xs | Some n \<Rightarrow> take n xs)]\<rparr>)
      in if xs \<noteq> [] \<and> wrote \<noteq> None then relay_down_end now True s1
         else case err of
           None \<Rightarrow> Ret s1
         | Some e \<Rightarrow> relay_down_end now (e \<noteq> EOF) s1)"

definition session_step :: "session_event \<Rightarrow> session \<Rightarrow> session outcome option" where
  "session_step e s =
     (case e of
        UpRead clock now r \<Rightarrow> if ss_up s then Some (copy_up clock now r s) else None
      | DownRead rc now wrote \<Rightarrow>
          if ss_down s
          then (case Read (rc_fuel rc) (rc_fire rc) (rc_now rc) copyBufferSize (ss_conn s) of
                  None \<Rightarrow> None
                | Some ReadBlocked \<Rightarrow> None
                | Some ReadPanics \<Rightarrow> Some Panic
                | Some (ReadReturns xs err c) \<Rightarrow> Some (copy_down now wrote xs err (s\<lparr>ss_conn := c\<rparr>)))
          else None
      | Arrive blk \<Rightarrow>
          (case chan_send blk (orderedRecvQueue (ss_conn s)) of
             Proceeds q \<Rightarrow> Some (Ret (s\<lparr>ss_conn := (ss_conn s)\<lparr>orderedRecvQueue := q\<rparr>\<rparr>))
           | Waits \<Rightarrow> None
           | Panics \<Rightarrow> Some Panic)
      | Finish now \<Rightarrow>
          if ss_up s \<or> ss_down s \<or> ss_ended s then None
          else Some (case Close now (ss_conn s) of
                       Panic \<Rightarrow> Panic
                     | Ret c \<Rightarrow> Ret (s\<lparr>ss_conn := c, ss_app := ss_app s @ [TcpClose], ss_ended := True\<rparr>)))"

text \<open>\<open>None\<close> when some event of the list cannot happen.\<close>
fun biRelay :: "session_event list \<Rightarrow> session \<Rightarrow> session outcome option" where
  "biRelay [] s = Some (Ret s)"
| "biRelay (e # es) s =
     (case session_step e s of
        None \<Rightarrow> None
      | Some Panic \<Rightarrow> Some Panic
      | Some (Ret s1) \<Rightarrow> biRelay es s1)"

section \<open>What the events bring\<close>

text \<open>The bytes the application has sent, and the blocks that have arrived for it.\<close>
fun app_sent :: "session_event list \<Rightarrow> byte list" where
  "app_sent [] = []"
| "app_sent (UpRead clock now (RdOk b) # es) = b @ app_sent es"
| "app_sent (_ # es) = app_sent es"

fun arrived :: "session_event list \<Rightarrow> block list" where
  "arrived [] = []"
| "arrived (Arrive b # es) = b # arrived es"
| "arrived (_ # es) = arrived es"

section \<open>What a read keeps\<close>

definition read_kept :: "InboundConnection \<Rightarrow> InboundConnection \<Rightarrow> bool" where
  "read_kept c c' \<longleftrightarrow>
     sendq c' = sendq c \<and> bproc c' = bproc c \<and> connectionID c' = connectionID c \<and> recvQueue c' = recvQueue c
   \<and> ctxDone c' = ctxDone c
   \<and> chclosed (orderedRecvQueue c') = chclosed (orderedRecvQueue c) \<and> (closed c \<longrightarrow> closed c')
   \<and> (no_empty_disconnect (chq (orderedRecvQueue c)) \<longrightarrow> no_empty_disconnect (chq (orderedRecvQueue c')))"

definition kept_result :: "InboundConnection \<Rightarrow> read_result \<Rightarrow> bool" where
  "kept_result c r \<longleftrightarrow>
     (case r of
        ReadReturns xs err c' \<Rightarrow> read_kept c c'
      | ReadBlocked \<Rightarrow> True
      | ReadPanics \<Rightarrow> \<not> no_empty_disconnect (chq (orderedRecvQueue c)))"

lemma read_kept_refl [simp]: "read_kept c c"
  by (simp add: read_kept_def)

lemma read_kept_trans: "read_kept c c1 \<Longrightarrow> read_kept c1 c2 \<Longrightarrow> read_kept c c2"
  by (simp add: read_kept_def)

lemma kept_result_simps [simp]:
  "kept_result c (ReadReturns xs err c') = read_kept c c'" "kept_result c ReadBlocked"
  "kept_result c ReadPanics = (\<not> no_empty_disconnect (chq (orderedRecvQueue c)))"
  by (simp_all add: kept_result_def)

lemma kept_result_trans: "read_kept c c1 \<Longrightarrow> kept_result c1 r \<Longrightarrow> kept_result c r"
  by (cases r) (auto intro: read_kept_trans, simp add: read_kept_def)

lemma recv_ordered_kept: "recv_ordered c = Some (blk, c1) \<Longrightarrow> read_kept c c1"
  using recv_ordered_SomeD [of c blk c1]
  by (auto simp: read_kept_def recv_ordered_def split: recv_result.splits)

lemma readBlock_frame: "readBlock now blk len acc c = Ret (c', acc', err) \<Longrightarrow> read_kept c c'"
proof (cases "Type blk = TypeDisconnect")
  case True
  moreover assume "readBlock now blk len acc c = Ret (c', acc', err)"
  ultimately show ?thesis
    by (cases "BlockData blk") (auto simp: readBlock_def in_SetLastActive_def read_kept_def Let_def split: if_splits)
next
  case False
  moreover assume "readBlock now blk len acc c = Ret (c', acc', err)"
  ultimately show ?thesis
    by (cases "rb_Read (len - length acc) (OverWrite (BlockData blk) (dataBuffer c))")
      (auto simp: readBlock_def in_SetLastActive_def read_kept_def Let_def split: if_splits)
qed

lemma readBlock_kept:
  assumes "recv_ordered c = Some (blk, c1)"
  shows "readBlock now blk len acc c1 = Ret (c2, acc2, err) \<Longrightarrow> read_kept c c2"
    and "readBlock now blk len acc c1 = Panic \<Longrightarrow> \<not> no_empty_disconnect (chq (orderedRecvQueue c))"
proof -
  show "read_kept c c2" if "readBlock now blk len acc c1 = Ret (c2, acc2, err)"
    using recv_ordered_kept [OF assms] readBlock_frame [OF that] by (rule read_kept_trans)
  show "\<not> no_empty_disconnect (chq (orderedRecvQueue c))" if "readBlock now blk len acc c1 = Panic"
  proof -
    have "Type blk = TypeDisconnect \<and> BlockData blk = []"
      using that by (auto simp: readBlock_def Let_def split: if_splits list.splits prod.splits)
    with recv_ordered_SomeD(6) [OF assms] show ?thesis by blast
  qed
qed

lemma Read_rest_kept: "Read_rest fuel now len acc c = Some r \<Longrightarrow> kept_result c r"
proof (induction fuel now len acc c rule: Read_rest.induct)
  case (2 fuel now len acc c)
  show ?case
  proof (cases "recv_ordered c")
    case None
    with "2.prems" show ?thesis by (auto split: if_splits)
  next
    case (Some p)
    then obtain blk c1 where rc: "recv_ordered c = Some (blk, c1)" by (cases p) auto
    show ?thesis
    proof (cases "readBlock now blk len acc c1")
      case Panic
      with "2.prems" rc readBlock_kept(2) [OF rc] show ?thesis by auto
    next
      case (Ret q)
      then obtain c2 acc2 err where rb: "readBlock now blk len acc c1 = Ret (c2, acc2, err)" by (cases q) auto
      have "kept_result c2 r"
        using "2.prems" rc rb "2.IH" [OF rc refl rb refl refl] by (auto split: if_splits)
      with readBlock_kept(1) [OF rc rb] show ?thesis by (rule kept_result_trans)
    qed
  qed
qed simp

lemma Read_more_kept: "Read_more fuel fire k now len acc c = Some r \<Longrightarrow> kept_result c r"
proof (induction fuel fire k now len acc c rule: Read_more.induct)
  case (2 fuel fire k now len acc c)
  show ?case
  proof (cases "fire k \<or> recv_ordered c = None")
    case True
    with "2.prems" show ?thesis by (auto split: if_splits)
  next
    case False
    then obtain blk c1 where nf: "\<not> fire k" and rc: "recv_ordered c = Some (blk, c1)" by auto
    show ?thesis
    proof (cases "readBlock now blk len acc c1")
      case Panic
      with "2.prems" nf rc readBlock_kept(2) [OF rc] show ?thesis by auto
    next
      case (Ret q)
      then obtain c2 acc2 err where rb: "readBlock now blk len acc c1 = Ret (c2, acc2, err)" by (cases q) auto
      have "kept_result c2 r"
        using "2.prems" nf rc rb "2.IH" [OF nf rc refl rb refl refl] by (auto split: if_splits)
      with readBlock_kept(1) [OF rc rb] show ?thesis by (rule kept_result_trans)
    qed
  qed
qed simp

lemma Read_queue_kept:
  assumes "Read_queue fuel fire now len acc c = Some r"
  shows "kept_result c r"
proof (cases "closed c \<or> readClosed c \<or> acc \<noteq> [] \<or> fire 0 \<or> recv_ordered c = None")
  case True
  with assms show ?thesis
    by (auto simp: Read_queue_def intro: Read_rest_kept Read_more_kept split: if_splits)
next
  case False
  then obtain blk c1 where rc: "recv_ordered c = Some (blk, c1)" by auto
  show ?thesis
  proof (cases "readBlock now blk len acc c1")
    case Panic
    with assms False rc readBlock_kept(2) [OF rc] show ?thesis by (auto simp: Read_queue_def)
  next
    case (Ret q)
    then obtain c2 acc2 err where rb: "readBlock now blk len acc c1 = Ret (c2, acc2, err)" by (cases q) auto
    have "kept_result c2 r"
      using assms False rc rb by (auto simp: Read_queue_def intro: Read_more_kept split: if_splits)
    with readBlock_kept(1) [OF rc rb] show ?thesis by (rule kept_result_trans)
  qed
qed

lemma Read_kept:
  assumes "Read fuel fire now len c = Some r"
  shows "kept_result c r"
proof (cases "rb_Empty (dataBuffer c)")
  case True
  with assms show ?thesis by (auto simp: Read_def intro: Read_queue_kept)
next
  case False
  obtain acc rb where "rb_Read len (dataBuffer c) = (acc, rb)" by fastforce
  moreover have "read_kept c (c\<lparr>dataBuffer := rb\<rparr>)" by (simp add: read_kept_def)
  ultimately show ?thesis
    using assms False kept_result_trans [OF _ Read_queue_kept] by (auto simp: Read_def split: if_splits)
qed

section \<open>The invariant of a session\<close>

text \<open>The connection can be closed without a panic, and has ended the stream at most once.\<close>
definition conn_ok :: "InboundConnection \<Rightarrow> bool" where
  "conn_ok c \<longleftrightarrow> sent_numbered c \<and> rb_invar (dataBuffer c)
     \<and> no_empty_disconnect (chq (orderedRecvQueue c)) \<and> no_empty_disconnect (sendq c)
     \<and> (closed c \<or> \<not> chclosed (recvQueue c) \<and> \<not> chclosed (orderedRecvQueue c))
     \<and> shutdowns (sendq c) \<le> (if closed c then 1 else 0)"

text \<open>
  Upload: the blocks carry what the application has sent, all of it as long as the goroutine runs,
  and also when the end of the stream has been announced, which happens after the last byte.
\<close>
definition up_inv :: "byte list \<Rightarrow> bool \<Rightarrow> block list \<Rightarrow> bool" where
  "up_inv up running bs \<longleftrightarrow> prefix (payload bs) up \<and> (running \<or> half_closed bs \<longrightarrow> payload bs = up)
     \<and> (running \<longrightarrow> \<not> half_closed bs)
     \<and> (\<forall>pre b post. bs = pre @ b # post \<and> is_shutdown_write b \<longrightarrow> payload post = [])"

text \<open>Download: the application gets what arrives; what it has not got while the goroutine runs is unread.\<close>
definition down_inv :: "block list \<Rightarrow> bool \<Rightarrow> tcp_call list \<Rightarrow> InboundConnection \<Rightarrow> bool" where
  "down_inv arr running app c \<longleftrightarrow> prefix (calls_written app) (payload arr)
     \<and> (running \<longrightarrow> calls_written app @ unread c = payload arr)"

definition sess_inv :: "byte list \<Rightarrow> block list \<Rightarrow> session \<Rightarrow> bool" where
  "sess_inv up arr s \<longleftrightarrow> conn_ok (ss_conn s) \<and> up_inv up (ss_up s) (sendq (ss_conn s))
     \<and> down_inv arr (ss_down s) (ss_app s) (ss_conn s)
     \<and> (ss_ended s \<longrightarrow> \<not> ss_up s \<and> \<not> ss_down s \<and> closed (ss_conn s) \<and> ctxDone (ss_conn s) \<and> TcpClose \<in> set (ss_app s))"

lemma up_inv_append:
  assumes "up_inv up running bs" "payload cs = []" "half_closed cs \<longrightarrow> payload bs = up"
    and "running' \<longrightarrow> running \<and> \<not> half_closed cs"
  shows "up_inv up running' (bs @ cs)"
proof -
  have "payload post = []" if post: "bs @ cs = pre @ b # post" "is_shutdown_write b" for pre b post
  proof -
    consider us where "pre = bs @ us" "cs = us @ b # post" | us where "bs = pre @ b # us" "post = us @ cs"
      using post(1) by (auto simp: append_eq_append_conv2 append_eq_Cons_conv Cons_eq_append_conv)
    then show ?thesis
    proof cases
      case 1
      with assms(2) show ?thesis by (metis append_is_Nil_conv payload_simps(2,3))
    next
      case 2
      with assms(1,2) post(2) show ?thesis by (simp add: up_inv_def)
    qed
  qed
  with assms show ?thesis by (auto simp: up_inv_def)
qed

lemma up_inv_data:
  assumes "up_inv up True bs" "\<not> half_closed cs" "payload cs = dat"
  shows "up_inv (up @ dat) True (bs @ cs)"
proof -
  have "\<not> half_closed (bs @ cs)" using assms(1,2) by (simp add: up_inv_def)
  then have "\<not> is_shutdown_write b" if "bs @ cs = pre @ b # post" for pre b post
    using that by (auto simp: half_closed_def)
  with assms show ?thesis by (auto simp: up_inv_def)
qed

lemma up_inv_lost: "up_inv up True bs \<Longrightarrow> up_inv (up @ dat) False bs"
  by (auto simp: up_inv_def half_closed_def)

section \<open>Steps keep the invariant\<close>

lemma SetDeadline_simps [simp]:
  "conn_ok (SetDeadline t c) = conn_ok c" "unread (SetDeadline t c) = unread c" "sendq (SetDeadline t c) = sendq c"
  by (simp_all add: conn_ok_def sent_numbered_def unread_def SetDeadline_def SetReadDeadline_def SetWriteDeadline_def)

lemma conn_ok_Close:
  assumes "conn_ok c"
  shows "\<exists>c' cs. Close now c = Ret c' \<and> conn_ok c' \<and> closed c' \<and> ctxDone c'
     \<and> unread c' = unread c \<and> sendq c' = sendq c @ cs \<and> payload cs = [] \<and> \<not> half_closed cs"
proof (cases "closed c")
  case True
  with assms show ?thesis
    by (intro exI [of _ "Stop c"] exI [of _ "[]"])
      (simp add: Close_def Stop_def conn_ok_def sent_numbered_def unread_def)
next
  case False
  let ?b = "NewDisconnectBlock now (connectionID c) (sendBlockID (bproc c)) ShutdownBoth"
  let ?c1 = "SendDisconnect now ShutdownBoth (c\<lparr>closed := True\<rparr>)"
  let ?c = "(Stop ?c1)\<lparr>recvQueue := (recvQueue c)\<lparr>chclosed := True\<rparr>,
      orderedRecvQueue := (orderedRecvQueue c)\<lparr>chclosed := True\<rparr>\<rparr>"
  have open_chans: "\<not> chclosed (recvQueue c)" "\<not> chclosed (orderedRecvQueue c)"
    using assms False by (simp_all add: conn_ok_def)
  have sq: "sendq ?c1 = sendq c @ [?b]" by (simp add: SendDisconnect_def packDisconnect_def Stop_def)
  have num: "sent_numbered ?c1" using assms by (intro SendDisconnect_numbered) (simp add: conn_ok_def)
  have "Close now c = Ret ?c"
    using False open_chans by (simp add: Close_def chan_close_def Stop_def SendDisconnect_def packDisconnect_def Let_def)
  moreover have "conn_ok ?c"
    using assms False num sq
    by (simp add: conn_ok_def sent_numbered_def Stop_def) (simp add: SendDisconnect_def packDisconnect_def Stop_def)
  moreover have "payload [?b] = []" by (simp add: NewDisconnectBlock_def)
  ultimately show ?thesis
    using sq by (intro exI [of _ ?c] exI [of _ "[?b]"])
      (simp add: Stop_def unread_def SendDisconnect_def packDisconnect_def Let_def)
qed

lemma conn_ok_SendDisconnect:
  assumes "conn_ok c" "k \<noteq> ShutdownBoth"
  shows "conn_ok (SendDisconnect now k c)" "unread (SendDisconnect now k c) = unread c"
    "sendq (SendDisconnect now k c) = sendq c @ [NewDisconnectBlock now (connectionID c) (sendBlockID (bproc c)) k]"
    "payload [NewDisconnectBlock now (connectionID c) (sendBlockID (bproc c)) k] = []"
proof -
  show sq: "sendq (SendDisconnect now k c) = sendq c @ [NewDisconnectBlock now (connectionID c) (sendBlockID (bproc c)) k]"
    by (simp add: SendDisconnect_def packDisconnect_def Stop_def Let_def)
  have "sent_numbered (SendDisconnect now k c)"
    using assms(1) by (intro SendDisconnect_numbered) (simp add: conn_ok_def)
  then show "conn_ok (SendDisconnect now k c)"
    using assms sq by (simp add: conn_ok_def) (simp add: SendDisconnect_def packDisconnect_def Let_def)
qed (simp_all add: SendDisconnect_def packDisconnect_def unread_def Stop_def Let_def NewDisconnectBlock_def)

lemma down_inv_cong:
  "down_inv arr run app c \<Longrightarrow> unread c' = unread c \<Longrightarrow> calls_written app' = calls_written app
     \<Longrightarrow> run' \<longrightarrow> run \<Longrightarrow> down_inv arr run' app' c'"
  by (simp add: down_inv_def)

text \<open>A step that only adds control blocks, and reads and writes no byte.\<close>
lemma sess_inv_control:
  assumes "sess_inv up arr s" "\<not> ss_ended s"
    and "conn_ok c'" "unread c' = unread (ss_conn s)" "sendq c' = sendq (ss_conn s) @ cs" "payload cs = []"
    and "half_closed cs \<longrightarrow> payload (sendq (ss_conn s)) = up" "u \<longrightarrow> ss_up s \<and> \<not> half_closed cs" "d \<longrightarrow> ss_down s"
    and "calls_written l = []"
  shows "sess_inv up arr (s\<lparr>ss_conn := c', ss_app := ss_app s @ l, ss_up := u, ss_down := d\<rparr>)"
proof -
  note inv = assms(1) [unfolded sess_inv_def]
  have "up_inv up u (sendq c')"
    unfolding assms(5) using inv up_inv_append [OF _ assms(6-8)] by blast
  moreover have "down_inv arr d (ss_app s @ l) c'"
    using inv assms(4,9,10) by (auto simp: down_inv_def)
  ultimately show ?thesis using assms(2,3) by (simp add: sess_inv_def)
qed

lemma relay_up_end_inv:
  assumes "sess_inv up arr s" "\<not> ss_ended s" "\<not> failed \<longrightarrow> payload (sendq (ss_conn s)) = up"
  shows "\<exists>s'. relay_up_end now failed s = Ret s' \<and> sess_inv up arr s'"
proof -
  have ok: "conn_ok (ss_conn s)" using assms(1) by (simp add: sess_inv_def)
  show ?thesis
  proof (cases failed)
    case True
    from conn_ok_Close [of "SetDeadline now (ss_conn s)" now] ok obtain c' cs where
      c': "Close now (SetDeadline now (ss_conn s)) = Ret c'" "conn_ok c'" "unread c' = unread (ss_conn s)"
        "sendq c' = sendq (ss_conn s) @ cs" "payload cs = []" "\<not> half_closed cs" by auto
    from sess_inv_control [OF assms(1,2) c'(2-5), of False "ss_down s" "[TcpClose]"] c'(1,6) True
    show ?thesis by (simp add: relay_up_end_def)
  next
    case False
    note d = conn_ok_SendDisconnect [OF ok, of ShutdownWrite now]
    from sess_inv_control [OF assms(1,2) d, of False "ss_down s" "[TcpCloseRead]"] assms(3) False
    show ?thesis by (simp add: relay_up_end_def CloseWrite_def)
  qed
qed

lemma relay_down_end_inv:
  assumes "sess_inv up arr s" "\<not> ss_ended s"
  shows "\<exists>s'. relay_down_end now failed s = Ret s' \<and> sess_inv up arr s'"
proof -
  have ok: "conn_ok (ss_conn s)" using assms(1) by (simp add: sess_inv_def)
  show ?thesis
  proof (cases failed)
    case True
    from conn_ok_Close [of "SetDeadline now (ss_conn s)" now] ok obtain c' cs where
      c': "Close now (SetDeadline now (ss_conn s)) = Ret c'" "conn_ok c'" "unread c' = unread (ss_conn s)"
        "sendq c' = sendq (ss_conn s) @ cs" "payload cs = []" "\<not> half_closed cs" by auto
    from sess_inv_control [OF assms(1,2) c'(2-5), of "ss_up s" False "[TcpClose]"] c'(1,6) True
    show ?thesis by (simp add: relay_down_end_def)
  next
    case False
    note d = conn_ok_SendDisconnect [OF ok, of ShutdownRead now]
    from sess_inv_control [OF assms(1,2) d, of "ss_up s" False "[TcpCloseWrite]"] False
    show ?thesis by (simp add: relay_down_end_def CloseRead_def)
  qed
qed

lemma Write_inv:
  assumes "conn_ok c" "Write clock b c = ((n, err), c')"
  shows "err = None \<Longrightarrow> conn_ok c' \<and> unread c' = unread c
      \<and> (\<exists>cs. sendq c' = sendq c @ cs \<and> payload cs = b \<and> \<not> half_closed cs)"
    and "err \<noteq> None \<Longrightarrow> c' = c"
proof -
  show "c' = c" if "err \<noteq> None" using assms(2) that by (auto simp: Write_def Let_def split: if_splits)
  assume "err = None"
  then have c': "c' = (sendData clock b c)\<lparr>SentBytes := SentBytes (sendData clock b c) + of_nat (length b)\<rparr>"
    using assms(2) by (auto simp: Write_def Let_def split: if_splits)
  obtain cs where cs: "sendq (sendData clock b c) = sendq c @ cs" "data_blocks_for (connectionID c) (sendBlockID (bproc c)) b cs"
    "sendData clock b c = c\<lparr>bproc := (bproc c)\<lparr>sendBlockID := sendBlockID (bproc c) + of_nat (length cs)\<rparr>, sendq := sendq c @ cs\<rparr>"
    by (rule sendData_blocks)
  have "payload cs = b" using sendData_payload [of clock b c] cs(1) by simp
  moreover have "\<not> half_closed cs" "shutdowns cs = 0" "no_empty_disconnect cs"
    using cs(2) by (rule half_closed_data shutdowns_data no_empty_disconnect_data)+
  moreover have "sent_numbered (sendData clock b c)"
    using assms(1) by (intro sendData_numbered) (simp add: conn_ok_def)
  ultimately show "conn_ok c' \<and> unread c' = unread c \<and> (\<exists>cs. sendq c' = sendq c @ cs \<and> payload cs = b \<and> \<not> half_closed cs)"
    using assms(1) c' cs by (auto simp: conn_ok_def unread_def)
qed

lemma copy_up_inv:
  assumes "sess_inv up arr s" "ss_up s"
  shows "\<exists>s'. copy_up clock now r s = Ret s' \<and> sess_inv (up @ app_sent [UpRead clock now r]) arr s'"
proof (cases r)
  case (RdOk b)
  note inv = assms(1) [unfolded sess_inv_def]
  obtain n err c where w: "Write clock b (ss_conn s) = ((n, err), c)" by (metis prod.collapse)
  show ?thesis
  proof (cases "b = [] \<or> err = None")
    case True
    with RdOk inv assms Write_inv(1) [OF _ w] w show ?thesis
      by (cases "b = []") (auto simp: copy_up_def sess_inv_def intro: up_inv_data down_inv_cong)
  next
    case False
    have "sess_inv (up @ b) arr (s\<lparr>ss_up := False\<rparr>)"
      using inv assms(2) up_inv_lost by (auto simp: sess_inv_def)
    then obtain s' where "relay_up_end now True (s\<lparr>ss_up := False\<rparr>) = Ret s'" "sess_inv (up @ b) arr s'"
      using relay_up_end_inv [of "up @ b" arr "s\<lparr>ss_up := False\<rparr>" True now] inv assms(2) by auto
    moreover have "relay_up_end now True (s\<lparr>ss_up := False\<rparr>) = relay_up_end now True s"
      by (simp add: relay_up_end_def split: outcome.split)
    ultimately show ?thesis
      using RdOk False w Write_inv(2) [OF _ w] inv by (cases err) (auto simp: copy_up_def)
  qed
qed (use assms relay_up_end_inv [of up arr s _ now] in \<open>auto simp: copy_up_def sess_inv_def up_inv_def\<close>)

lemma Read_stream_kept:
  assumes "Read fuel fire now len c = Some (ReadReturns xs err c')" "conn_ok c"
  shows "unread c = xs @ unread c'" "rb_invar (dataBuffer c')" "read_kept c c'"
  using Read_ok [OF assms(1)] Read_kept [OF assms(1)] assms(2) by (auto simp: read_ok_def conn_ok_def)

lemma read_kept_conn_ok: "read_kept c c' \<Longrightarrow> conn_ok c \<Longrightarrow> rb_invar (dataBuffer c') \<Longrightarrow> conn_ok c'"
  by (auto simp: read_kept_def conn_ok_def sent_numbered_def split: if_splits)

text \<open>The write that \<open>io.Copy\<close> makes of what it read.\<close>
lemma sess_inv_download:
  assumes "sess_inv up arr s" "ss_down s" "\<not> ss_ended s"
    and "unread (ss_conn s) = xs @ unread c'" "read_kept (ss_conn s) c'" "rb_invar (dataBuffer c')"
    and "prefix ys xs" "d \<longrightarrow> ys = xs"
  shows "sess_inv up arr (s\<lparr>ss_conn := c', ss_app := ss_app s @ (if xs = [] then [] else [TcpWrite ys]), ss_down := d\<rparr>)"
proof -
  note inv = assms(1) [unfolded sess_inv_def]
  have pl: "payload arr = calls_written (ss_app s) @ xs @ unread c'"
    using inv assms(2,4) by (simp add: down_inv_def)
  have "down_inv arr d (ss_app s @ (if xs = [] then [] else [TcpWrite ys])) c'"
    using assms(7,8) by (auto simp: down_inv_def pl prefix_def)
  moreover have "conn_ok c'" using inv assms(5,6) by (auto intro: read_kept_conn_ok)
  ultimately show ?thesis using inv assms(3,5) by (simp add: sess_inv_def read_kept_def)
qed

lemma copy_down_inv:
  assumes "sess_inv up arr s" "ss_down s"
    and "Read fuel fire now' copyBufferSize (ss_conn s) = Some (ReadReturns xs err c')"
  shows "\<exists>s'. copy_down now wrote xs err (s\<lparr>ss_conn := c'\<rparr>) = Ret s' \<and> sess_inv up arr s'"
proof -
  have run: "\<not> ss_ended s" and ok: "conn_ok (ss_conn s)" using assms(1,2) by (auto simp: sess_inv_def)
  note r = Read_stream_kept [OF assms(3) ok]
  define ys where "ys = (case wrote of None \<Rightarrow> xs | Some n \<Rightarrow> take n xs)"
  define s1 where "s1 = s\<lparr>ss_conn := c', ss_app := ss_app s @ (if xs = [] then [] else [TcpWrite ys])\<rparr>"
  have ys: "prefix ys xs" by (simp add: ys_def take_is_prefix split: option.split)
  have s1: "s1 = s1\<lparr>ss_down := True\<rparr>" using assms(2) by (cases s) (simp add: s1_def)
  have full: "sess_inv up arr s1" if "ys = xs"
    using sess_inv_download [OF assms(1,2) run r(1,3,2) ys, of True] that by (subst s1) (simp add: s1_def)
  have "sess_inv up arr (s1\<lparr>ss_down := False\<rparr>)"
    using sess_inv_download [OF assms(1,2) run r(1,3,2) ys, of False] by (simp add: s1_def)
  moreover have "relay_down_end now b (s1\<lparr>ss_down := False\<rparr>) = relay_down_end now b s1" for b
    by (simp add: relay_down_end_def split: outcome.split)
  ultimately have ended: "\<exists>s'. relay_down_end now b s1 = Ret s' \<and> sess_inv up arr s'" for b
    using relay_down_end_inv [of up arr "s1\<lparr>ss_down := False\<rparr>" now b] run by (simp add: s1_def)
  have "copy_down now wrote xs err (s\<lparr>ss_conn := c'\<rparr>) =
      (if xs \<noteq> [] \<and> wrote \<noteq> None then relay_down_end now True s1
       else case err of None \<Rightarrow> Ret s1 | Some e \<Rightarrow> relay_down_end now (e \<noteq> EOF) s1)"
    unfolding copy_down_def s1_def ys_def Let_def by (cases s) (simp split: option.split)
  moreover have "ys = xs" if "\<not> (xs \<noteq> [] \<and> wrote \<noteq> None)" using that by (auto simp: ys_def split: option.split)
  ultimately show ?thesis using full ended by (auto split: option.split)
qed

text \<open>What \<open>biRelay\<close> needs of a block that arrives: the ordered queue is open, and a disconnect block has a kind.\<close>
definition arrival_ok :: "session_event \<Rightarrow> session \<Rightarrow> bool" where
  "arrival_ok e s \<longleftrightarrow> (\<forall>b. e = Arrive b \<longrightarrow> \<not> chclosed (orderedRecvQueue (ss_conn s)) \<and> no_empty_disconnect [b])"

lemma Arrive_inv:
  assumes "sess_inv up arr s" "chan_send b (orderedRecvQueue (ss_conn s)) = Proceeds q" "no_empty_disconnect [b]"
  shows "sess_inv up (arr @ [b]) (s\<lparr>ss_conn := (ss_conn s)\<lparr>orderedRecvQueue := q\<rparr>\<rparr>)"
proof -
  have "chq q = chq (orderedRecvQueue (ss_conn s)) @ [b]" "chclosed q = chclosed (orderedRecvQueue (ss_conn s))"
    using assms(2) by (auto simp: chan_send_def split: if_splits)
  then show ?thesis
    using assms(1,3)
    by (auto simp: sess_inv_def conn_ok_def down_inv_def sent_numbered_def no_empty_disconnect_def unread_def prefix_def)
qed

lemma session_step_inv:
  assumes "sess_inv up arr s" "session_step e s = Some r" "arrival_ok e s"
  shows "\<exists>s'. r = Ret s' \<and> sess_inv (up @ app_sent [e]) (arr @ arrived [e]) s'"
proof (cases e)
  case (UpRead clock now rd)
  with assms copy_up_inv [OF assms(1)] show ?thesis by (auto simp: session_step_def split: if_splits)
next
  case (DownRead rc now wrote)
  have down: "ss_down s" and some: "Read (rc_fuel rc) (rc_fire rc) (rc_now rc) copyBufferSize (ss_conn s) \<noteq> None"
    using assms(2) DownRead by (auto simp: session_step_def split: if_splits option.splits)
  then obtain rr where rr: "Read (rc_fuel rc) (rc_fire rc) (rc_now rc) copyBufferSize (ss_conn s) = Some rr" by blast
  have "rr \<noteq> ReadPanics"
    using Read_kept [OF rr] assms(1) by (auto simp: sess_inv_def conn_ok_def)
  with rr down assms(2) DownRead copy_down_inv [OF assms(1) down] show ?thesis
    by (auto simp: session_step_def split: read_result.splits)
next
  case (Arrive b)
  with assms Arrive_inv [OF assms(1)] show ?thesis
    by (cases "chan_send b (orderedRecvQueue (ss_conn s))") (auto simp: session_step_def arrival_ok_def chan_send_def split: if_splits)
next
  case (Finish now)
  have stopped: "\<not> ss_up s" "\<not> ss_down s" "\<not> ss_ended s"
    using assms(2) Finish by (auto simp: session_step_def split: if_splits)
  have ok: "conn_ok (ss_conn s)" using assms(1) by (simp add: sess_inv_def)
  from conn_ok_Close [OF ok, of now] obtain c' cs where
    c': "Close now (ss_conn s) = Ret c'" "conn_ok c'" "closed c'" "ctxDone c'" "unread c' = unread (ss_conn s)"
      "sendq c' = sendq (ss_conn s) @ cs" "payload cs = []" "\<not> half_closed cs" by blast
  have "sess_inv up arr (s\<lparr>ss_conn := c', ss_app := ss_app s @ [TcpClose], ss_up := False, ss_down := False\<rparr>)"
    using sess_inv_control [OF assms(1) stopped(3) c'(2,5-7), of False False "[TcpClose]"] c'(8) by simp
  with stopped c' Finish assms(2) show ?thesis by (auto simp: session_step_def sess_inv_def)
qed

section \<open>Whole sessions\<close>

lemma app_sent_Cons: "app_sent (e # es) = app_sent [e] @ app_sent es"
  by (cases e; cases "case e of UpRead _ _ r \<Rightarrow> r | _ \<Rightarrow> RdEOF") auto

lemma arrived_Cons: "arrived (e # es) = arrived [e] @ arrived es"
  by (cases e) auto

text \<open>An arrival on the ordered queue after \<open>Close\<close> has closed it: the send panics.\<close>
definition late_arrival :: "session_event list \<Rightarrow> session \<Rightarrow> bool" where
  "late_arrival es s \<longleftrightarrow>
     (\<exists>es1 b es2 s1. es = es1 @ Arrive b # es2 \<and> biRelay es1 s = Some (Ret s1) \<and> chclosed (orderedRecvQueue (ss_conn s1)))"

lemma late_arrival_Cons:
  assumes "session_step e s = Some (Ret s1)" "late_arrival es s1"
  shows "late_arrival (e # es) s"
proof -
  obtain es1 b es2 s2 where "es = es1 @ Arrive b # es2" "biRelay es1 s1 = Some (Ret s2)"
    "chclosed (orderedRecvQueue (ss_conn s2))"
    using assms(2) by (auto simp: late_arrival_def)
  then show ?thesis
    unfolding late_arrival_def using assms(1) by (intro exI [of _ "e # es1"] exI [of _ b] exI [of _ es2] exI [of _ s2]) simp
qed

lemma biRelay_inv:
  assumes "sess_inv up arr s" "biRelay es s = Some r" "no_empty_disconnect (arrived es)"
  shows "case r of Panic \<Rightarrow> late_arrival es s | Ret s' \<Rightarrow> sess_inv (up @ app_sent es) (arr @ arrived es) s'"
  using assms
proof (induction es arbitrary: up arr s)
  case Nil
  then show ?case by auto
next
  case (Cons e es)
  obtain r1 where r1: "session_step e s = Some r1" using Cons.prems(2) by (auto split: option.splits)
  have ned: "no_empty_disconnect (arrived [e])" "no_empty_disconnect (arrived es)"
    using Cons.prems(3) by (subst (asm) arrived_Cons, auto simp: no_empty_disconnect_def)+
  show ?case
  proof (cases "arrival_ok e s")
    case True
    obtain s1 where s1: "r1 = Ret s1" "sess_inv (up @ app_sent [e]) (arr @ arrived [e]) s1"
      using session_step_inv [OF Cons.prems(1) r1 True] by blast
    then have rest: "biRelay es s1 = Some r" using Cons.prems(2) r1 by simp
    from Cons.IH [OF s1(2) rest ned(2)] late_arrival_Cons [of e s s1 es] r1 s1(1) show ?thesis
      by (subst app_sent_Cons, subst arrived_Cons) (simp split: outcome.splits)
  next
    case False
    then obtain b where b: "e = Arrive b" "chclosed (orderedRecvQueue (ss_conn s))"
      using ned(1) by (auto simp: arrival_ok_def)
    then have "session_step e s = Some Panic" by (simp add: session_step_def chan_send_def)
    with Cons.prems(2) have "r = Panic" by simp
    moreover have "late_arrival (e # es) s"
      unfolding late_arrival_def b(1) using b(2) by (intro exI [of _ "[]"] exI [of _ b] exI [of _ es] exI [of _ s]) simp
    ultimately show ?thesis by simp
  qed
qed

lemma start_session_inv:
  assumes "conn_ok c" "payload (sendq c) = []" "\<not> half_closed (sendq c)" "unread c = []"
  shows "sess_inv [] [] (start_session c)"
proof -
  have "\<not> (sendq c = pre @ b # post \<and> is_shutdown_write b)" for pre b post
    using assms(3) by auto
  with assms show ?thesis unfolding sess_inv_def start_session_def up_inv_def down_inv_def by auto
qed

text \<open>The connection of a dial: new, with the connect block sent.\<close>
lemma dialled_session_inv:
  assumes "length addr < 2 ^ 32"
  shows "sess_inv [] [] (start_session (SendConnect now addr (NewInboundConnection cfg now' connID)))"
proof -
  have "sent_numbered (SendConnect now addr (NewInboundConnection cfg now' connID))"
    using assms by (intro SendConnect_numbered) (simp_all add: sent_numbered_def NewInboundConnection_def newBlockProcessor_def)
  then show ?thesis
    by (intro start_session_inv)
     (simp_all add: conn_ok_def SendConnect_def packConnect_def NewInboundConnection_def newBlockProcessor_def make_chan_def
       unread_def no_empty_disconnect_def is_shutdown_write_def is_shutdown_both_def NewConnectBlock_def Let_def)
qed

text \<open>After an upload error the queue is closed for good.\<close>
definition dead_download :: "session \<Rightarrow> bool" where
  "dead_download s \<longleftrightarrow> ss_down s \<and> closed (ss_conn s) \<and> chclosed (orderedRecvQueue (ss_conn s))
     \<and> rb_invar (dataBuffer (ss_conn s)) \<and> no_empty_disconnect (chq (orderedRecvQueue (ss_conn s)))
     \<and> length (unread (ss_conn s)) < copyBufferSize"


lemma dead_download_step:
  assumes "dead_download s" "\<not> ss_up s"
  shows "session_step e s = (case e of Arrive b \<Rightarrow> Some Panic | _ \<Rightarrow> None)"
proof (cases e)
  case (DownRead rc now wrote)
  have "Read (rc_fuel rc) (rc_fire rc) (rc_now rc) copyBufferSize (ss_conn s) = None"
    using assms(1) by (intro Read_hangs) (simp_all add: dead_download_def)
  with DownRead show ?thesis by (simp add: session_step_def)
qed (use assms in \<open>auto simp: session_step_def dead_download_def chan_send_def\<close>)

lemma relay_up_end_dead:
  assumes "sess_inv up arr s" "ss_down s" "\<not> closed (ss_conn s)" "length (unread (ss_conn s)) < copyBufferSize"
    and "relay_up_end now True s = Ret s'"
  shows "dead_download s' \<and> \<not> ss_up s'"
proof -
  have op: "\<not> chclosed (recvQueue (ss_conn s))" "\<not> chclosed (orderedRecvQueue (ss_conn s))"
    using assms(1,3) by (auto simp: sess_inv_def conn_ok_def)
  have inv: "rb_invar (dataBuffer (ss_conn s))" "no_empty_disconnect (chq (orderedRecvQueue (ss_conn s)))"
    using assms(1) by (auto simp: sess_inv_def conn_ok_def)
  show ?thesis
    using assms(2-5) op inv
    by (auto simp: relay_up_end_def dead_download_def Close_def chan_close_def Stop_def SendDisconnect_def
        packDisconnect_def SetDeadline_def SetReadDeadline_def SetWriteDeadline_def unread_def Let_def)
qed

lemma biRelay_dead:
  assumes "dead_download s" "\<not> ss_up s" "biRelay es s = Some (Ret s')"
  shows "s' = s"
  using assms by (cases es) (auto simp: dead_download_step split: session_event.splits)

section \<open>Properties\<close>


text \<open>The application sends a byte and ends its stream; the peer answers with a byte and ends its own.\<close>
definition sample_session :: "session_event list" where
  "sample_session =
     [UpRead (\<lambda>_. 0) 0 (RdOk [65]), UpRead (\<lambda>_. 0) 0 RdEOF, Arrive (newDataBlock 0 7 0 [66]),
      DownRead \<lparr>rc_fuel = Suc (Suc 0), rc_fire = (\<lambda>_. False), rc_now = 0\<rparr> 0 None,
      Arrive (NewDisconnectBlock 0 7 1 ShutdownWrite),
      DownRead \<lparr>rc_fuel = Suc (Suc 0), rc_fire = (\<lambda>_. False), rc_now = 0\<rparr> 0 None, Finish 0]"

lemma sample_session_runs:
  obtains s where "biRelay sample_session (start_session (SendConnect 0 [104] (NewInboundConnection default_conn_config 0 7))) = Some (Ret s)"
    and "ss_ended s" "half_closed (sendq (ss_conn s))"
  by (simp add: sample_session_def start_session_def session_step_def copy_up_def copy_down_def relay_up_end_def
      relay_down_end_def Write_def sendData_def packData_def NewDataBlocks_single CloseWrite_def CloseRead_def
      SendDisconnect_def packDisconnect_def SendConnect_def packConnect_def NewInboundConnection_def
      newBlockProcessor_def make_chan_def default_conn_config_def chan_send_def chan_recv_def recv_ordered_def
      Read_def Read_queue_def readBlock_def in_SetLastActive_def rb_Empty_def NewByteRingBuffer_def
      copyBufferSize_def NewDisconnectBlock_def Close_def chan_close_def Stop_def Let_def DataSize_def is_shutdown_write_def)


text \<open>The reads and writes of the upload that end it with an error.\<close>
definition upload_fails :: "rd_result \<Rightarrow> session \<Rightarrow> bool" where
  "upload_fails r s \<longleftrightarrow> r = RdErr \<or> r = RdTimeout \<or> (\<exists>b. r = RdOk b \<and> b \<noteq> [] \<and> writeClosed (ss_conn s))"




section \<open>The protocol of a session\<close>

text \<open>The blocks that follow the connect block: data, never empty and within the limit, and the three ends.\<close>
definition stream_block :: "u32 \<Rightarrow> block \<Rightarrow> bool" where
  "stream_block cid b \<longleftrightarrow> wf_block b \<and> ConnectionID b = cid
     \<and> (Type b = TypeData \<and> BlockData b \<noteq> [] \<and> length (BlockData b) \<le> DataSize
        \<or> Type b = TypeDisconnect \<and> (\<exists>k\<in>{ShutdownRead, ShutdownWrite, ShutdownBoth}. BlockData b = [k]))"

definition typed_stream :: "u32 \<Rightarrow> byte list \<Rightarrow> InboundConnection \<Rightarrow> bool" where
  "typed_stream cid addr c \<longleftrightarrow> connectionID c = cid
     \<and> (\<exists>b bs. sendq c = b # bs \<and> wf_block b \<and> Type b = TypeConnect \<and> ConnectionID b = cid \<and> BlockData b = addr
          \<and> list_all (stream_block cid) bs)"

lemma typed_stream_append:
  "typed_stream cid addr c \<Longrightarrow> sendq c' = sendq c @ bs \<Longrightarrow> connectionID c' = connectionID c
     \<Longrightarrow> list_all (stream_block (connectionID c)) bs \<Longrightarrow> typed_stream cid addr c'"
  by (auto simp: typed_stream_def)

lemma stream_block_data: "data_blocks_for cid bid dat bs \<Longrightarrow> list_all (stream_block cid) bs"
  by (auto simp: data_blocks_for_def stream_block_def list_all_iff)

lemma typed_SendDisconnect:
  assumes "typed_stream cid addr c" "k \<in> {ShutdownRead, ShutdownWrite, ShutdownBoth}"
  shows "typed_stream cid addr (SendDisconnect now k c)"
proof -
  let ?b = "NewDisconnectBlock now (connectionID c) (sendBlockID (bproc c)) k"
  have "Type ?b = TypeDisconnect" "ConnectionID ?b = connectionID c" by (simp_all add: NewDisconnectBlock_def)
  with assms(2) wf_NewDisconnectBlock have "stream_block (connectionID c) ?b" by (simp add: stream_block_def)
  then show ?thesis
    by (intro typed_stream_append [OF assms(1) SendDisconnect_frame(2) SendDisconnect_frame(3)]) simp
qed

lemma typed_stream_frame [simp]:
  "typed_stream cid addr (c\<lparr>closed := b\<rparr>) = typed_stream cid addr c" "typed_stream cid addr (Stop c) = typed_stream cid addr c"
  "typed_stream cid addr (c\<lparr>recvQueue := q\<rparr>) = typed_stream cid addr c"
  "typed_stream cid addr (c\<lparr>orderedRecvQueue := q'\<rparr>) = typed_stream cid addr c"
  "typed_stream cid addr (SetDeadline t c) = typed_stream cid addr c"
  by (simp_all add: typed_stream_def Stop_def SetDeadline_def SetReadDeadline_def SetWriteDeadline_def)

lemma typed_Close: "typed_stream cid addr c \<Longrightarrow> Close now c = Ret c' \<Longrightarrow> typed_stream cid addr c'"
  using typed_SendDisconnect [of cid addr "c\<lparr>closed := True\<rparr>" ShutdownBoth now]
  by (auto simp: Close_def Let_def split: if_splits outcome.splits)

lemma typed_Write:
  assumes "typed_stream cid addr c" "Write clock b c = (res, c')"
  shows "typed_stream cid addr c'"
proof -
  obtain bs where bs: "sendq (sendData clock b c) = sendq c @ bs" "data_blocks_for (connectionID c) (sendBlockID (bproc c)) b bs"
    "sendData clock b c = c\<lparr>bproc := (bproc c)\<lparr>sendBlockID := sendBlockID (bproc c) + of_nat (length bs)\<rparr>, sendq := sendq c @ bs\<rparr>"
    by (rule sendData_blocks)
  have "typed_stream cid addr (sendData clock b c)"
    by (rule typed_stream_append [OF assms(1) bs(1) _ stream_block_data [OF bs(2)]]) (simp add: bs(3))
  then have "typed_stream cid addr ((sendData clock b c)\<lparr>SentBytes := n\<rparr>)" for n by (simp add: typed_stream_def)
  with assms show ?thesis by (auto simp: Write_def Let_def split: if_splits)
qed

lemma typed_relay_up_end: "typed_stream cid addr (ss_conn s) \<Longrightarrow> relay_up_end now failed s = Ret s' \<Longrightarrow> typed_stream cid addr (ss_conn s')"
  using typed_Close [of cid addr "SetDeadline now (ss_conn s)" now] typed_SendDisconnect [of cid addr "ss_conn s" ShutdownWrite now]
  by (auto simp: relay_up_end_def CloseWrite_def split: if_splits outcome.splits)

lemma typed_relay_down_end: "typed_stream cid addr (ss_conn s) \<Longrightarrow> relay_down_end now failed s = Ret s' \<Longrightarrow> typed_stream cid addr (ss_conn s')"
  using typed_Close [of cid addr "SetDeadline now (ss_conn s)" now] typed_SendDisconnect [of cid addr "ss_conn s" ShutdownRead now]
  by (auto simp: relay_down_end_def CloseRead_def split: if_splits outcome.splits)

lemma typed_copy_up:
  assumes "typed_stream cid addr (ss_conn s)" "copy_up clock now r s = Ret s'"
  shows "typed_stream cid addr (ss_conn s')"
proof (cases "\<exists>b. r = RdOk b \<and> b \<noteq> []")
  case True
  then obtain b n err c where r: "r = RdOk b" "b \<noteq> []" and w: "Write clock b (ss_conn s) = ((n, err), c)"
    by (metis prod.exhaust)
  have "typed_stream cid addr (ss_conn (s\<lparr>ss_conn := c\<rparr>))" using typed_Write [OF assms(1) w] by simp
  with assms(2) r w typed_relay_up_end [of cid addr "s\<lparr>ss_conn := c\<rparr>"] show ?thesis
    by (cases err) (auto simp: copy_up_def)
next
  case False
  with assms typed_relay_up_end [OF assms(1)] show ?thesis
    by (auto simp: copy_up_def split: if_splits rd_result.splits)
qed

lemma typed_copy_down:
  assumes "typed_stream cid addr (ss_conn s)" "copy_down now wrote xs err s = Ret s'"
  shows "typed_stream cid addr (ss_conn s')"
proof -
  define s1 where "s1 = (if xs = [] then s
    else s\<lparr>ss_app := ss_app s @ [TcpWrite (case wrote of None \<Rightarrow> xs | Some n \<Rightarrow> take n xs)]\<rparr>)"
  have "relay_down_end now True s1 = Ret s' \<or> s' = s1 \<or> (\<exists>e. relay_down_end now (e \<noteq> EOF) s1 = Ret s')"
    using assms(2) unfolding copy_down_def Let_def s1_def [symmetric] by (auto split: if_splits option.splits)
  moreover have "typed_stream cid addr (ss_conn s1)" using assms(1) by (simp add: s1_def)
  ultimately show ?thesis using typed_relay_down_end [of cid addr s1] by auto
qed

lemma typed_session_step:
  assumes "typed_stream cid addr (ss_conn s)" "session_step e s = Some (Ret s')"
  shows "typed_stream cid addr (ss_conn s')"
proof (cases e)
  case (UpRead clock now r)
  with assms typed_copy_up [OF assms(1)] show ?thesis by (auto simp: session_step_def split: if_splits)
next
  case (DownRead rc now wrote)
  then obtain xs err c where r: "Read (rc_fuel rc) (rc_fire rc) (rc_now rc) copyBufferSize (ss_conn s) = Some (ReadReturns xs err c)"
    and c: "copy_down now wrote xs err (s\<lparr>ss_conn := c\<rparr>) = Ret s'"
    using assms(2) by (auto simp: session_step_def split: if_splits option.splits read_result.splits)
  have "typed_stream cid addr c" using Read_kept [OF r] assms(1) by (simp add: read_kept_def typed_stream_def)
  with typed_copy_down [OF _ c] show ?thesis by simp
next
  case (Arrive b)
  with assms show ?thesis by (auto simp: session_step_def split: attempt.splits)
next
  case (Finish now)
  with assms typed_Close [of cid addr "ss_conn s" now] show ?thesis
    by (auto simp: session_step_def split: if_splits outcome.splits)
qed

lemma typed_biRelay: "typed_stream cid addr (ss_conn s) \<Longrightarrow> biRelay es s = Some (Ret s') \<Longrightarrow> typed_stream cid addr (ss_conn s')"
  by (induction es s rule: biRelay.induct)
    (auto split: option.splits outcome.splits dest: typed_session_step)

lemma typed_dialled:
  "length addr < 2 ^ 32 \<Longrightarrow> typed_stream cid addr (SendConnect now addr (NewInboundConnection cfg now' cid))"
  using wf_NewConnectBlock [of addr now cid]
  by (simp add: typed_stream_def SendConnect_def packConnect_def NewInboundConnection_def newBlockProcessor_def Let_def)
    (simp add: NewConnectBlock_def)

text \<open>
  C13. The protocol of a session: whatever the application, the tunnels and the schedule do, the
  blocks of a session are one connect block with the target's address, and then only data blocks of
  1 to \<open>DataSize\<close> bytes and disconnect blocks with one of the three kinds of shutdown; each carries
  the session's connection ID and a length field that is the length of its data.
\<close>
theorem session_blocks_typed:
  assumes "length addr < 2 ^ 32"
    and "biRelay es (start_session (SendConnect now addr (NewInboundConnection cfg now' connID))) = Some (Ret s)"
  shows "\<exists>b bs. sendq (ss_conn s) = b # bs \<and> wf_block b \<and> Type b = TypeConnect \<and> ConnectionID b = connID \<and> BlockData b = addr
     \<and> list_all (stream_block connID) bs"
  using typed_biRelay [OF _ assms(2), of connID addr] typed_dialled [OF assms(1)]
  by (simp add: start_session_def typed_stream_def)

theorem session_blocks_typed_witness:
  "\<exists>s b bs. biRelay sample_session (start_session (SendConnect 0 [104] (NewInboundConnection default_conn_config 0 7))) = Some (Ret s)
     \<and> sendq (ss_conn s) = b # bs \<and> Type b = TypeConnect \<and> BlockData b = [104] \<and> list_all (stream_block 7) bs \<and> bs \<noteq> []"
proof -
  obtain s where s: "biRelay sample_session (start_session (SendConnect 0 [104] (NewInboundConnection default_conn_config 0 7))) = Some (Ret s)"
    "half_closed (sendq (ss_conn s))" by (rule sample_session_runs)
  obtain b bs where b: "sendq (ss_conn s) = b # bs" "Type b = TypeConnect" "BlockData b = [104]" "list_all (stream_block 7) bs"
    using session_blocks_typed [OF _ s(1)] by auto
  have "bs \<noteq> []" using s(2) b(1,2) by (auto simp: is_shutdown_write_def)
  with s(1) b show ?thesis by blast
qed

end
