(* ===== verification/Stats.thy ===== *)
theory Stats
  imports Prelude Complex_Main
begin

text \<open>
  Traffic counters and rates, \<open>stats/stats.go\<close>. The counters keep their machine widths; clock
  readings are nanoseconds as an \<open>int\<close>. Rates are exact quotients of bytes and seconds, the
  rounding of \<open>float64\<close> is not modelled; the memory statistics that \<open>GetStats\<close> adds come from
  the runtime and are left out. There is one instance for each role of the process.
\<close>

section \<open>State and operations\<close>

record Stats =
  totalSentBytes :: u64
  totalRecvBytes :: u64
  tunnelCount :: i32
  connectionCount :: i32
  sentBytesHistory :: "u64 list"
  recvBytesHistory :: "u64 list"
  timestamps :: "int list"
  historySize :: nat

definition NewStats :: "nat \<Rightarrow> Stats" where
  "NewStats n = \<lparr>totalSentBytes = 0, totalRecvBytes = 0, tunnelCount = 0, connectionCount = 0,
     sentBytesHistory = [], recvBytesHistory = [], timestamps = [], historySize = n\<rparr>"

definition AddSentBytes :: "u64 \<Rightarrow> Stats \<Rightarrow> Stats" where
  "AddSentBytes n s = s\<lparr>totalSentBytes := totalSentBytes s + n\<rparr>"

definition AddRecvBytes :: "u64 \<Rightarrow> Stats \<Rightarrow> Stats" where
  "AddRecvBytes n s = s\<lparr>totalRecvBytes := totalRecvBytes s + n\<rparr>"

definition IncrementTunnelCount :: "Stats \<Rightarrow> Stats" where
  "IncrementTunnelCount s = s\<lparr>tunnelCount := tunnelCount s + 1\<rparr>"

definition DecrementTunnelCount :: "Stats \<Rightarrow> Stats" where
  "DecrementTunnelCount s = s\<lparr>tunnelCount := tunnelCount s - 1\<rparr>"

definition IncrementConnectionCount :: "Stats \<Rightarrow> Stats" where
  "IncrementConnectionCount s = s\<lparr>connectionCount := connectionCount s + 1\<rparr>"

definition DecrementConnectionCount :: "Stats \<Rightarrow> Stats" where
  "DecrementConnectionCount s = s\<lparr>connectionCount := connectionCount s - 1\<rparr>"

definition UpdateHistory :: "int \<Rightarrow> Stats \<Rightarrow> Stats" where
  "UpdateHistory now s =
     (let s1 = s\<lparr>sentBytesHistory := sentBytesHistory s @ [totalSentBytes s],
                 recvBytesHistory := recvBytesHistory s @ [totalRecvBytes s],
                 timestamps := timestamps s @ [now]\<rparr>
      in if length (timestamps s1) > historySize s1
         then s1\<lparr>sentBytesHistory := drop 1 (sentBytesHistory s1),
                 recvBytesHistory := drop 1 (recvBytesHistory s1),
                 timestamps := drop 1 (timestamps s1)\<rparr>
         else s1)"

text \<open>The rate over a history, in bytes per second; the window is the time between its ends.\<close>
definition rate :: "u64 list \<Rightarrow> int list \<Rightarrow> rat" where
  "rate hist ts =
     (let n = length ts in
      if n \<ge> 2
      then (let timeWindow = Fract (ts ! (n - 1) - ts ! 0) 1000000000
            in if timeWindow > 0 then of_nat (unat (hist ! (n - 1) - hist ! 0)) / timeWindow else 0)
      else 0)"

record stats_report =
  total_sent_bytes :: u64
  total_recv_bytes :: u64
  tunnel_count :: i32
  connection_count :: i32
  send_rate_Bps :: rat
  recv_rate_Bps :: rat

definition GetStats :: "Stats \<Rightarrow> stats_report" where
  "GetStats s =
     \<lparr>total_sent_bytes = totalSentBytes s, total_recv_bytes = totalRecvBytes s,
      tunnel_count = tunnelCount s, connection_count = connectionCount s,
      send_rate_Bps = rate (sentBytesHistory s) (timestamps s),
      recv_rate_Bps = rate (recvBytesHistory s) (timestamps s)\<rparr>"

text \<open>The two global instances, and the choice the callers make by their role.\<close>
record stats_pair =
  ClientStats :: Stats
  ServerStats :: Stats

definition InitStats :: "nat \<Rightarrow> stats_pair" where
  "InitStats n = \<lparr>ClientStats = NewStats n, ServerStats = NewStats n\<rparr>"

definition InitStats_tick :: "int \<Rightarrow> int \<Rightarrow> stats_pair \<Rightarrow> stats_pair" where
  "InitStats_tick now1 now2 g =
     g\<lparr>ClientStats := UpdateHistory now1 (ClientStats g), ServerStats := UpdateHistory now2 (ServerStats g)\<rparr>"

definition on_mode :: "bool \<Rightarrow> (Stats \<Rightarrow> Stats) \<Rightarrow> stats_pair \<Rightarrow> stats_pair" where
  "on_mode IsClientMode f g =
     (if IsClientMode then g\<lparr>ClientStats := f (ClientStats g)\<rparr> else g\<lparr>ServerStats := f (ServerStats g)\<rparr>)"

text \<open>The instance that a mode selects.\<close>
definition mode_stats :: "bool \<Rightarrow> stats_pair \<Rightarrow> Stats" where
  "mode_stats IsClientMode g = (if IsClientMode then ClientStats g else ServerStats g)"

lemma mode_stats_on_mode [simp]:
  "mode_stats m (on_mode m f g) = f (mode_stats m g)"
  "m \<noteq> m' \<Longrightarrow> mode_stats m (on_mode m' f g) = mode_stats m g"
  by (auto simp: mode_stats_def on_mode_def)

lemma counter_simps [simp]:
  "totalSentBytes (AddSentBytes n s) = totalSentBytes s + n"
  "totalRecvBytes (AddSentBytes n s) = totalRecvBytes s"
  "totalRecvBytes (AddRecvBytes n s) = totalRecvBytes s + n"
  "totalSentBytes (AddRecvBytes n s) = totalSentBytes s"
  "tunnelCount (IncrementTunnelCount s) = tunnelCount s + 1"
  "tunnelCount (DecrementTunnelCount s) = tunnelCount s - 1"
  "connectionCount (IncrementConnectionCount s) = connectionCount s + 1"
  "connectionCount (DecrementConnectionCount s) = connectionCount s - 1"
  by (simp_all add: AddSentBytes_def AddRecvBytes_def IncrementTunnelCount_def DecrementTunnelCount_def
      IncrementConnectionCount_def DecrementConnectionCount_def)

section \<open>The sampling window\<close>

text \<open>What happens between two samples: any counting, then a sample of both totals at a time.\<close>
datatype stats_event = CountSent u64 | CountRecv u64 | Sample int

fun stats_step :: "stats_event \<Rightarrow> Stats \<Rightarrow> Stats" where
  "stats_step (CountSent n) s = AddSentBytes n s"
| "stats_step (CountRecv n) s = AddRecvBytes n s"
| "stats_step (Sample now) s = UpdateHistory now s"

text \<open>All samples ever taken, as time, sent and received totals.\<close>
fun samples :: "stats_event list \<Rightarrow> u64 \<Rightarrow> u64 \<Rightarrow> (int \<times> u64 \<times> u64) list" where
  "samples [] s r = []"
| "samples (CountSent n # es) s r = samples es (s + n) r"
| "samples (CountRecv n # es) s r = samples es s (r + n)"
| "samples (Sample now # es) s r = (now, s, r) # samples es s r"

definition window :: "Stats \<Rightarrow> (int \<times> u64 \<times> u64) list \<Rightarrow> bool" where
  "window s xs \<longleftrightarrow>
     timestamps s = map fst xs \<and> sentBytesHistory s = map (fst \<circ> snd) xs
   \<and> recvBytesHistory s = map (snd \<circ> snd) xs \<and> length xs \<le> historySize s"

text \<open>The last \<open>n\<close> elements of a list.\<close>
definition lastn :: "nat \<Rightarrow> 'a list \<Rightarrow> 'a list" where
  "lastn n xs = drop (length xs - n) xs"

lemma length_lastn: "length (lastn n xs) = min n (length xs)"
  by (simp add: lastn_def)

lemma lastn_snoc: "lastn n (lastn n xs @ [x]) = lastn n (xs @ [x])"
proof (cases "length xs \<le> n")
  case False
  then have "length (lastn n xs) = n" by (simp add: length_lastn)
  with False show ?thesis by (cases n) (simp_all add: lastn_def Suc_diff_Suc)
qed (simp add: lastn_def)

lemma lastn_app: "lastn n (lastn n xs @ ys) = lastn n (xs @ ys)"
proof (induction ys rule: rev_induct)
  case (snoc y ys)
  then show ?case by (metis append_assoc lastn_snoc)
qed (simp add: lastn_def)

lemma UpdateHistory_window:
  assumes "window s xs"
  shows "window (UpdateHistory now s) (lastn (historySize s) (xs @ [(now, totalSentBytes s, totalRecvBytes s)]))"
proof (cases "length xs < historySize s")
  case True
  with assms show ?thesis by (simp add: window_def UpdateHistory_def Let_def lastn_def)
next
  case False
  then have "historySize s = length xs" using assms by (simp add: window_def)
  with assms show ?thesis
    by (cases xs) (simp_all add: window_def UpdateHistory_def Let_def lastn_def)
qed

lemma historySize_UpdateHistory [simp]: "historySize (UpdateHistory now s) = historySize s"
  by (simp add: UpdateHistory_def Let_def)

lemma totals_UpdateHistory [simp]:
  "totalSentBytes (UpdateHistory now s) = totalSentBytes s"
  "totalRecvBytes (UpdateHistory now s) = totalRecvBytes s"
  by (simp_all add: UpdateHistory_def Let_def)

lemma window_run:
  assumes "window s (lastn (historySize s) xs)"
  shows "window (fold stats_step es s)
    (lastn (historySize s) (xs @ samples es (totalSentBytes s) (totalRecvBytes s)))"
  using assms
proof (induction es arbitrary: s xs)
  case (Cons e es)
  show ?case
  proof (cases e)
    case (CountSent n)
    with Cons.prems Cons.IH [of "AddSentBytes n s" xs] show ?thesis
      by (simp add: window_def AddSentBytes_def)
  next
    case (CountRecv n)
    with Cons.prems Cons.IH [of "AddRecvBytes n s" xs] show ?thesis
      by (simp add: window_def AddRecvBytes_def)
  next
    case (Sample now)
    let ?x = "(now, totalSentBytes s, totalRecvBytes s)"
    have "window (UpdateHistory now s) (lastn (historySize s) (xs @ [?x]))"
      using UpdateHistory_window [OF Cons.prems, of now] by (simp add: lastn_snoc)
    with Cons.IH [of "UpdateHistory now s" "xs @ [?x]"] Sample show ?thesis by simp
  qed
qed simp

section \<open>Properties\<close>


end
