(* ===== verification/ConnectionPool.thy ===== *)
theory ConnectionPool
  imports Inbound Outbound Stats
begin

text \<open>
  The set of logical connections of one peer, \<open>connection_pool/pool.go\<close>: the registry of
  connections, the loop that hands received blocks to them and the loop that hands their blocks to
  the tunnel pool. The two queues of the tunnel pool are arguments of the loops. The goroutine that
  waits for a connection's context and then removes the connection is the step \<open>removeConnection\<close>;
  the dials that connect blocks start are logged.
\<close>

section \<open>State and operations\<close>

datatype pooled = PIn InboundConnection | POut OutboundConnection

fun connID :: "pooled \<Rightarrow> u32" where
  "connID (PIn c) = connectionID c"
| "connID (POut c) = connectionID c"

fun conn_recvQueue :: "pooled \<Rightarrow> block chan" where
  "conn_recvQueue (PIn c) = recvQueue c"
| "conn_recvQueue (POut c) = recvQueue c"

record ConnectionPool =
  connectionMapping :: "u32 \<rightharpoonup> pooled"
  acceptNewConnection :: bool
  cpCtxDone :: bool
  cpDials :: "(u32 \<times> byte list) list"

definition NewConnectionPool :: "bool \<Rightarrow> ConnectionPool" where
  "NewConnectionPool accept =
     \<lparr>connectionMapping = Map.empty, acceptNewConnection = accept, cpCtxDone = False, cpDials = []\<rparr>"

type_synonym cp_state = "ConnectionPool \<times> stats_pair"

definition both_stats :: "(Stats \<Rightarrow> Stats) \<Rightarrow> stats_pair \<Rightarrow> stats_pair" where
  "both_stats f g = g\<lparr>ClientStats := f (ClientStats g), ServerStats := f (ServerStats g)\<rparr>"

definition addConnection :: "pooled \<Rightarrow> cp_state \<Rightarrow> cp_state" where
  "addConnection conn s =
     (let (cp, g) = s
      in (cp\<lparr>connectionMapping := (connectionMapping cp)(connID conn \<mapsto> conn)\<rparr>,
          both_stats IncrementConnectionCount g))"

definition removeConnection :: "pooled \<Rightarrow> cp_state \<Rightarrow> cp_state" where
  "removeConnection conn s =
     (let (cp, g) = s in
      if connectionMapping cp (connID conn) \<noteq> None
      then (cp\<lparr>connectionMapping := (connectionMapping cp)(connID conn := None)\<rparr>,
            both_stats DecrementConnectionCount g)
      else (cp, g))"

definition NewPooledInboundConnection ::
  "conn_config \<Rightarrow> i64 \<Rightarrow> u32 \<Rightarrow> cp_state \<Rightarrow> InboundConnection \<times> cp_state" where
  "NewPooledInboundConnection cfg now cid s =
     (let c = NewInboundConnection cfg now cid in (c, addConnection (PIn c) s))"

definition NewPooledOutboundConnection :: "conn_config \<Rightarrow> u32 \<Rightarrow> cp_state \<Rightarrow> OutboundConnection \<times> cp_state" where
  "NewPooledOutboundConnection cfg cid s =
     (let c = NewOutboundConnection cfg cid in (c, addConnection (POut c) s))"

text \<open>\<open>RecvBlock\<close> of whichever connection it is, with the dial that it starts.\<close>
fun pooled_RecvBlock :: "block \<Rightarrow> pooled \<Rightarrow> pooled attempt \<times> byte list option" where
  "pooled_RecvBlock blk (PIn c) =
     (case RecvBlock blk c of Proceeds c' \<Rightarrow> Proceeds (PIn c') | Waits \<Rightarrow> Waits | Panics \<Rightarrow> Panics, None)"
| "pooled_RecvBlock blk (POut c) =
     (let (a, dial) = out_RecvBlock blk c
      in (case a of Proceeds c' \<Rightarrow> Proceeds (POut c') | Waits \<Rightarrow> Waits | Panics \<Rightarrow> Panics, dial))"

datatype relay_status = RelayGoesOn | RelayReturned | RelayWaits | RelayPanics

text \<open>An iteration of \<open>recvRelay\<close> that received a block.\<close>
definition recvRelay_block :: "conn_config \<Rightarrow> block \<Rightarrow> cp_state \<Rightarrow> relay_status \<times> cp_state" where
  "recvRelay_block cfg blk s =
     (case (case connectionMapping (fst s) (ConnectionID blk) of
              Some conn \<Rightarrow> Some (conn, s)
            | None \<Rightarrow>
                if acceptNewConnection (fst s)
                then (let (c, s1) = NewPooledOutboundConnection cfg (ConnectionID blk) s in Some (POut c, s1))
                else None) of
        None \<Rightarrow> (RelayGoesOn, s)
      | Some (conn, s1) \<Rightarrow>
          (let (cp1, g1) = s1 in
           if cpCtxDone cp1 then (RelayReturned, s1)
           else
             (let (a, dial) = pooled_RecvBlock blk conn;
                  cp2 = cp1\<lparr>cpDials := cpDials cp1 @ (case dial of None \<Rightarrow> [] | Some addr \<Rightarrow> [(ConnectionID blk, addr)])\<rparr>
              in case a of
                   Proceeds conn' \<Rightarrow>
                     (RelayGoesOn, (cp2\<lparr>connectionMapping := (connectionMapping cp2)(ConnectionID blk \<mapsto> conn')\<rparr>, g1))
                 | Waits \<Rightarrow> (RelayWaits, (cp2, g1))
                 | Panics \<Rightarrow> (RelayPanics, (cp2, g1)))))"

text \<open>An iteration of \<open>recvRelay\<close> on the tunnel pool's queue; \<open>seen\<close> picks the context's case.\<close>
definition recvRelay_iter :: "conn_config \<Rightarrow> bool \<Rightarrow> block chan \<times> cp_state \<Rightarrow> relay_status \<times> block chan \<times> cp_state" where
  "recvRelay_iter cfg seen st =
     (let (q, s) = st in
      if seen then (RelayReturned, q, s)
      else case chan_recv q of
        RecvClosed \<Rightarrow> (RelayReturned, q, s)
      | RecvBlocks \<Rightarrow> (RelayWaits, q, s)
      | Received blk q' \<Rightarrow> (let (r, s') = recvRelay_block cfg blk s in (r, q', s')))"

text \<open>
  An iteration of \<open>sendRelay\<close> from the pool's send queue to the tunnel pool's; the context may be
  seen done instead of the receive (first flag) or instead of the send (second flag), and in the
  second case the block is dropped.
\<close>
definition sendRelay_iter :: "bool \<Rightarrow> bool \<Rightarrow> block chan \<times> block chan \<Rightarrow> relay_status \<times> block chan \<times> block chan" where
  "sendRelay_iter seen1 seen2 qs =
     (let (sq, tq) = qs in
      if seen1 then (RelayReturned, sq, tq)
      else case chan_recv sq of
        RecvClosed \<Rightarrow> (RelayReturned, sq, tq)
      | RecvBlocks \<Rightarrow> (RelayWaits, sq, tq)
      | Received blk sq' \<Rightarrow>
          if seen2 then (RelayReturned, sq', tq)
          else (case chan_send blk tq of
                  Proceeds tq' \<Rightarrow> (RelayGoesOn, sq', tq')
                | Waits \<Rightarrow> (RelayWaits, sq, tq)
                | Panics \<Rightarrow> (RelayPanics, sq', tq)))"

definition stopRelay :: "ConnectionPool \<Rightarrow> ConnectionPool" where
  "stopRelay cp = cp\<lparr>cpCtxDone := True\<rparr>"

definition GetConnectionPoolInfo :: "nat \<Rightarrow> nat \<Rightarrow> ConnectionPool \<Rightarrow> (nat \<times> nat \<times> nat \<times> bool)" where
  "GetConnectionPoolInfo sendQueueLen tunnels cp =
     (card (dom (connectionMapping cp)), sendQueueLen, tunnels, acceptNewConnection cp)"

section \<open>The pool as a registry\<close>

definition cp_invar :: "cp_state \<Rightarrow> bool" where
  "cp_invar s \<longleftrightarrow> (\<forall>k c. connectionMapping (fst s) k = Some c \<longrightarrow> connID c = k)"

definition counted_connections :: "cp_state \<Rightarrow> 32 word" where
  "counted_connections s = connectionCount (ClientStats (snd s))"

lemma mapping_addConnection [simp]:
  "connectionMapping (fst (addConnection c s)) = (connectionMapping (fst s))(connID c \<mapsto> c)"
  by (simp add: addConnection_def case_prod_beta)

lemma mapping_removeConnection [simp]:
  "connectionMapping (fst (removeConnection c s)) = (connectionMapping (fst s))(connID c := None)"
  by (auto simp: removeConnection_def case_prod_beta fun_eq_iff)

lemma counted_connection_simps:
  "counted_connections (addConnection c s) = counted_connections s + 1"
  "counted_connections (removeConnection c s)
    = (if connID c \<in> dom (connectionMapping (fst s)) then counted_connections s - 1 else counted_connections s)"
  by (auto simp: counted_connections_def addConnection_def removeConnection_def both_stats_def case_prod_beta)

interpretation connections: counted_registry connID "\<lambda>s. connectionMapping (fst s)" cp_invar
  addConnection removeConnection counted_connections
  by unfold_locales (auto simp: counted_connection_simps cp_invar_def split: if_splits)

section \<open>Routing\<close>

lemma chan_send_ProceedsD: "chan_send v q = Proceeds q' \<Longrightarrow> chq q' = chq q @ [v] \<and> chclosed q' = chclosed q \<and> chcap q' = chcap q"
  by (auto simp: chan_send_def split: if_splits)

lemma pooled_RecvBlock_queue:
  assumes "pooled_RecvBlock blk conn = (Proceeds conn', dial)"
  shows "chq (conn_recvQueue conn') = chq (conn_recvQueue conn) @ [blk]" "connID conn' = connID conn"
  using assms by (cases conn; auto simp: RecvBlock_def out_RecvBlock_def split: attempt.splits dest!: chan_send_ProceedsD)+

text \<open>The blocks waiting for a connection.\<close>
definition waiting :: "cp_state \<Rightarrow> u32 \<Rightarrow> block list" where
  "waiting s k = (case connectionMapping (fst s) k of None \<Rightarrow> [] | Some conn \<Rightarrow> chq (conn_recvQueue conn))"

text \<open>The loop over blocks that arrive one after the other; \<open>None\<close> when it stopped or has to wait.\<close>
fun recvRelay :: "conn_config \<Rightarrow> block list \<Rightarrow> cp_state \<Rightarrow> cp_state option" where
  "recvRelay cfg [] s = Some s"
| "recvRelay cfg (blk # blks) s =
     (case recvRelay_block cfg blk s of (RelayGoesOn, s1) \<Rightarrow> recvRelay cfg blks s1 | _ \<Rightarrow> None)"

lemma connectionID_New [simp]:
  "connectionID (NewOutboundConnection cfg cid) = cid" "connectionID (NewInboundConnection cfg now cid) = cid"
  by (simp_all add: NewOutboundConnection_def NewInboundConnection_def)

text \<open>An iteration that goes on has dropped the block, or queued it at its connection, perhaps a new one.\<close>
lemma recvRelay_block_cases:
  assumes "recvRelay_block cfg blk s = (RelayGoesOn, s')"
  obtains (dropped) "s' = s" "connectionMapping (fst s) (ConnectionID blk) = None" "\<not> acceptNewConnection (fst s)"
  | (queued) conn conn' dial where "pooled_RecvBlock blk conn = (Proceeds conn', dial)"
      "case connectionMapping (fst s) (ConnectionID blk) of Some c \<Rightarrow> conn = c
       | None \<Rightarrow> acceptNewConnection (fst s) \<and> conn = POut (NewOutboundConnection cfg (ConnectionID blk))"
      "connectionMapping (fst s') = (connectionMapping (fst s))(ConnectionID blk \<mapsto> conn')"
      "acceptNewConnection (fst s') = acceptNewConnection (fst s)"
      "cpDials (fst s') = cpDials (fst s) @ (case dial of None \<Rightarrow> [] | Some addr \<Rightarrow> [(ConnectionID blk, addr)])"
proof -
  obtain cp g where s: "s = (cp, g)" by (cases s)
  consider (old) conn where "connectionMapping cp (ConnectionID blk) = Some conn"
    | (new) "connectionMapping cp (ConnectionID blk) = None" "acceptNewConnection cp"
    | (drop) "connectionMapping cp (ConnectionID blk) = None" "\<not> acceptNewConnection cp" by blast
  then show thesis
  proof cases
    case old
    with assms s obtain conn' dial where "pooled_RecvBlock blk conn = (Proceeds conn', dial)"
      "s' = (cp\<lparr>cpDials := cpDials cp @ (case dial of None \<Rightarrow> [] | Some addr \<Rightarrow> [(ConnectionID blk, addr)]),
         connectionMapping := (connectionMapping cp)(ConnectionID blk \<mapsto> conn')\<rparr>, g)"
      by (auto simp: recvRelay_block_def Let_def split: prod.splits attempt.splits if_splits)
    with old s show ?thesis by (intro queued [of conn conn' dial]) simp_all
  next
    case new
    let ?c = "POut (NewOutboundConnection cfg (ConnectionID blk))"
    from new assms s obtain conn' dial where "pooled_RecvBlock blk ?c = (Proceeds conn', dial)"
      "connectionMapping (fst s') = (connectionMapping cp)(ConnectionID blk \<mapsto> conn')"
      "acceptNewConnection (fst s') = acceptNewConnection cp"
      "cpDials (fst s') = cpDials cp @ (case dial of None \<Rightarrow> [] | Some addr \<Rightarrow> [(ConnectionID blk, addr)])"
      by (auto simp: recvRelay_block_def Let_def NewPooledOutboundConnection_def addConnection_def
          split: prod.splits attempt.splits if_splits)
    with new s show ?thesis by (intro queued [of ?c conn' dial]) simp_all
  next
    case drop
    with assms s show ?thesis by (intro dropped) (auto simp: recvRelay_block_def)
  qed
qed

lemma recvRelay_block_step:
  assumes "recvRelay_block cfg blk s = (RelayGoesOn, s')"
  shows "acceptNewConnection (fst s') = acceptNewConnection (fst s)"
    and "dom (connectionMapping (fst s'))
      = dom (connectionMapping (fst s)) \<union> (if acceptNewConnection (fst s) then {ConnectionID blk} else {})"
    and "waiting s' k = waiting s k
      @ (if k = ConnectionID blk \<and> (acceptNewConnection (fst s) \<or> k \<in> dom (connectionMapping (fst s))) then [blk] else [])"
proof -
  have "acceptNewConnection (fst s') = acceptNewConnection (fst s)
    \<and> dom (connectionMapping (fst s'))
      = dom (connectionMapping (fst s)) \<union> (if acceptNewConnection (fst s) then {ConnectionID blk} else {})
    \<and> waiting s' k = waiting s k
      @ (if k = ConnectionID blk \<and> (acceptNewConnection (fst s) \<or> k \<in> dom (connectionMapping (fst s))) then [blk] else [])"
    using assms
  proof (cases rule: recvRelay_block_cases)
    case dropped
    then show ?thesis by auto
  next
    case (queued conn conn' dial)
    have "chq (conn_recvQueue (POut (NewOutboundConnection cfg (ConnectionID blk)))) = []"
      by (simp add: NewOutboundConnection_def make_chan_def)
    with queued pooled_RecvBlock_queue(1) [OF queued(1)] show ?thesis
      by (cases "connectionMapping (fst s) (ConnectionID blk)") (auto simp: waiting_def)
  qed
  then show "acceptNewConnection (fst s') = acceptNewConnection (fst s)"
    "dom (connectionMapping (fst s'))
      = dom (connectionMapping (fst s)) \<union> (if acceptNewConnection (fst s) then {ConnectionID blk} else {})"
    "waiting s' k = waiting s k
      @ (if k = ConnectionID blk \<and> (acceptNewConnection (fst s) \<or> k \<in> dom (connectionMapping (fst s))) then [blk] else [])"
    by blast+
qed

text \<open>The sending loop; \<open>None\<close> when it stopped or panicked.\<close>
fun sendRelay :: "(bool \<times> bool) list \<Rightarrow> block chan \<times> block chan \<Rightarrow> (block chan \<times> block chan) option" where
  "sendRelay [] qs = Some qs"
| "sendRelay ((seen1, seen2) # es) qs =
     (case sendRelay_iter seen1 seen2 qs of
        (RelayGoesOn, qs') \<Rightarrow> sendRelay es qs'
      | (RelayWaits, qs') \<Rightarrow> sendRelay es qs'
      | _ \<Rightarrow> None)"

section \<open>Properties\<close>

text \<open>
  Received blocks reach the connection they name, and only that one: after the loop has taken
  in a sequence of blocks, every connection has, behind what was already waiting, exactly the blocks
  of the sequence that carry its ID, in the order of arrival. A pool that accepts connections
  creates missing ones; a pool that does not drops the blocks of unknown connections.
\<close>
lemma recvRelay_routes:
  assumes "recvRelay cfg blks s = Some s'"
  shows "waiting s' k = waiting s k
    @ (if acceptNewConnection (fst s) \<or> k \<in> dom (connectionMapping (fst s))
       then filter (\<lambda>b. ConnectionID b = k) blks else [])"
  using assms
proof (induction blks arbitrary: s)
  case (Cons b blks)
  then obtain s1 where s1: "recvRelay_block cfg b s = (RelayGoesOn, s1)" "recvRelay cfg blks s1 = Some s'"
    by (auto split: prod.splits relay_status.splits)
  from Cons.IH [OF s1(2)] recvRelay_block_step [OF s1(1)] show ?case by auto
qed simp

lemma recvRelay_routes_witness:
  "\<exists>s'. recvRelay default_conn_config [NewConnectBlock 0 7 0 [104], NewPingBlock 0 8 0 1, NewDisconnectBlock 0 7 1 ShutdownBoth]
      (NewConnectionPool True, InitStats 10) = Some s'
    \<and> waiting s' 7 = [NewConnectBlock 0 7 0 [104], NewDisconnectBlock 0 7 1 ShutdownBoth]"
proof -
  let ?bs = "[NewConnectBlock 0 7 0 [104], NewPingBlock 0 8 0 1, NewDisconnectBlock 0 7 1 ShutdownBoth]"
  let ?s = "(NewConnectionPool True, InitStats 10)"
  obtain s' where r: "recvRelay default_conn_config ?bs ?s = Some s'"
    by (simp add: recvRelay_block_def NewConnectionPool_def NewPooledOutboundConnection_def addConnection_def
        out_RecvBlock_def RecvBlock_def chan_send_def NewOutboundConnection_def make_chan_def default_conn_config_def
        block_constructor_defs Let_def)
  have "waiting ?s 7 = []" "acceptNewConnection (fst ?s)" by (simp_all add: waiting_def NewConnectionPool_def)
  with recvRelay_routes [OF r, of 7] r show ?thesis by (simp add: block_constructor_defs)
qed

text \<open>
  The connection counters follow the pool: after any additions and removals the client counter
  equals the number of connections, provided that no connection is added under an ID in use. A
  random ID that collides with a live connection replaces it in the pool and leaves the counter one
  too high.
\<close>
lemma connection_count_correct:
  assumes "fresh_adds connID es {}"
    and "s = reg_run addConnection removeConnection es (NewConnectionPool accept, InitStats n)"
  shows "counted_connections s = of_nat (card (dom (connectionMapping (fst s))))
    \<and> (connID c \<in> dom (connectionMapping (fst s)) \<longrightarrow>
        counted_connections (addConnection c s) = of_nat (card (dom (connectionMapping (fst (addConnection c s))))) + 1)"
proof -
  let ?s = "(NewConnectionPool accept, InitStats n)"
  have init: "cp_invar ?s" "dom (connectionMapping (fst ?s)) = {}" "counted_connections ?s = 0"
    by (simp_all add: cp_invar_def NewConnectionPool_def counted_connections_def InitStats_def NewStats_def)
  then have "counted_connections s = of_nat (card (dom (connectionMapping (fst s))))"
    using connections.count_run [of ?s es] assms by simp
  moreover have "cp_invar s" unfolding assms(2) by (rule connections.invar_run [OF init(1)])
  ultimately show ?thesis using connections.count_drift [of s c] by simp
qed

lemma connection_count_correct_witness:
  "let c1 = POut (NewOutboundConnection default_conn_config 1); c2 = POut (NewOutboundConnection default_conn_config 2);
       s = reg_run addConnection removeConnection [RegAdd c1, RegAdd c2, RegRemove c1] (NewConnectionPool True, InitStats 10)
   in counted_connections s = 1 \<and> counted_connections (addConnection c2 s) = 2
      \<and> card (dom (connectionMapping (fst (addConnection c2 s)))) = 1"
proof -
  let ?c1 = "POut (NewOutboundConnection default_conn_config 1)" and ?c2 = "POut (NewOutboundConnection default_conn_config 2)"
  let ?es = "[RegAdd ?c1, RegAdd ?c2, RegRemove ?c1]"
  let ?s = "reg_run addConnection removeConnection ?es (NewConnectionPool True, InitStats 10)"
  have "connectionMapping (fst ?s) = [2 \<mapsto> ?c2]" by (auto simp: NewConnectionPool_def fun_eq_iff)
  moreover have "fresh_adds connID ?es {}" by simp
  ultimately show ?thesis
    using connection_count_correct [of ?es ?s True 10 ?c2] by (simp add: Let_def del: reg_run.simps)
qed

text \<open>
  The sending loop keeps order: as long as it runs, the blocks in the tunnel pool's queue
  followed by those still in the connection pool's queue are the same sequence before and after.
\<close>
lemma sendRelay_fifo:
  assumes "sendRelay es (sq, tq) = Some (sq', tq')"
  shows "chq tq' @ chq sq' = chq tq @ chq sq"
  using assms
proof (induction es arbitrary: sq tq)
  case (Cons e es)
  obtain a b where e: "e = (a, b)" by (cases e)
  obtain r sq1 tq1 where it: "sendRelay_iter a b (sq, tq) = (r, sq1, tq1)" by (metis prod.collapse)
  then have "r = RelayGoesOn \<or> r = RelayWaits" and run: "sendRelay es (sq1, tq1) = Some (sq', tq')"
    using Cons.prems e by (auto split: relay_status.splits)
  then have "chq tq1 @ chq sq1 = chq tq @ chq sq"
    using it by (auto simp: sendRelay_iter_def chan_recv_def chan_send_def split: list.splits if_splits)
  with Cons.IH [OF run] show ?case by simp
qed simp

lemma sendRelay_fifo_witness:
  "\<exists>sq tq. sendRelay [(False, False)]
      (\<lparr>chq = [NewPingBlock 0 1 0 1, NewPingBlock 0 2 0 1], chcap = 64, chclosed = False\<rparr>, make_chan 64) = Some (sq, tq)
    \<and> chq tq @ chq sq = [NewPingBlock 0 1 0 1, NewPingBlock 0 2 0 1]"
proof -
  let ?q = "\<lparr>chq = [NewPingBlock 0 1 0 1, NewPingBlock 0 2 0 1], chcap = 64, chclosed = False\<rparr>"
  obtain sq tq where "sendRelay [(False, False)] (?q, make_chan 64) = Some (sq, tq)"
    by (simp add: sendRelay_iter_def chan_recv_def chan_send_def make_chan_def)
  with sendRelay_fifo [OF this] show ?thesis by (simp add: make_chan_def)
qed

text \<open>
  A block that arrives for a connection that the application has just closed ends the process:
  closing closes the connection's receive queue, and until the connection has been removed from the
  pool the receiving loop sends on that queue.
\<close>
lemma recvRelay_closed_connection_panics:
  assumes "connectionMapping cp (connectionID c) = Some (PIn c)" "\<not> baseConnection.closed c" "\<not> cpCtxDone cp"
    and "Close now c = Ret c'" "ConnectionID blk = connectionID c"
  shows "fst (recvRelay_block cfg blk (cp\<lparr>connectionMapping := (connectionMapping cp)(connectionID c \<mapsto> PIn c')\<rparr>, g))
    = RelayPanics"
proof -
  have "chclosed (recvQueue c')"
    using assms(2,4) by (auto simp: Close_def Let_def chan_close_def Stop_def split: if_splits)
  then have "pooled_RecvBlock blk (PIn c') = (Panics, None)"
    by (simp add: RecvBlock_def chan_send_def)
  with assms show ?thesis by (simp add: recvRelay_block_def del: pooled_RecvBlock.simps)
qed

lemma recvRelay_closed_connection_panics_witness:
  "let c = NewInboundConnection default_conn_config 0 9
   in \<exists>c'. Close 0 c = Ret c' \<and> fst (recvRelay_block default_conn_config (NewDisconnectBlock 0 9 0 ShutdownBoth)
        ((NewConnectionPool False)\<lparr>connectionMapping := [9 \<mapsto> PIn c, 9 \<mapsto> PIn c']\<rparr>, InitStats 10)) = RelayPanics"
proof -
  let ?c = "NewInboundConnection default_conn_config 0 9"
  let ?cp = "(NewConnectionPool False)\<lparr>connectionMapping := [9 \<mapsto> PIn ?c]\<rparr>"
  obtain c' where c': "Close 0 ?c = Ret c'"
    by (simp add: Close_def Let_def chan_close_def NewInboundConnection_def make_chan_def
        SendDisconnect_def packDisconnect_def Stop_def)
  have id: "connectionID ?c = 9" by simp
  have "fst (recvRelay_block default_conn_config (NewDisconnectBlock 0 9 0 ShutdownBoth)
        (?cp\<lparr>connectionMapping := (connectionMapping ?cp)(connectionID ?c \<mapsto> PIn c')\<rparr>, InitStats 10)) = RelayPanics"
    by (rule recvRelay_closed_connection_panics [OF _ _ _ c'])
      (simp_all add: NewConnectionPool_def NewDisconnectBlock_def, simp add: NewInboundConnection_def)
  with c' show ?thesis by (auto simp: id Let_def)
qed

end
