(* ===== verification/PoolRun.thy ===== *)
theory PoolRun
  imports ConnectionPool
begin

text \<open>
  A connection pool at work, \<open>connection_pool/pool.go\<close> with the goroutines that \<open>addConnection\<close> starts:
  while \<open>recvRelay\<close> hands the blocks of the tunnels to the connections they name, every connection
  has its own \<open>OrderedRelay\<close>, connections are opened and closed, and a goroutine removes
  those whose context is done. A list of events is an interleaving of all of them. A connection
  that has left the table, or was replaced in it, lives on with its relay. An event that cannot happen
  in a state has no successor state.
\<close>

section \<open>State and steps\<close>

text \<open>What belongs to a connection beside its own state: its relay, and the blocks it was handed.\<close>
record lane =
  ln_relay :: relay
  ln_got :: "block list"

definition new_lane :: lane where
  "new_lane = \<lparr>ln_relay = new_relay, ln_got = []\<rparr>"

record pool_run =
  pr_state :: cp_state
  pr_lanes :: "u32 \<Rightarrow> lane"
  pr_gone :: "(pooled \<times> lane) list"

definition start_pool :: "bool \<Rightarrow> stats_pair \<Rightarrow> pool_run" where
  "start_pool accept g = \<lparr>pr_state = (NewConnectionPool accept, g), pr_lanes = (\<lambda>_. new_lane), pr_gone = []\<rparr>"

text \<open>The case of the relay's \<open>select\<close> that fires.\<close>
datatype relay_case = TakeBlock budget | PacketWait | SeenDone

fun set_recvQueue :: "block chan \<Rightarrow> pooled \<Rightarrow> pooled" where
  "set_recvQueue q (PIn c) = PIn (c\<lparr>recvQueue := q\<rparr>)"
| "set_recvQueue q (POut c) = POut (c\<lparr>recvQueue := q\<rparr>)"

text \<open>An iteration of the relay of a connection, on the connection's receive queue.\<close>
definition order_step :: "relay_case \<Rightarrow> pooled \<times> lane \<Rightarrow> (pooled \<times> lane) option" where
  "order_step ch cl =
     (let (conn, l) = cl; step = (\<lambda>e. l\<lparr>ln_relay := OrderedRelay_step e (ln_relay l)\<rparr>) in
      if relay_stopped (ln_relay l) then None
      else case ch of
        TakeBlock bud \<Rightarrow>
          (case chan_recv (conn_recvQueue conn) of
             RecvBlocks \<Rightarrow> None
           | RecvClosed \<Rightarrow> Some (conn, step RelayClosed)
           | Received blk q \<Rightarrow> Some (set_recvQueue q conn, step (RelayRecv bud blk)))
      | PacketWait \<Rightarrow> Some (conn, step RelayTimeout)
      | SeenDone \<Rightarrow> Some (conn, step RelayDone))"

datatype pool_event =
    OpenConn i64 u32
  | Deliver block
  | Order u32 relay_case
  | OrderGone nat relay_case
  | ShutConn u32
  | LeavePool u32

text \<open>The connection that is under an ID leaves the table.\<close>
definition retired :: "u32 \<Rightarrow> pool_run \<Rightarrow> (pooled \<times> lane) list" where
  "retired k p = pr_gone p
     @ (case connectionMapping (fst (pr_state p)) k of None \<Rightarrow> [] | Some conn \<Rightarrow> [(conn, pr_lanes p k)])"

definition store_conn :: "u32 \<Rightarrow> pooled \<Rightarrow> cp_state \<Rightarrow> cp_state" where
  "store_conn k conn s = ((fst s)\<lparr>connectionMapping := (connectionMapping (fst s))(k \<mapsto> conn)\<rparr>, snd s)"

text \<open>A new connection starts with a new relay.\<close>
definition deliver :: "conn_config \<Rightarrow> block \<Rightarrow> pool_run \<Rightarrow> pool_run outcome option" where
  "deliver cfg blk p =
     (let k = ConnectionID blk in
      case recvRelay_block cfg blk (pr_state p) of
        (RelayGoesOn, s) \<Rightarrow>
          Some (Ret (if connectionMapping (fst s) k = None then p\<lparr>pr_state := s\<rparr>
            else (let l = (if connectionMapping (fst (pr_state p)) k = None then new_lane else pr_lanes p k)
                  in p\<lparr>pr_state := s, pr_lanes := (pr_lanes p)(k := l\<lparr>ln_got := ln_got l @ [blk]\<rparr>)\<rparr>)))
      | (RelayPanics, s) \<Rightarrow> Some Panic
      | (RelayReturned, s) \<Rightarrow> None
      | (RelayWaits, s) \<Rightarrow> None)"

definition pool_step :: "conn_config \<Rightarrow> pool_event \<Rightarrow> pool_run \<Rightarrow> pool_run outcome option" where
  "pool_step cfg e p =
     (case e of
        OpenConn now k \<Rightarrow>
          (let (c, s) = NewPooledInboundConnection cfg now k (pr_state p)
           in Some (Ret \<lparr>pr_state = s, pr_lanes = (pr_lanes p)(k := new_lane), pr_gone = retired k p\<rparr>))
      | Deliver blk \<Rightarrow> deliver cfg blk p
      | Order k ch \<Rightarrow>
          (case connectionMapping (fst (pr_state p)) k of
             None \<Rightarrow> None
           | Some conn \<Rightarrow>
               (case order_step ch (conn, pr_lanes p k) of
                  None \<Rightarrow> None
                | Some (conn', l) \<Rightarrow>
                    Some (Ret (p\<lparr>pr_state := store_conn k conn' (pr_state p), pr_lanes := (pr_lanes p)(k := l)\<rparr>))))
      | OrderGone i ch \<Rightarrow>
          if i < length (pr_gone p)
          then map_option (\<lambda>cl. Ret (p\<lparr>pr_gone := (pr_gone p)[i := cl]\<rparr>)) (order_step ch (pr_gone p ! i))
          else None
      | ShutConn k \<Rightarrow>
          (case connectionMapping (fst (pr_state p)) k of
             Some (PIn c) \<Rightarrow>
               Some (case chan_close (recvQueue c) of
                       Panic \<Rightarrow> Panic
                     | Ret q \<Rightarrow> Ret (p\<lparr>pr_state := store_conn k (PIn (c\<lparr>recvQueue := q\<rparr>)) (pr_state p)\<rparr>))
           | _ \<Rightarrow> None)
      | LeavePool k \<Rightarrow>
          (case connectionMapping (fst (pr_state p)) k of
             None \<Rightarrow> None
           | Some conn \<Rightarrow> Some (Ret (p\<lparr>pr_state := removeConnection conn (pr_state p), pr_gone := retired k p\<rparr>))))"

fun run_pool :: "conn_config \<Rightarrow> pool_event list \<Rightarrow> pool_run \<Rightarrow> pool_run outcome option" where
  "run_pool cfg [] p = Some (Ret p)"
| "run_pool cfg (e # es) p =
     (case pool_step cfg e p of
        None \<Rightarrow> None
      | Some Panic \<Rightarrow> Some Panic
      | Some (Ret p1) \<Rightarrow> run_pool cfg es p1)"

text \<open>The blocks that arrive in a run, and all connections there have been with their lanes.\<close>
fun delivered :: "pool_event list \<Rightarrow> block list" where
  "delivered [] = []"
| "delivered (Deliver b # es) = b # delivered es"
| "delivered (_ # es) = delivered es"

definition incarnations :: "pool_run \<Rightarrow> (pooled \<times> lane) set" where
  "incarnations p = set (pr_gone p) \<union> {(conn, pr_lanes p k) | k conn. connectionMapping (fst (pr_state p)) k = Some conn}"

section \<open>Every connection has its own stream\<close>

text \<open>
  A lane of a connection whose peer sends the sequence \<open>S\<close>: it was handed only blocks of that
  sequence, each of them still waits in the queue or has been taken in by the relay, and an outbound
  connection exists only because of a block.
\<close>
definition lane_ok :: "block list \<Rightarrow> pooled \<Rightarrow> lane \<Rightarrow> bool" where
  "lane_ok S conn l \<longleftrightarrow> set (ln_got l) \<subseteq> set S
     \<and> (\<exists>A. relay_inv S A (ln_relay l) \<and> A \<union> set (chq (conn_recvQueue conn)) = set (ln_got l))
     \<and> (\<forall>c. conn = POut c \<longrightarrow> ln_got l \<noteq> [])"

definition pool_inv :: "(u32 \<Rightarrow> block list) \<Rightarrow> pool_run \<Rightarrow> bool" where
  "pool_inv S p \<longleftrightarrow>
     (\<forall>k conn. connectionMapping (fst (pr_state p)) k = Some conn \<longrightarrow> connID conn = k \<and> lane_ok (S k) conn (pr_lanes p k))
   \<and> (\<forall>(conn, l)\<in>set (pr_gone p). lane_ok (S (connID conn)) conn l)
   \<and> (\<forall>(k, addr)\<in>set (cpDials (fst (pr_state p))). \<exists>b\<in>set (S k). Type b = TypeConnect \<and> BlockData b = addr)"

lemma pool_invD:
  assumes "pool_inv S p"
  shows "connectionMapping (fst (pr_state p)) k = Some conn \<Longrightarrow> connID conn = k \<and> lane_ok (S k) conn (pr_lanes p k)"
    "(conn, l) \<in> set (pr_gone p) \<Longrightarrow> lane_ok (S (connID conn)) conn l"
    "(k, addr) \<in> set (cpDials (fst (pr_state p))) \<Longrightarrow> \<exists>b\<in>set (S k). Type b = TypeConnect \<and> BlockData b = addr"
  using assms by (auto simp: pool_inv_def)

lemma pool_inv_start: "pool_inv S (start_pool accept g)"
  by (simp add: pool_inv_def start_pool_def NewConnectionPool_def)

lemma set_recvQueue_sel [simp]:
  "connID (set_recvQueue q conn) = connID conn" "conn_recvQueue (set_recvQueue q conn) = q"
  by (cases conn; simp)+

lemma set_recvQueue_POut [simp]: "set_recvQueue q conn = POut c \<Longrightarrow> \<exists>c'. conn = POut c'"
  by (cases conn) auto

lemma lane_ok_order:
  assumes "numbered S" "lane_ok S conn l" "order_step ch (conn, l) = Some (conn', l')"
  shows "lane_ok S conn' l' \<and> connID conn' = connID conn"
proof -
  obtain A where A: "relay_inv S A (ln_relay l)" "A \<union> set (chq (conn_recvQueue conn)) = set (ln_got l)"
    and got: "set (ln_got l) \<subseteq> set S" and new: "\<And>c. conn = POut c \<Longrightarrow> ln_got l \<noteq> []"
    using assms(2) by (auto simp: lane_ok_def)
  have run: "\<not> relay_stopped (ln_relay l)" using assms(3) by (auto simp: order_step_def Let_def split: if_splits)
  show ?thesis
  proof (cases "\<exists>bud. ch = TakeBlock bud \<and> chq (conn_recvQueue conn) \<noteq> []")
    case True
    then obtain bud blk q where q: "ch = TakeBlock bud" "chq (conn_recvQueue conn) = blk # q" by (auto simp: neq_Nil_conv)
    then have l': "conn' = set_recvQueue ((conn_recvQueue conn)\<lparr>chq := q\<rparr>) conn" "l' = l\<lparr>ln_relay := relay_recv bud blk (ln_relay l)\<rparr>"
      using assms(3) run by (simp_all add: order_step_def chan_recv_def)
    have "blk \<in> set S" using A(2) got q(2) by auto
    then have "relay_inv S (insert blk A) (relay_recv bud blk (ln_relay l))" by (rule relay_recv_inv(1) [OF assms(1) _ A(1) run])
    moreover have "insert blk A \<union> set q = set (ln_got l)" using A(2) q(2) by auto
    moreover have "ln_got l \<noteq> []" using A(2) q(2) by auto
    ultimately show ?thesis using got by (auto simp: lane_ok_def l')
  next
    case False
    then have "conn' = conn" "l' = l\<lparr>ln_relay := ln_relay l'\<rparr>" "relay_inv S A (ln_relay l')"
      using assms(3) run A(1)
      by (auto simp: order_step_def chan_recv_def relay_timeout_inv relay_inv_stopped [OF A(1)]
          split: relay_case.splits if_splits list.splits)
    then show ?thesis using A(2) got new unfolding lane_ok_def by (metis (no_types, lifting) lane.select_convs(2) lane.surjective lane.update_convs(1))
  qed
qed

lemma retired_ok: "pool_inv S p \<Longrightarrow> (conn, l) \<in> set (retired k p) \<Longrightarrow> lane_ok (S (connID conn)) conn l"
  using pool_invD(1) [of S p k] pool_invD(2) [of S p] by (auto simp: retired_def split: option.splits)

lemma gone_retired: "set (pr_gone p) \<subseteq> set (retired k p)"
  by (simp add: retired_def)

text \<open>A step that stores a connection and its lane, and may retire the one that was under its ID.\<close>
lemma pool_inv_update:
  assumes "pool_inv S p" "connID conn = k" "lane_ok (S k) conn l"
    and "connectionMapping (fst (pr_state p')) = (connectionMapping (fst (pr_state p)))(k \<mapsto> conn)"
    and "pr_lanes p' = (pr_lanes p)(k := l)" "set (pr_gone p') \<subseteq> set (retired k p)"
    and "set (cpDials (fst (pr_state p'))) \<subseteq> set (cpDials (fst (pr_state p)))
      \<union> {(k, BlockData b) |b. b \<in> set (S k) \<and> Type b = TypeConnect}"
  shows "pool_inv S p'"
proof -
  have "\<exists>b\<in>set (S j). Type b = TypeConnect \<and> BlockData b = addr" if "(j, addr) \<in> set (cpDials (fst (pr_state p')))" for j addr
    using that assms(7) pool_invD(3) [OF assms(1)] by blast
  moreover have "lane_ok (S (connID c)) c m" if "(c, m) \<in> set (pr_gone p')" for c m
    using that assms(6) retired_ok [OF assms(1)] by blast
  ultimately show ?thesis
    using assms(2-5) pool_invD(1) [OF assms(1)] by (auto simp: pool_inv_def)
qed

lemma lane_ok_New: "lane_ok S (PIn (NewInboundConnection cfg now k)) new_lane"
  using relay_inv_init [of S] by (auto simp: lane_ok_def new_lane_def NewInboundConnection_def make_chan_def)

lemma lane_ok_got:
  assumes "case c of Some c' \<Rightarrow> lane_ok S conn l \<and> c' = conn
      | None \<Rightarrow> conn = POut (NewOutboundConnection cfg k) \<and> l = new_lane"
    and "pooled_RecvBlock blk conn = (Proceeds conn', dial)" "blk \<in> set S"
  shows "lane_ok S conn' (l\<lparr>ln_got := ln_got l @ [blk]\<rparr>)"
proof -
  have q: "chq (conn_recvQueue conn') = chq (conn_recvQueue conn) @ [blk]" by (rule pooled_RecvBlock_queue(1) [OF assms(2)])
  obtain A where "relay_inv S A (ln_relay l)" "A \<union> set (chq (conn_recvQueue conn)) = set (ln_got l)" "set (ln_got l) \<subseteq> set S"
    using assms(1) relay_inv_init [of S]
    by (cases c) (auto simp: lane_ok_def new_lane_def NewOutboundConnection_def make_chan_def)
  then show ?thesis using q assms(3) by (auto simp: lane_ok_def intro!: exI [of _ A])
qed

lemma pooled_dial:
  "pooled_RecvBlock blk conn = (a, Some addr) \<Longrightarrow> Type blk = TypeConnect \<and> addr = BlockData blk"
  by (cases conn) (auto simp: out_RecvBlock_def split: if_splits)

lemma pool_inv_deliver:
  assumes "pool_inv S p" "deliver cfg blk p = Some (Ret p')" "blk \<in> set (S (ConnectionID blk))"
  shows "pool_inv S p'"
proof -
  let ?k = "ConnectionID blk" and ?m = "connectionMapping (fst (pr_state p))"
  obtain s where s: "recvRelay_block cfg blk (pr_state p) = (RelayGoesOn, s)"
    using assms(2) by (auto simp: deliver_def Let_def split: prod.splits relay_status.splits)
  from s show ?thesis
  proof (cases rule: recvRelay_block_cases)
    case dropped
    with s assms(1,2) show ?thesis by (simp add: deliver_def)
  next
    case (queued conn conn' dial)
    define l where "l = (if ?m ?k = None then new_lane else pr_lanes p ?k)"
    have p': "p' = p\<lparr>pr_state := s, pr_lanes := (pr_lanes p)(?k := l\<lparr>ln_got := ln_got l @ [blk]\<rparr>)\<rparr>"
      using assms(2) s queued(3) by (simp add: deliver_def Let_def l_def)
    have id: "connID conn' = ?k"
      using queued(2) pooled_RecvBlock_queue(2) [OF queued(1)] pool_invD(1) [OF assms(1), of ?k] by (auto split: option.splits)
    have ok: "lane_ok (S ?k) conn' (l\<lparr>ln_got := ln_got l @ [blk]\<rparr>)"
      by (rule lane_ok_got [where c = "?m ?k" and cfg = cfg and k = ?k, OF _ queued(1) assms(3)])
        (use queued(2) pool_invD(1) [OF assms(1), of ?k] in \<open>auto simp: l_def split: option.splits\<close>)
    show ?thesis
      by (rule pool_inv_update [OF assms(1) id ok])
        (use queued(3,5) assms(3) gone_retired pooled_dial [of blk conn "Proceeds conn'"] queued(1) in \<open>auto simp: p' split: option.splits\<close>)
  qed
qed

lemma store_conn_sel [simp]:
  "connectionMapping (fst (store_conn k conn s)) = (connectionMapping (fst s))(k \<mapsto> conn)"
  "cpDials (fst (store_conn k conn s)) = cpDials (fst s)"
  by (simp_all add: store_conn_def)

lemma pool_inv_step:
  assumes "\<And>k. numbered (S k)" "pool_inv S p" "pool_step cfg e p = Some (Ret p')"
    and "\<And>b. e = Deliver b \<Longrightarrow> b \<in> set (S (ConnectionID b))"
  shows "pool_inv S p'"
proof (cases e)
  case (OpenConn now k)
  let ?c = "PIn (NewInboundConnection cfg now k)"
  have p': "p' = \<lparr>pr_state = addConnection ?c (pr_state p), pr_lanes = (pr_lanes p)(k := new_lane), pr_gone = retired k p\<rparr>"
    using assms(3) OpenConn by (simp add: pool_step_def NewPooledInboundConnection_def Let_def)
  show ?thesis
    by (rule pool_inv_update [OF assms(2) _ lane_ok_New, of cfg now k k]) (simp_all add: p' addConnection_def case_prod_beta)
next
  case (Deliver b)
  with assms(2-4) show ?thesis by (auto simp: pool_step_def intro: pool_inv_deliver)
next
  case (Order k ch)
  then obtain conn conn' l where m: "connectionMapping (fst (pr_state p)) k = Some conn"
    and o: "order_step ch (conn, pr_lanes p k) = Some (conn', l)"
    and p': "p' = p\<lparr>pr_state := store_conn k conn' (pr_state p), pr_lanes := (pr_lanes p)(k := l)\<rparr>"
    using assms(3) by (auto simp: pool_step_def split: option.splits)
  note ok = pool_invD(1) [OF assms(2) m]
  with lane_ok_order [OF assms(1) _ o, of k] have "lane_ok (S k) conn' l" "connID conn' = k" by simp_all
  then show ?thesis by (intro pool_inv_update [OF assms(2), of conn' k l]) (simp_all add: p' gone_retired)
next
  case (OrderGone i ch)
  then obtain c l c' l' where i: "i < length (pr_gone p)" "pr_gone p ! i = (c, l)" "order_step ch (c, l) = Some (c', l')"
    and p': "p' = p\<lparr>pr_gone := (pr_gone p)[i := (c', l')]\<rparr>"
    using assms(3) by (cases "pr_gone p ! i") (auto simp: pool_step_def split: if_splits)
  have "(c, l) \<in> set (pr_gone p)" using i by (metis nth_mem)
  from lane_ok_order [OF assms(1) pool_invD(2) [OF assms(2) this] i(3)] have "lane_ok (S (connID c')) c' l'" by simp
  with assms(2) show ?thesis by (auto simp: pool_inv_def p' dest!: set_update_subset_insert [THEN subsetD])
next
  case (ShutConn k)
  then obtain c q where m: "connectionMapping (fst (pr_state p)) k = Some (PIn c)" and q: "chan_close (recvQueue c) = Ret q"
    and p': "p' = p\<lparr>pr_state := store_conn k (PIn (c\<lparr>recvQueue := q\<rparr>)) (pr_state p)\<rparr>"
    using assms(3) by (auto simp: pool_step_def split: option.splits pooled.splits outcome.splits)
  have "lane_ok (S k) (PIn (c\<lparr>recvQueue := q\<rparr>)) (pr_lanes p k)" "connectionID c = k"
    using pool_invD(1) [OF assms(2) m] q by (auto simp: lane_ok_def chan_close_def split: if_splits)
  then show ?thesis
    by (intro pool_inv_update [OF assms(2), of "PIn (c\<lparr>recvQueue := q\<rparr>)" k "pr_lanes p k"]) (simp_all add: p' gone_retired)
next
  case (LeavePool k)
  then obtain conn where m: "connectionMapping (fst (pr_state p)) k = Some conn"
    and p': "p' = p\<lparr>pr_state := removeConnection conn (pr_state p), pr_gone := retired k p\<rparr>"
    using assms(3) by (auto simp: pool_step_def split: option.splits)
  have "cpDials (fst (removeConnection conn s)) = cpDials (fst s)" for s
    by (simp add: removeConnection_def case_prod_beta)
  with assms(2) retired_ok [OF assms(2)] show ?thesis by (auto simp: pool_inv_def p')
qed

lemma pool_inv_run:
  assumes "\<And>k. numbered (S k)"
  shows "run_pool cfg es p = Some (Ret p') \<Longrightarrow> pool_inv S p \<Longrightarrow> (\<And>b. b \<in> set (delivered es) \<Longrightarrow> b \<in> set (S (ConnectionID b)))
     \<Longrightarrow> pool_inv S p'"
proof (induction es arbitrary: p)
  case (Cons e es)
  then obtain p1 where p1: "pool_step cfg e p = Some (Ret p1)" "run_pool cfg es p1 = Some (Ret p')"
    by (auto split: option.splits outcome.splits)
  have sub: "set (delivered es) \<subseteq> set (delivered (e # es))" "e = Deliver b \<Longrightarrow> b \<in> set (delivered (e # es))" for b
    by (cases e; auto)+
  then have "pool_inv S p1" using Cons.prems(3) by (intro pool_inv_step [OF assms Cons.prems(2) p1(1)]) blast
  from Cons.IH [OF p1(2) this] Cons.prems(3) sub show ?case by blast
qed simp

text \<open>What a lane has handed over, and when that is everything.\<close>
lemma lane_ok_ordered:
  assumes "lane_ok S conn l"
  obtains r where "r \<le> length S" "ordered (ln_relay l) = take r S"
    and "\<not> relay_stopped (ln_relay l) \<Longrightarrow> chq (conn_recvQueue conn) = [] \<Longrightarrow> set S \<subseteq> set (ln_got l) \<Longrightarrow> r = length S"
proof -
  obtain A where A: "relay_inv S A (ln_relay l)" "A \<union> set (chq (conn_recvQueue conn)) = set (ln_got l)"
    using assms by (auto simp: lane_ok_def)
  then obtain r where r: "r \<le> length S" "ordered (ln_relay l) = take r S"
    "\<not> relay_stopped (ln_relay l) \<Longrightarrow> r < length S \<Longrightarrow> S ! r \<notin> A" by (auto simp: relay_inv_def)
  have "r = length S"
    if "\<not> relay_stopped (ln_relay l)" "chq (conn_recvQueue conn) = []" "set S \<subseteq> set (ln_got l)"
  proof (rule ccontr)
    assume "r \<noteq> length S"
    then have "r < length S" "S ! r \<in> A" using r(1) A(2) that(2,3) by (auto dest: nth_mem)
    with r(3) that(1) show False by blast
  qed
  with r(1,2) show thesis by (rule that)
qed

section \<open>When a pool panics\<close>

definition queues_open :: "pool_run \<Rightarrow> bool" where
  "queues_open p \<longleftrightarrow> (\<forall>conn\<in>ran (connectionMapping (fst (pr_state p))). \<not> chclosed (conn_recvQueue conn))"

lemma pooled_RecvBlock_open:
  assumes "\<not> chclosed (conn_recvQueue conn)"
  shows "fst (pooled_RecvBlock blk conn) \<noteq> Panics"
    and "pooled_RecvBlock blk conn = (Proceeds conn', dial) \<Longrightarrow> \<not> chclosed (conn_recvQueue conn')"
  using assms
  by (cases conn; auto simp: RecvBlock_def out_RecvBlock_def chan_send_def split: attempt.splits if_splits)+

lemma order_step_open:
  "order_step ch (conn, l) = Some (conn', l') \<Longrightarrow> chclosed (conn_recvQueue conn') = chclosed (conn_recvQueue conn)"
  by (auto simp: order_step_def chan_recv_def Let_def split: relay_case.splits if_splits list.splits)

lemma ran_upd_subset: "ran (m(k \<mapsto> v)) \<subseteq> insert v (ran m)"
  by (auto simp: ran_def)

lemma queues_open_store:
  assumes "queues_open p" "\<not> chclosed (conn_recvQueue conn)"
    and "connectionMapping (fst (pr_state p')) = (connectionMapping (fst (pr_state p)))(k \<mapsto> conn)"
  shows "queues_open p'"
  using assms(1,2) ran_upd_subset [of "connectionMapping (fst (pr_state p))" k conn]
  unfolding queues_open_def assms(3) by blast

lemma New_queues_open [simp]:
  "\<not> chclosed (recvQueue (NewOutboundConnection cfg k))" "\<not> chclosed (recvQueue (NewInboundConnection cfg now k))"
  by (simp_all add: NewOutboundConnection_def NewInboundConnection_def make_chan_def)

lemma recvRelay_block_no_panic:
  assumes "queues_open p"
  shows "fst (recvRelay_block cfg blk (pr_state p)) \<noteq> RelayPanics"
proof -
  obtain cp g where s: "pr_state p = (cp, g)" by (cases "pr_state p")
  show ?thesis
  proof (cases "connectionMapping cp (ConnectionID blk)")
    case (Some conn)
    then have "fst (pooled_RecvBlock blk conn) \<noteq> Panics"
      using assms s by (intro pooled_RecvBlock_open(1)) (auto simp: queues_open_def intro: ranI)
    with Some s show ?thesis by (auto simp: recvRelay_block_def Let_def split: prod.splits attempt.splits)
  next
    case None
    have "fst (pooled_RecvBlock blk (POut (NewOutboundConnection cfg (ConnectionID blk)))) \<noteq> Panics"
      by (rule pooled_RecvBlock_open(1)) simp
    with None s show ?thesis
      by (auto simp: recvRelay_block_def Let_def NewPooledOutboundConnection_def addConnection_def
          simp del: pooled_RecvBlock.simps split: prod.splits attempt.splits)
  qed
qed

lemma queues_open_step:
  assumes "queues_open p" "pool_step cfg e p = Some r" "\<And>k. e \<noteq> ShutConn k"
  shows "\<exists>p'. r = Ret p' \<and> queues_open p'"
proof (cases e)
  case (OpenConn now k)
  with assms(2) show ?thesis
    by (auto simp: pool_step_def NewPooledInboundConnection_def Let_def
        intro!: queues_open_store [OF assms(1), of "PIn (NewInboundConnection cfg now k)"])
next
  case (Deliver blk)
  obtain st s where st: "recvRelay_block cfg blk (pr_state p) = (st, s)" by (metis prod.collapse)
  then have go: "st = RelayGoesOn" and r: "\<exists>l. r = Ret (p\<lparr>pr_state := s, pr_lanes := l\<rparr>)"
    using assms(2) Deliver recvRelay_block_no_panic [OF assms(1), of cfg blk]
    by (auto simp: pool_step_def deliver_def Let_def split: relay_status.splits if_splits intro: exI [of _ "pr_lanes p"])
  from st [unfolded go] have "\<exists>p'. r = Ret p' \<and> pr_state p' = s" using r by auto
  moreover from st [unfolded go] have "queues_open p'" if "pr_state p' = s" for p'
  proof (cases rule: recvRelay_block_cases)
    case dropped
    with assms(1) that show ?thesis by (simp add: queues_open_def)
  next
    case (queued conn conn' dial)
    then have "\<not> chclosed (conn_recvQueue conn)"
      using assms(1) by (auto simp: queues_open_def ran_def split: option.splits)
    then have "\<not> chclosed (conn_recvQueue conn')" by (rule pooled_RecvBlock_open(2) [OF _ queued(1)])
    then show ?thesis by (rule queues_open_store [OF assms(1)]) (simp add: that queued(3))
  qed
  ultimately show ?thesis by blast
next
  case (Order k ch)
  then obtain conn conn' l where m: "connectionMapping (fst (pr_state p)) k = Some conn"
    and o: "order_step ch (conn, pr_lanes p k) = Some (conn', l)"
    and r: "r = Ret (p\<lparr>pr_state := store_conn k conn' (pr_state p), pr_lanes := (pr_lanes p)(k := l)\<rparr>)"
    using assms(2) by (auto simp: pool_step_def split: option.splits)
  have "\<not> chclosed (conn_recvQueue conn')"
    using assms(1) m order_step_open [OF o] by (auto simp: queues_open_def intro: ranI)
  from queues_open_store [OF assms(1) this] r show ?thesis by simp
next
  case (OrderGone i ch)
  with assms(1,2) show ?thesis by (auto simp: pool_step_def queues_open_def split: if_splits)
next
  case (ShutConn k)
  with assms(3) show ?thesis by blast
next
  case (LeavePool k)
  with assms(1,2) show ?thesis by (fastforce simp: pool_step_def queues_open_def ran_def split: option.splits if_splits)
qed

lemma run_pool_panics: "run_pool cfg es p = Some Panic \<Longrightarrow> queues_open p \<Longrightarrow> \<exists>k. ShutConn k \<in> set es"
proof (induction es arbitrary: p)
  case (Cons e es)
  then show ?case
    using queues_open_step [OF Cons.prems(2)] by (fastforce split: option.splits outcome.splits)
qed simp

section \<open>Properties\<close>

lemma incarnations_ok: "pool_inv S p \<Longrightarrow> (conn, l) \<in> incarnations p \<Longrightarrow> lane_ok (S (connID conn)) conn l"
  by (auto simp: incarnations_def dest: pool_invD(1,2))


text \<open>The blocks of two connections arrive interleaved, those of the first one in the wrong order.\<close>
definition two_streams :: "u32 \<Rightarrow> block list" where
  "two_streams k = (if k = 7 then [NewConnectBlock 0 7 0 [104], newDataBlock 0 7 1 [65]]
     else if k = 8 then [NewConnectBlock 0 8 0 [105]] else [])"

definition two_stream_events :: "pool_event list" where
  "two_stream_events = [Deliver (newDataBlock 0 7 1 [65]), Deliver (NewConnectBlock 0 8 0 [105]), Order 7 (TakeBlock None),
     Deliver (NewConnectBlock 0 7 0 [104]), Order 8 (TakeBlock None), Order 7 (TakeBlock None)]"

lemma numbered_two_streams: "numbered (two_streams k)"
  by (auto simp: two_streams_def numbered_def NewConnectBlock_def less_Suc_eq)

lemma mapped_incarnation: "connectionMapping (fst (pr_state p)) k = Some conn \<Longrightarrow> (conn, pr_lanes p k) \<in> incarnations p"
  by (auto simp: incarnations_def)

lemma two_streams_run:
  obtains p conn where "run_pool default_conn_config two_stream_events (start_pool True (InitStats 10)) = Some (Ret p)"
    and "connectionMapping (fst (pr_state p)) 7 = Some conn" "connID conn = 7"
    and "\<not> relay_stopped (ln_relay (pr_lanes p 7))" "chq (conn_recvQueue conn) = []"
    and "ln_got (pr_lanes p 7) = [newDataBlock 0 7 1 [65], NewConnectBlock 0 7 0 [104]]"
  by (simp add: two_stream_events_def start_pool_def pool_step_def deliver_def recvRelay_block_def NewConnectionPool_def
      NewPooledOutboundConnection_def addConnection_def out_RecvBlock_def RecvBlock_def chan_send_def chan_recv_def order_step_def
      store_conn_def new_lane_def NewOutboundConnection_def make_chan_def default_conn_config_def NewConnectBlock_def
      new_relay_def relay_recv_def newBlockProcessor_def drain_cache.simps Let_def)


text \<open>
  A connection that has left the table is made anew by the next block with its ID: a connect block that
  arrives once more (a tunnel whose write was reported as failed sends it again) makes the pool dial
  a second time and hands the same block over to the new connection.
\<close>
lemma duplicate_connect_redials:
  "\<exists>p conn l. run_pool default_conn_config
       [Deliver (NewConnectBlock 0 7 0 [104]), Order 7 (TakeBlock None), LeavePool 7,
        Deliver (NewConnectBlock 0 7 0 [104]), Order 7 (TakeBlock None)] (start_pool True (InitStats 10)) = Some (Ret p)
     \<and> pr_gone p = [(conn, l)] \<and> ordered (ln_relay l) = [NewConnectBlock 0 7 0 [104]]
     \<and> ordered (ln_relay (pr_lanes p 7)) = [NewConnectBlock 0 7 0 [104]]
     \<and> cpDials (fst (pr_state p)) = [(7, [104]), (7, [104])]"
  by (simp add: start_pool_def pool_step_def deliver_def recvRelay_block_def NewConnectionPool_def retired_def
      NewPooledOutboundConnection_def addConnection_def removeConnection_def out_RecvBlock_def RecvBlock_def chan_send_def
      chan_recv_def order_step_def store_conn_def new_lane_def NewOutboundConnection_def make_chan_def default_conn_config_def
      NewConnectBlock_def new_relay_def relay_recv_def newBlockProcessor_def drain_cache.simps Let_def)

end
