(* ===== verification/Cipher.thy ===== *)
theory Cipher
  imports Prelude
begin

text \<open>
  Choice of the tunnel cipher and derivation of its keys, \<open>tunnel/aead.go\<close> and
  \<open>tunnel/cipher.go\<close>. The cryptographic primitives are parameters, collected in the record
  \<open>crypto_lib\<close>; an AEAD instance is the record \<open>aead\<close> of its methods, with the additional data
  that the callers leave empty. What the callers rely on is stated by \<open>aead_ok\<close> (opening inverts
  sealing under the same nonce, sealing adds a fixed overhead) and \<open>lib_ok\<close>.
  Cipher names are ASCII strings; a password is the list of its bytes.
\<close>

section \<open>Primitives\<close>

record aead =
  NonceSize :: nat
  Overhead :: nat
  Seal :: "byte list \<Rightarrow> byte list \<Rightarrow> byte list"
  Open :: "byte list \<Rightarrow> byte list \<Rightarrow> byte list option"

definition aead_ok :: "aead \<Rightarrow> bool" where
  "aead_ok a \<longleftrightarrow>
     (\<forall>nonce p. length nonce = NonceSize a \<longrightarrow>
        Open a nonce (Seal a nonce p) = Some p \<and> length (Seal a nonce p) = length p + Overhead a)"

lemma aead_ok_open [simp]:
  "aead_ok a \<Longrightarrow> length nonce = NonceSize a \<Longrightarrow> Open a nonce (Seal a nonce p) = Some p"
  unfolding aead_ok_def by blast

lemma aead_ok_length [simp]:
  "aead_ok a \<Longrightarrow> length nonce = NonceSize a \<Longrightarrow> length (Seal a nonce p) = length p + Overhead a"
  unfolding aead_ok_def by blast

text \<open>
  \<open>md5\<close> is the digest of a message; \<open>hkdfRead secret salt info n\<close> the first \<open>n\<close> bytes of the
  HKDF-SHA1 stream (\<open>None\<close>: the reader failed); then the block cipher, GCM and ChaCha constructors.
\<close>
record 'blk crypto_lib =
  md5 :: "byte list \<Rightarrow> byte list"
  hkdfRead :: "byte list \<Rightarrow> byte list \<Rightarrow> byte list \<Rightarrow> nat \<Rightarrow> byte list option"
  aesNewCipher :: "byte list \<Rightarrow> 'blk result"
  NewGCM :: "'blk \<Rightarrow> aead result"
  chachaNew :: "byte list \<Rightarrow> aead result"

definition chachaKeySize :: nat where
  "chachaKeySize = 32"

definition md5Size :: nat where
  "md5Size = 16"

text \<open>
  The documented behaviour of the primitives: the digest and key-stream lengths, which key lengths
  the constructors accept, and that what they construct are AEADs.
\<close>
definition lib_ok :: "'blk crypto_lib \<Rightarrow> bool" where
  "lib_ok L \<longleftrightarrow>
     (\<forall>m. length (md5 L m) = md5Size)
   \<and> (\<forall>secret salt info n. n \<le> 255 * 20 \<longrightarrow> (\<exists>k. hkdfRead L secret salt info n = Some k \<and> length k = n))
   \<and> (\<forall>key. length key \<in> {16, 24, 32} \<longrightarrow>
        (\<exists>b a. aesNewCipher L key = Inr b \<and> NewGCM L b = Inr a \<and> aead_ok a))
   \<and> (\<forall>key. length key = chachaKeySize \<longrightarrow> (\<exists>a. chachaNew L key = Inr a \<and> aead_ok a))"

section \<open>Ciphers with a pre-shared key (cipher.go)\<close>

record metaCipher =
  psk :: "byte list"
  makeAEAD :: "byte list \<Rightarrow> aead result"

definition KeySize :: "metaCipher \<Rightarrow> nat" where
  "KeySize a = length (psk a)"

definition SaltSize :: "metaCipher \<Rightarrow> nat" where
  "SaltSize a = (let ks = KeySize a in if ks > 16 then ks else 16)"

definition hkdfSHA1 :: "'blk crypto_lib \<Rightarrow> byte list \<Rightarrow> byte list \<Rightarrow> byte list \<Rightarrow> nat \<Rightarrow> byte list outcome" where
  "hkdfSHA1 L secret salt info n =
     (case hkdfRead L secret salt info n of None \<Rightarrow> Panic | Some outkey \<Rightarrow> Ret outkey)"

text \<open>The bytes of the text \<open>ss-subkey\<close>.\<close>
definition ss_subkey :: "byte list" where
  "ss_subkey = [115, 115, 45, 115, 117, 98, 107, 101, 121]"

definition Encrypter :: "'blk crypto_lib \<Rightarrow> metaCipher \<Rightarrow> byte list \<Rightarrow> aead result outcome" where
  "Encrypter L a salt =
     (case hkdfSHA1 L (psk a) salt ss_subkey (KeySize a) of
        Panic \<Rightarrow> Panic | Ret subkey \<Rightarrow> Ret (makeAEAD a subkey))"

definition Decrypter :: "'blk crypto_lib \<Rightarrow> metaCipher \<Rightarrow> byte list \<Rightarrow> aead result outcome" where
  "Decrypter L a salt =
     (case hkdfSHA1 L (psk a) salt ss_subkey (KeySize a) of
        Panic \<Rightarrow> Panic | Ret subkey \<Rightarrow> Ret (makeAEAD a subkey))"

text \<open>The key derivation loop; \<open>None\<close> means it has not ended within the fuel.\<close>
fun kdf_loop :: "nat \<Rightarrow> 'blk crypto_lib \<Rightarrow> byte list \<Rightarrow> nat \<Rightarrow> byte list \<Rightarrow> byte list \<Rightarrow> byte list option" where
  "kdf_loop fuel L password keyLen b prev =
     (if length b < keyLen
      then (case fuel of
              0 \<Rightarrow> None
            | Suc fuel' \<Rightarrow>
                (let b' = b @ md5 L (prev @ password)
                 in kdf_loop fuel' L password keyLen b' (drop (length b' - md5Size) b')))
      else Some (take keyLen b))"

declare kdf_loop.simps [simp del]

text \<open>Each round adds sixteen bytes, so one round per byte is more than enough.\<close>
definition kdf :: "'blk crypto_lib \<Rightarrow> byte list \<Rightarrow> nat \<Rightarrow> byte list option" where
  "kdf L password keyLen = kdf_loop keyLen L password keyLen [] []"

section \<open>Selection by name (aead.go)\<close>

definition makeAESGCM :: "'blk crypto_lib \<Rightarrow> byte list \<Rightarrow> aead result" where
  "makeAESGCM L key = (case aesNewCipher L key of Inl e \<Rightarrow> Inl e | Inr blk \<Rightarrow> NewGCM L blk)"

definition aesGCM :: "'blk crypto_lib \<Rightarrow> byte list \<Rightarrow> metaCipher result" where
  "aesGCM L key =
     (if length key \<in> {16, 24, 32} then Inr \<lparr>psk = key, makeAEAD = makeAESGCM L\<rparr>
      else Inl (AesKeySizeError (length key)))"

definition chacha20Poly1305 :: "'blk crypto_lib \<Rightarrow> byte list \<Rightarrow> metaCipher result" where
  "chacha20Poly1305 L key =
     (if length key \<noteq> chachaKeySize then Inl (KeySizeError chachaKeySize)
      else Inr \<lparr>psk = key, makeAEAD = chachaNew L\<rparr>)"

definition aeadAes128Gcm :: string where "aeadAes128Gcm = ''AEAD_AES_128_GCM''"
definition aeadAes192Gcm :: string where "aeadAes192Gcm = ''AEAD_AES_192_GCM''"
definition aeadAes256Gcm :: string where "aeadAes256Gcm = ''AEAD_AES_256_GCM''"
definition aeadChacha20Poly1305 :: string where "aeadChacha20Poly1305 = ''AEAD_CHACHA20_POLY1305''"

definition aeadList :: "'blk crypto_lib \<Rightarrow> string \<Rightarrow> (nat \<times> (byte list \<Rightarrow> metaCipher result)) option" where
  "aeadList L name =
     (if name = aeadAes128Gcm then Some (16, aesGCM L)
      else if name = aeadAes192Gcm then Some (24, aesGCM L)
      else if name = aeadAes256Gcm then Some (32, aesGCM L)
      else if name = aeadChacha20Poly1305 then Some (32, chacha20Poly1305 L)
      else None)"

text \<open>\<open>strings.ToUpper\<close> on an ASCII string.\<close>
definition to_upper :: "char \<Rightarrow> char" where
  "to_upper c = (let n = of_char c :: nat in if 97 \<le> n \<and> n \<le> 122 then char_of (n - 32) else c)"

definition canonical_name :: "string \<Rightarrow> string" where
  "canonical_name name0 =
     (let name = map to_upper name0 in
      if name = ''CHACHA20-IETF-POLY1305'' then aeadChacha20Poly1305
      else if name = ''AES-128-GCM'' then aeadAes128Gcm
      else if name = ''AES-192-GCM'' then aeadAes192Gcm
      else if name = ''AES-256-GCM'' then aeadAes256Gcm
      else name)"

definition NewAEADCipher :: "'blk crypto_lib \<Rightarrow> string \<Rightarrow> byte list \<Rightarrow> byte list \<Rightarrow> metaCipher result option" where
  "NewAEADCipher L name key password =
     (case aeadList L (canonical_name name) of
        Some (keySize, New) \<Rightarrow>
          (case (if length key = 0 then kdf L password keySize else Some key) of
             None \<Rightarrow> None
           | Some k \<Rightarrow> Some (if length k \<noteq> keySize then Inl (KeySizeError keySize) else New k))
      | None \<Rightarrow> Some (Inl ErrCipherNotSupported))"

section \<open>Interface: ciphers whose two directions agree\<close>

text \<open>
  What the secure stream relies on: both ends, given the same pre-shared key and salt, obtain the
  same working AEAD.
\<close>
locale cipher_pair =
  fixes good :: "'c \<Rightarrow> bool"
    and salt_size :: "'c \<Rightarrow> nat"
    and enc :: "'c \<Rightarrow> byte list \<Rightarrow> aead result outcome"
    and dec :: "'c \<Rightarrow> byte list \<Rightarrow> aead result outcome"
  assumes salt_pos: "0 < salt_size c"
    and agree: "enc c salt = dec c salt"
    and works: "good c \<Longrightarrow> \<exists>a. enc c salt = Ret (Inr a) \<and> aead_ok a"
begin

lemma both_work: "good c \<Longrightarrow> \<exists>a. enc c salt = Ret (Inr a) \<and> dec c salt = Ret (Inr a) \<and> aead_ok a"
  using works [of c salt] agree [of c salt] by auto

end

text \<open>The ciphers that \<open>NewAEADCipher\<close> makes.\<close>
definition good_cipher :: "'blk crypto_lib \<Rightarrow> metaCipher \<Rightarrow> bool" where
  "good_cipher L c \<longleftrightarrow> lib_ok L \<and>
     (length (psk c) \<in> {16, 24, 32} \<and> makeAEAD c = makeAESGCM L
      \<or> length (psk c) = chachaKeySize \<and> makeAEAD c = chachaNew L)"

lemma lib_okD:
  assumes "lib_ok L"
  shows "length (md5 L m) = md5Size"
    and "n \<le> 5100 \<Longrightarrow> \<exists>k. hkdfRead L secret salt info n = Some k \<and> length k = n"
    and "length key \<in> {16, 24, 32} \<Longrightarrow> \<exists>a. makeAESGCM L key = Inr a \<and> aead_ok a"
    and "length key = chachaKeySize \<Longrightarrow> \<exists>a. chachaNew L key = Inr a \<and> aead_ok a"
proof -
  from assms show "length (md5 L m) = md5Size"
    unfolding lib_ok_def by blast
  show "\<exists>k. hkdfRead L secret salt info n = Some k \<and> length k = n" if "n \<le> 5100"
    using assms that unfolding lib_ok_def by simp
  show "\<exists>a. chachaNew L key = Inr a \<and> aead_ok a" if "length key = chachaKeySize"
    using assms that unfolding lib_ok_def by blast
  assume "length key \<in> {16, 24, 32}"
  then obtain b a where "aesNewCipher L key = Inr b" "NewGCM L b = Inr a" "aead_ok a"
    using assms unfolding lib_ok_def by blast
  then show "\<exists>a. makeAESGCM L key = Inr a \<and> aead_ok a"
    by (simp add: makeAESGCM_def)
qed

lemma good_cipher_makes:
  assumes "good_cipher L c" "length key = length (psk c)"
  shows "\<exists>a. makeAEAD c key = Inr a \<and> aead_ok a"
  using assms lib_okD(3,4) [of L key] by (auto simp: good_cipher_def)

lemma good_cipher_Encrypter:
  assumes "good_cipher L c"
  shows "\<exists>a. Encrypter L c salt = Ret (Inr a) \<and> aead_ok a"
proof -
  have "length (psk c) \<le> 5100" "lib_ok L"
    using assms by (auto simp: good_cipher_def chachaKeySize_def)
  then obtain k where "hkdfRead L (psk c) salt ss_subkey (length (psk c)) = Some k" "length k = length (psk c)"
    using lib_okD(2) by blast
  with good_cipher_makes [OF assms, of k] show ?thesis
    by (auto simp: Encrypter_def hkdfSHA1_def KeySize_def)
qed

lemma Encrypter_eq_Decrypter: "Encrypter L c salt = Decrypter L c salt"
  by (simp add: Encrypter_def Decrypter_def)

interpretation meta: cipher_pair "good_cipher L" SaltSize "Encrypter L" "Decrypter L" for L
  by unfold_locales (simp_all add: SaltSize_def Let_def Encrypter_eq_Decrypter good_cipher_Encrypter flip: Encrypter_eq_Decrypter)

section \<open>Key derivation\<close>

text \<open>The digests of OpenSSL's key derivation, one after another.\<close>
fun digest :: "'blk crypto_lib \<Rightarrow> byte list \<Rightarrow> nat \<Rightarrow> byte list" where
  "digest L pw 0 = md5 L pw"
| "digest L pw (Suc i) = md5 L (digest L pw i @ pw)"

definition digests :: "'blk crypto_lib \<Rightarrow> byte list \<Rightarrow> nat \<Rightarrow> byte list" where
  "digests L pw r = concat (map (digest L pw) [0..<r])"

lemma length_digest: "lib_ok L \<Longrightarrow> length (digest L pw i) = md5Size"
  by (cases i) (simp_all add: lib_okD(1))

lemma digests_Suc: "digests L pw (Suc r) = digests L pw r @ digest L pw r"
  by (simp add: digests_def)

lemma length_digests: "lib_ok L \<Longrightarrow> length (digests L pw r) = md5Size * r"
  by (induction r) (simp_all add: digests_Suc length_digest, simp add: digests_def)

lemma drop_last_digest:
  assumes "lib_ok L" "0 < r"
  shows "drop (length (digests L pw r) - md5Size) (digests L pw r) = digest L pw (r - 1)"
proof -
  from assms(2) obtain q where "r = Suc q" by (cases r) auto
  then show ?thesis using assms(1) by (simp add: digests_Suc length_digests length_digest)
qed

lemma kdf_loop_digests:
  assumes "lib_ok L" "keyLen \<le> md5Size * r + md5Size * fuel"
    and "prev = (if r = 0 then [] else digest L pw (r - 1))"
  shows "\<exists>r'. kdf_loop fuel L pw keyLen (digests L pw r) prev = Some (take keyLen (digests L pw r'))
    \<and> keyLen \<le> md5Size * r'"
  using assms
proof (induction fuel arbitrary: r prev)
  case 0
  then show ?case by (subst kdf_loop.simps) (auto simp: length_digests not_less)
next
  case (Suc fuel)
  show ?case
  proof (cases "md5Size * r < keyLen")
    case True
    have step: "digests L pw r @ md5 L (prev @ pw) = digests L pw (Suc r)"
      using Suc.prems(3) by (cases r) (simp_all add: digests_Suc)
    have "keyLen \<le> md5Size * Suc r + md5Size * fuel"
      using Suc.prems(2) by simp
    from Suc.IH [OF Suc.prems(1) this refl] obtain r' where
      "kdf_loop fuel L pw keyLen (digests L pw (Suc r)) (digest L pw r) = Some (take keyLen (digests L pw r'))"
      "keyLen \<le> md5Size * r'"
      by auto
    moreover have "drop (length (digests L pw (Suc r)) - md5Size) (digests L pw (Suc r)) = digest L pw r"
      using drop_last_digest [OF Suc.prems(1), of "Suc r" pw] by simp
    ultimately show ?thesis
      using True Suc.prems(1)
      by (subst kdf_loop.simps) (auto simp: length_digests step Let_def)
  next
    case False
    then show ?thesis
      using Suc.prems(1) by (subst kdf_loop.simps) (auto simp: length_digests)
  qed
qed

lemma digests_prefix: "q \<le> r \<Longrightarrow> \<exists>ys. digests L pw r = digests L pw q @ ys"
  by (induction r) (auto simp: digests_Suc le_Suc_eq)

lemma take_digests:
  assumes "lib_ok L" "n \<le> md5Size * q" "n \<le> md5Size * r"
  shows "take n (digests L pw q) = take n (digests L pw r)"
proof (cases "q \<le> r")
  case True
  from digests_prefix [OF this, of L pw] assms show ?thesis
    by (auto simp: length_digests)
next
  case False
  then obtain ys where "digests L pw q = digests L pw r @ ys"
    using digests_prefix [of r q L pw] by auto
  with assms show ?thesis by (simp add: length_digests)
qed

lemma kdf_digests:
  assumes "lib_ok L" "keyLen \<le> md5Size * r"
  shows "kdf L pw keyLen = Some (take keyLen (digests L pw r))"
proof -
  have "keyLen \<le> md5Size * 0 + md5Size * keyLen" by (simp add: md5Size_def)
  from kdf_loop_digests [OF assms(1) this refl] obtain r' where
    "kdf_loop keyLen L pw keyLen [] [] = Some (take keyLen (digests L pw r'))" "keyLen \<le> md5Size * r'"
    by (auto simp: digests_def)
  then show ?thesis
    using take_digests [OF assms(1) _ assms(2), of r' pw] by (simp add: kdf_def)
qed

section \<open>A concrete library\<close>

text \<open>
  An instance of the parameters that satisfies \<open>lib_ok\<close>, used by the witnesses: the sealed text
  is the plain text followed by a tag of sixteen bytes, which opening checks.
\<close>
definition demo_tag :: "byte list \<Rightarrow> byte list" where
  "demo_tag nonce = take 16 (nonce @ replicate 16 255)"

definition demo_aead :: aead where
  "demo_aead = \<lparr>NonceSize = 12, Overhead = 16, Seal = (\<lambda>nonce p. p @ demo_tag nonce),
     Open = (\<lambda>nonce c. if length c < 16 \<or> drop (length c - 16) c \<noteq> demo_tag nonce then None
                       else Some (take (length c - 16) c))\<rparr>"

definition demo_lib :: "unit crypto_lib" where
  "demo_lib = \<lparr>md5 = (\<lambda>m. take 16 (m @ replicate 16 0)),
     hkdfRead = (\<lambda>secret salt info n. if n \<le> 255 * 20 then Some (replicate n 7) else None),
     aesNewCipher = (\<lambda>key. if length key \<in> {16, 24, 32} then Inr () else Inl (AesKeySizeError (length key))),
     NewGCM = (\<lambda>_. Inr demo_aead),
     chachaNew = (\<lambda>key. if length key = 32 then Inr demo_aead else Inl (ErrMsg ''bad key length''))\<rparr>"

lemma demo_aead_ok: "aead_ok demo_aead"
  by (simp add: aead_ok_def demo_aead_def demo_tag_def)

lemma demo_lib_ok: "lib_ok demo_lib"
  by (auto simp: lib_ok_def demo_lib_def md5Size_def chachaKeySize_def demo_aead_ok)

section \<open>Properties\<close>

text \<open>
  C32. The derived key is defined for every password and length: it has the length asked for and
  is the start of the concatenated MD5 digests of OpenSSL's derivation, in which each digest is
  taken over the previous digest and the password. In particular a shorter key is a prefix of a
  longer one.
\<close>
theorem kdf_correct:
  assumes "lib_ok L"
  shows "\<exists>k. kdf L pw keyLen = Some k \<and> length k = keyLen
    \<and> k = take keyLen (digests L pw ((keyLen + 15) div 16))
    \<and> (\<forall>m \<le> keyLen. kdf L pw m = Some (take m k))"
proof -
  let ?r = "(keyLen + 15) div 16"
  have r: "keyLen \<le> md5Size * ?r" by (simp add: md5Size_def)
  have "kdf L pw m = Some (take m (take keyLen (digests L pw ?r)))" if "m \<le> keyLen" for m
    using kdf_digests [OF assms, of m ?r pw] r that by (simp add: min_absorb1)
  then show ?thesis
    using kdf_digests [OF assms r, of pw] r by (simp add: length_digests [OF assms])
qed

theorem kdf_correct_witness: "\<exists>k. kdf demo_lib [1, 2] 24 = Some k \<and> length k = 24"
  using kdf_correct [OF demo_lib_ok, of "[1, 2]" 24] by blast

lemma aeadList_Some:
  "aeadList L name = Some (n, New) \<Longrightarrow> lib_ok L \<Longrightarrow> length key = n \<Longrightarrow>
   \<exists>c. New key = Inr c \<and> psk c = key \<and> good_cipher L c"
  by (auto simp: aeadList_def aesGCM_def chacha20Poly1305_def good_cipher_def chachaKeySize_def
      split: if_splits)

lemma NewAEADCipher_made:
  assumes "lib_ok L" "aeadList L (canonical_name name) = Some (n, New)" "\<not> (key \<noteq> [] \<and> length key \<noteq> n)"
  shows "\<exists>c. NewAEADCipher L name key password = Some (Inr c) \<and> KeySize c = n \<and> good_cipher L c
    \<and> Some (psk c) = (if key = [] then kdf L password n else Some key)"
proof -
  have "\<exists>k. kdf L password n = Some k \<and> length k = n"
    using kdf_digests [OF assms(1), of n n password] by (simp add: md5Size_def length_digests [OF assms(1)])
  then obtain k where k: "(if length key = 0 then kdf L password n else Some key) = Some k" "length k = n"
    using assms(3) by (cases "key = []") auto
  obtain c where c: "New k = Inr c" "psk c = k" "good_cipher L c"
    using aeadList_Some [OF assms(2,1) k(2)] by blast
  then show ?thesis using assms(2) k by (simp add: NewAEADCipher_def KeySize_def)
qed

lemma NewAEADCipher_derived:
  assumes "lib_ok L"
  shows "case aeadList L (canonical_name name) of
      None \<Rightarrow> NewAEADCipher L name [] password = Some (Inl ErrCipherNotSupported)
    | Some _ \<Rightarrow> \<exists>c. NewAEADCipher L name [] password = Some (Inr c) \<and> good_cipher L c"
  using NewAEADCipher_made [OF assms, of name _ _ "[]" password]
  by (auto simp: NewAEADCipher_def split: option.splits prod.splits)

text \<open>
  C31. Creating a cipher always gives an answer, on every branch: an unknown name is refused; an
  explicit key of the wrong length is refused with the length needed; otherwise the cipher's key is
  the explicit key or, when none is given, the one derived from the password, and for every salt
  both directions yield the same working AEAD.
\<close>
theorem NewAEADCipher_correct:
  assumes "lib_ok L"
  shows "case aeadList L (canonical_name name) of
      None \<Rightarrow> NewAEADCipher L name key password = Some (Inl ErrCipherNotSupported)
    | Some (n, New) \<Rightarrow>
        if key \<noteq> [] \<and> length key \<noteq> n then NewAEADCipher L name key password = Some (Inl (KeySizeError n))
        else \<exists>c. NewAEADCipher L name key password = Some (Inr c) \<and> KeySize c = n
          \<and> Some (psk c) = (if key = [] then kdf L password n else Some key)
          \<and> (\<forall>salt. \<exists>a. Encrypter L c salt = Ret (Inr a) \<and> Decrypter L c salt = Ret (Inr a) \<and> aead_ok a)"
proof (cases "aeadList L (canonical_name name)")
  case None
  then show ?thesis by (simp add: NewAEADCipher_def)
next
  case (Some choice)
  obtain n New where n: "aeadList L (canonical_name name) = Some (n, New)"
    using Some by (cases choice) auto
  show ?thesis
  proof (cases "key \<noteq> [] \<and> length key \<noteq> n")
    case True
    with n show ?thesis by (simp add: NewAEADCipher_def)
  next
    case False
    from NewAEADCipher_made [OF assms n this] obtain c where
      "NewAEADCipher L name key password = Some (Inr c)" "KeySize c = n" "good_cipher L c"
      "Some (psk c) = (if key = [] then kdf L password n else Some key)" by blast
    with n False meta.both_work [of L c] show ?thesis by auto
  qed
qed

theorem NewAEADCipher_correct_witness:
  "\<exists>c. NewAEADCipher demo_lib ''aes-192-gcm'' [] [1] = Some (Inr c) \<and> KeySize c = 24"
proof -
  have "canonical_name ''aes-192-gcm'' = aeadAes192Gcm"
    by code_simp
  moreover have "aeadList demo_lib aeadAes192Gcm = Some (24, aesGCM demo_lib)"
    by (simp add: aeadList_def aeadAes192Gcm_def aeadAes128Gcm_def)
  ultimately show ?thesis
    using NewAEADCipher_correct [OF demo_lib_ok, of "''aes-192-gcm''" "[]" "[1]"] by auto
qed

end
