(* ===== verification/SecureStream.thy ===== *)
theory SecureStream
  imports Cipher ByteSource
begin

text \<open>
  The encrypted stream over a tunnel's TCP connection, \<open>tunnel/tunnel.go\<close>. A connection is the
  bytes that will still arrive (\<open>cin\<close>) and a sink with the bytes written so far; the script of
  a sink says which of the next writes fail, after how many bytes and with which error. A sink
  keeps the contract of \<open>io.Writer\<close>: a short write comes with an error. The scratch buffers of the
  writer and the reader hold no state between calls, except for the reader's \<open>leftover\<close>.
\<close>

section \<open>Connections\<close>

record sink =
  slog :: "byte list"
  sscript :: "(nat \<times> go_error) option list"

definition sink_write :: "byte list \<Rightarrow> sink \<Rightarrow> (nat \<times> go_error option) \<times> sink" where
  "sink_write b s =
     (case sscript s of
        Some (n, e) # rest \<Rightarrow> ((min n (length b), Some e), s\<lparr>slog := slog s @ take n b, sscript := rest\<rparr>)
      | None # rest \<Rightarrow> ((length b, None), s\<lparr>slog := slog s @ b, sscript := rest\<rparr>)
      | [] \<Rightarrow> ((length b, None), s\<lparr>slog := slog s @ b\<rparr>))"

record net_conn =
  cin :: "byte list"
  cout :: sink

definition payloadSizeMask :: nat where
  "payloadSizeMask = 0x7FFF"

text \<open>The nonce is a little-endian counter.\<close>
fun increment :: "byte list \<Rightarrow> byte list" where
  "increment [] = []"
| "increment (b # bs) = (let b' = b + 1 in if b' \<noteq> 0 then b' # bs else b' # increment bs)"

section \<open>Writer\<close>

record writer =
  wAEAD :: aead
  wnonce :: "byte list"

definition newWriter :: "aead \<Rightarrow> writer" where
  "newWriter a = \<lparr>wAEAD = a, wnonce = replicate (NonceSize a) 0\<rparr>"

text \<open>The two bytes of the payload size, high byte first.\<close>
definition size_header :: "nat \<Rightarrow> byte list" where
  "size_header nr = [of_nat (drop_bit 8 nr), of_nat nr]"

text \<open>The part of an iteration of \<open>ReadFrom\<close> that seals and writes \<open>nr > 0\<close> bytes.\<close>
definition write_record :: "byte list \<Rightarrow> writer \<Rightarrow> net_conn \<Rightarrow> go_error option \<times> writer \<times> net_conn" where
  "write_record p w c =
     (let a = wAEAD w;
          hdr = Seal a (wnonce w) (size_header (length p));
          nonce1 = increment (wnonce w);
          body = Seal a nonce1 p;
          w' = w\<lparr>wnonce := increment nonce1\<rparr>;
          ((_, ew), o') = sink_write (hdr @ body) (cout c)
      in (ew, w', c\<lparr>cout := o'\<rparr>))"

text \<open>
  The reader that \<open>ReadFrom\<close> drains gives some chunks without an error (each read asks for at most
  \<open>payloadSizeMask\<close> bytes) and then a last chunk together with an error.
\<close>
fun ReadFrom_loop :: "byte list list \<Rightarrow> byte list \<times> go_error \<Rightarrow> nat \<Rightarrow> writer \<Rightarrow> net_conn
    \<Rightarrow> (nat \<times> go_error option) \<times> writer \<times> net_conn" where
  "ReadFrom_loop [] (p, er) n w c =
     (let (ew, w1, c1) = (if length p > 0 then write_record p w c else (None, w, c))
      in case ew of
           Some e \<Rightarrow> ((n + length p, Some e), w1, c1)
         | None \<Rightarrow> ((n + length p, if er \<noteq> EOF then Some er else None), w1, c1))"
| "ReadFrom_loop (p # ps) end_rd n w c =
     (let (ew, w1, c1) = (if length p > 0 then write_record p w c else (None, w, c))
      in case ew of
           Some e \<Rightarrow> ((n + length p, Some e), w1, c1)
         | None \<Rightarrow> ReadFrom_loop ps end_rd (n + length p) w1 c1)"

definition ReadFrom :: "byte list list \<Rightarrow> byte list \<times> go_error \<Rightarrow> writer \<Rightarrow> net_conn
    \<Rightarrow> (nat \<times> go_error option) \<times> writer \<times> net_conn" where
  "ReadFrom cs end_rd w c = ReadFrom_loop cs end_rd 0 w c"

text \<open>A \<open>bytes.Buffer\<close> read in pieces of at most \<open>payloadSizeMask\<close> bytes, until its end.\<close>
function chunks :: "byte list \<Rightarrow> byte list list" where
  "chunks b = (if b = [] then [] else take payloadSizeMask b # chunks (drop payloadSizeMask b))"
  by pat_completeness auto
termination
  by (relation "measure length") (auto simp: payloadSizeMask_def)

declare chunks.simps [simp del]

definition w_Write :: "byte list \<Rightarrow> writer \<Rightarrow> net_conn \<Rightarrow> (nat \<times> go_error option) \<times> writer \<times> net_conn" where
  "w_Write b w c = ReadFrom (chunks b) ([], EOF) w c"

section \<open>Reader\<close>

record reader =
  rAEAD :: aead
  rnonce :: "byte list"
  leftover :: "byte list"

definition newReader :: "aead \<Rightarrow> reader" where
  "newReader a = \<lparr>rAEAD = a, rnonce = replicate (NonceSize a) 0, leftover = []\<rparr>"

text \<open>Opening in place overwrites the start of the buffer.\<close>
definition overwrite :: "byte list \<Rightarrow> byte list \<Rightarrow> byte list" where
  "overwrite buf pt = pt @ drop (length pt) buf"

definition header_size :: "byte list \<Rightarrow> nat" where
  "header_size buf = (unat (buf ! 0) * 256 + unat (buf ! 1)) AND payloadSizeMask"

definition read_record :: "reader \<Rightarrow> net_conn \<Rightarrow> byte list result \<times> reader \<times> net_conn" where
  "read_record r c =
     (let a = rAEAD r in
      case ReadFull (2 + Overhead a) (cin c) of
        Inl e \<Rightarrow> (Inl e, r, c\<lparr>cin := []\<rparr>)
      | Inr (hdr, rest) \<Rightarrow>
          (let r1 = r\<lparr>rnonce := increment (rnonce r)\<rparr>; c1 = c\<lparr>cin := rest\<rparr> in
           case Open a (rnonce r) hdr of
             None \<Rightarrow> (Inl ErrAuthFailed, r1, c1)
           | Some pt \<Rightarrow>
               (let n = header_size (overwrite hdr pt) in
                case ReadFull (n + Overhead a) rest of
                  Inl e \<Rightarrow> (Inl e, r1, c1\<lparr>cin := []\<rparr>)
                | Inr (body, rest2) \<Rightarrow>
                    (let r2 = r1\<lparr>rnonce := increment (rnonce r1)\<rparr>; c2 = c1\<lparr>cin := rest2\<rparr> in
                     case Open a (rnonce r1) body of
                       None \<Rightarrow> (Inl ErrAuthFailed, r2, c2)
                     | Some pt2 \<Rightarrow> (Inr (take n (overwrite body pt2)), r2, c2)))))"

definition r_Read :: "nat \<Rightarrow> reader \<Rightarrow> net_conn \<Rightarrow> (byte list \<times> go_error option) \<times> reader \<times> net_conn" where
  "r_Read len r c =
     (if length (leftover r) > 0
      then ((take len (leftover r), None), r\<lparr>leftover := drop len (leftover r)\<rparr>, c)
      else case read_record r c of
        (Inl e, r1, c1) \<Rightarrow> (([], Some e), r1, c1)
      | (Inr xs, r1, c1) \<Rightarrow>
          (let m = min len (length xs)
           in ((take m xs, None), if m < length xs then r1\<lparr>leftover := drop m xs\<rparr> else r1, c1)))"

text \<open>Every record read takes bytes from the connection, so the loop of \<open>WriteTo\<close> ends.\<close>
lemma read_record_consumes:
  assumes "read_record r c = (Inr xs, r', c')"
  shows "length (cin c') < length (cin c)"
proof -
  obtain hdr rest where h: "ReadFull (2 + Overhead (rAEAD r)) (cin c) = Inr (hdr, rest)"
    using assms by (auto simp: read_record_def Let_def split: sum.splits option.splits prod.splits)
  with assms obtain n body rest2 where b: "ReadFull n rest = Inr (body, rest2)" "cin c' = rest2"
    by (auto simp: read_record_def Let_def split: sum.splits option.splits prod.splits)
  show ?thesis using ReadFull_InrD [OF h] ReadFull_InrD [OF b(1)] b(2) by auto
qed

function WriteTo_loop :: "nat \<Rightarrow> sink \<Rightarrow> reader \<Rightarrow> net_conn \<Rightarrow> (nat \<times> go_error option) \<times> sink \<times> reader \<times> net_conn" where
  "WriteTo_loop n s r c =
     (case read_record r c of
        (Inl er, r1, c1) \<Rightarrow> ((n, if er \<noteq> EOF then Some er else None), s, r1, c1)
      | (Inr xs, r1, c1) \<Rightarrow>
          if length xs > 0
          then (case sink_write xs s of
                  ((nw, Some ew), s1) \<Rightarrow> ((n + nw, Some ew), s1, r1, c1)
                | ((nw, None), s1) \<Rightarrow> WriteTo_loop (n + nw) s1 r1 c1)
          else WriteTo_loop n s r1 c1)"
  by pat_completeness auto
termination
  by (relation "measure (\<lambda>(n, s, r, c). length (cin c))") (auto dest!: sym [of _ "read_record _ _"] read_record_consumes)

declare WriteTo_loop.simps [simp del]

text \<open>With a sink that keeps the contract, the loop over the leftover bytes runs at most once.\<close>
definition WriteTo :: "sink \<Rightarrow> reader \<Rightarrow> net_conn \<Rightarrow> (nat \<times> go_error option) \<times> sink \<times> reader \<times> net_conn" where
  "WriteTo s r c =
     (if length (leftover r) > 0
      then (case sink_write (leftover r) s of
              ((nw, Some ew), s1) \<Rightarrow> ((nw, Some ew), s1, r\<lparr>leftover := drop nw (leftover r)\<rparr>, c)
            | ((nw, None), s1) \<Rightarrow> WriteTo_loop nw s1 (r\<lparr>leftover := drop nw (leftover r)\<rparr>) c)
      else WriteTo_loop 0 s r c)"

section \<open>Stream connections\<close>

record streamConn =
  scConn :: net_conn
  scCipher :: metaCipher
  scR :: "reader option"
  scW :: "writer option"

definition initReader :: "'blk crypto_lib \<Rightarrow> streamConn \<Rightarrow> (go_error option \<times> streamConn) outcome" where
  "initReader L sc =
     (let c = scConn sc in
      case ReadFull (SaltSize (scCipher sc)) (cin c) of
        Inl e \<Rightarrow> Ret (Some e, sc\<lparr>scConn := c\<lparr>cin := []\<rparr>\<rparr>)
      | Inr (salt, rest) \<Rightarrow>
          (let sc1 = sc\<lparr>scConn := c\<lparr>cin := rest\<rparr>\<rparr> in
           case Decrypter L (scCipher sc) salt of
             Panic \<Rightarrow> Panic
           | Ret (Inl e) \<Rightarrow> Ret (Some e, sc1)
           | Ret (Inr a) \<Rightarrow> Ret (None, sc1\<lparr>scR := Some (newReader a)\<rparr>)))"

definition sc_Read :: "'blk crypto_lib \<Rightarrow> nat \<Rightarrow> streamConn \<Rightarrow> ((byte list \<times> go_error option) \<times> streamConn) outcome" where
  "sc_Read L len sc =
     (case (case scR sc of None \<Rightarrow> initReader L sc | Some _ \<Rightarrow> Ret (None, sc)) of
        Panic \<Rightarrow> Panic
      | Ret (Some e, sc1) \<Rightarrow> Ret (([], Some e), sc1)
      | Ret (None, sc1) \<Rightarrow>
          (case scR sc1 of
             None \<Rightarrow> Panic
           | Some r \<Rightarrow> (let (res, r', c') = r_Read len r (scConn sc1)
                       in Ret (res, sc1\<lparr>scConn := c', scR := Some r'\<rparr>))))"

definition sc_WriteTo :: "'blk crypto_lib \<Rightarrow> sink \<Rightarrow> streamConn \<Rightarrow> ((nat \<times> go_error option) \<times> sink \<times> streamConn) outcome" where
  "sc_WriteTo L s sc =
     (case (case scR sc of None \<Rightarrow> initReader L sc | Some _ \<Rightarrow> Ret (None, sc)) of
        Panic \<Rightarrow> Panic
      | Ret (Some e, sc1) \<Rightarrow> Ret ((0, Some e), s, sc1)
      | Ret (None, sc1) \<Rightarrow>
          (case scR sc1 of
             None \<Rightarrow> Panic
           | Some r \<Rightarrow> (let (res, s', r', c') = WriteTo s r (scConn sc1)
                       in Ret (res, s', sc1\<lparr>scConn := c', scR := Some r'\<rparr>))))"

text \<open>\<open>rnd n\<close> is what reading \<open>n\<close> bytes from the random source gives.\<close>
definition initWriter :: "'blk crypto_lib \<Rightarrow> (nat \<Rightarrow> byte list result) \<Rightarrow> streamConn \<Rightarrow> (go_error option \<times> streamConn) outcome" where
  "initWriter L rnd sc =
     (case rnd (SaltSize (scCipher sc)) of
        Inl e \<Rightarrow> Ret (Some e, sc)
      | Inr salt \<Rightarrow>
          (case Encrypter L (scCipher sc) salt of
             Panic \<Rightarrow> Panic
           | Ret (Inl e) \<Rightarrow> Ret (Some e, sc)
           | Ret (Inr a) \<Rightarrow>
               (let ((_, ew), o') = sink_write salt (cout (scConn sc));
                    sc1 = sc\<lparr>scConn := (scConn sc)\<lparr>cout := o'\<rparr>\<rparr>
                in case ew of
                     Some e \<Rightarrow> Ret (Some e, sc1)
                   | None \<Rightarrow> Ret (None, sc1\<lparr>scW := Some (newWriter a)\<rparr>))))"

text \<open>The common part of \<open>Write\<close> and \<open>ReadFrom\<close>: make the writer if needed, then use it.\<close>
definition with_writer :: "'blk crypto_lib \<Rightarrow> (nat \<Rightarrow> byte list result)
    \<Rightarrow> (writer \<Rightarrow> net_conn \<Rightarrow> (nat \<times> go_error option) \<times> writer \<times> net_conn)
    \<Rightarrow> streamConn \<Rightarrow> ((nat \<times> go_error option) \<times> streamConn) outcome" where
  "with_writer L rnd f sc =
     (case (case scW sc of None \<Rightarrow> initWriter L rnd sc | Some _ \<Rightarrow> Ret (None, sc)) of
        Panic \<Rightarrow> Panic
      | Ret (Some e, sc1) \<Rightarrow> Ret ((0, Some e), sc1)
      | Ret (None, sc1) \<Rightarrow>
          (case scW sc1 of
             None \<Rightarrow> Panic
           | Some w \<Rightarrow> (let (res, w', c') = f w (scConn sc1)
                       in Ret (res, sc1\<lparr>scConn := c', scW := Some w'\<rparr>))))"

definition sc_Write :: "'blk crypto_lib \<Rightarrow> (nat \<Rightarrow> byte list result) \<Rightarrow> byte list \<Rightarrow> streamConn
    \<Rightarrow> ((nat \<times> go_error option) \<times> streamConn) outcome" where
  "sc_Write L rnd b sc = with_writer L rnd (w_Write b) sc"

definition sc_ReadFrom :: "'blk crypto_lib \<Rightarrow> (nat \<Rightarrow> byte list result) \<Rightarrow> byte list list \<Rightarrow> byte list \<times> go_error
    \<Rightarrow> streamConn \<Rightarrow> ((nat \<times> go_error option) \<times> streamConn) outcome" where
  "sc_ReadFrom L rnd cs end_rd sc = with_writer L rnd (ReadFrom cs end_rd) sc"

datatype tunnel_conn = PlainConn net_conn | StreamConn streamConn

text \<open>A nil cipher leaves the connection unencrypted.\<close>
definition NewEncryptedConn :: "net_conn \<Rightarrow> metaCipher option \<Rightarrow> tunnel_conn" where
  "NewEncryptedConn c ciph =
     (case ciph of None \<Rightarrow> PlainConn c
      | Some a \<Rightarrow> StreamConn \<lparr>scConn = c, scCipher = a, scR = None, scW = None\<rparr>)"

section \<open>The nonce counter\<close>

fun le_val :: "byte list \<Rightarrow> nat" where
  "le_val [] = 0"
| "le_val (b # bs) = unat b + 256 * le_val bs"

lemma length_increment [simp]: "length (increment bs) = length bs"
  by (induction bs) (simp_all add: Let_def)

lemma length_increments [simp]: "length ((increment ^^ k) bs) = length bs"
  by (induction k) simp_all

lemma unat_byte_less: "unat (b :: byte) < 256"
  using unsigned_less [of b] by simp

lemma unat_byte_Suc: "unat ((b :: byte) + 1) = (unat b + 1) mod 256"
  by (simp add: unat_word_ariths)

lemma byte_wrap: "(b :: byte) + 1 = 0 \<longleftrightarrow> unat b = 255"
proof -
  have "(b + 1 = 0) = ((unat b + 1) mod 256 = 0)"
    by (metis unat_byte_Suc unsigned_eq_0_iff)
  moreover have "((n + 1) mod 256 = 0) = (n = 255)" if "n < 256" for n :: nat
    using that by presburger
  ultimately show ?thesis using unat_byte_less [of b] by simp
qed

lemma le_val_bound: "le_val bs < 256 ^ length bs"
proof (induction bs)
  case (Cons b bs)
  then show ?case using unat_byte_less [of b] by simp
qed simp

lemma le_val_increment: "le_val (increment bs) = (le_val bs + 1) mod 256 ^ length bs"
proof (induction bs)
  case (Cons b bs)
  show ?case
  proof (cases "b + 1 = 0")
    case False
    then have "unat b + 1 < 256" using byte_wrap [of b] unat_byte_less [of b] by linarith
    with le_val_bound [of bs] have "unat b + 1 + 256 * le_val bs < 256 * 256 ^ length bs" by simp
    with False \<open>unat b + 1 < 256\<close> show ?thesis by (simp add: Let_def unat_byte_Suc)
  next
    case True
    then have "unat b = 255" by (simp add: byte_wrap)
    then have "(le_val (b # bs) + 1) mod 256 ^ length (b # bs) = 256 * (le_val bs + 1) mod (256 * 256 ^ length bs)"
      by simp
    also have "\<dots> = 256 * ((le_val bs + 1) mod 256 ^ length bs)" by (rule mult_mod_right [symmetric])
    finally show ?thesis using True Cons by (simp add: Let_def)
  qed
qed simp

lemma le_val_zero [simp]: "le_val (replicate n 0) = 0"
  by (induction n) simp_all

lemma le_val_increments: "le_val ((increment ^^ k) (replicate n 0)) = k mod 256 ^ n"
  by (induction k) (simp_all add: le_val_increment mod_Suc_eq)

lemma nonces_inj: "inj_on (\<lambda>k. (increment ^^ k) (replicate n 0)) {..<256 ^ n}"
  by (rule inj_onI) (metis le_val_increments lessThan_iff mod_less)

section \<open>Records\<close>

definition seal_record :: "aead \<Rightarrow> byte list \<Rightarrow> byte list \<Rightarrow> byte list" where
  "seal_record a nonce p = Seal a nonce (size_header (length p)) @ Seal a (increment nonce) p"

text \<open>The byte sequence that a writer produces for some payloads, starting with a nonce.\<close>
fun seal_all :: "aead \<Rightarrow> byte list \<Rightarrow> byte list list \<Rightarrow> byte list" where
  "seal_all a nonce [] = []"
| "seal_all a nonce (p # ps) = seal_record a nonce p @ seal_all a (increment (increment nonce)) ps"

definition valid_chunk :: "byte list \<Rightarrow> bool" where
  "valid_chunk p \<longleftrightarrow> p \<noteq> [] \<and> length p \<le> payloadSizeMask"

lemma seal_all_append:
  "seal_all a nonce (ps @ qs) = seal_all a nonce ps @ seal_all a ((increment ^^ (2 * length ps)) nonce) qs"
  by (induction ps arbitrary: nonce) (simp_all add: funpow_swap1)

lemma seal_all_nth:
  "seal_all a N ps = concat (map (\<lambda>i. Seal a ((increment ^^ (2 * i)) N) (size_header (length (ps ! i)))
     @ Seal a ((increment ^^ (2 * i + 1)) N) (ps ! i)) [0..<length ps])"
  by (induction ps rule: rev_induct)
    (auto simp: seal_all_append seal_record_def nth_append intro!: arg_cong [where f = concat] map_cong)

lemma length_size_header [simp]: "length (size_header n) = 2"
  by (simp add: size_header_def)

lemma header_size_header:
  assumes "n \<le> payloadSizeMask"
  shows "header_size (size_header n @ xs) = n"
proof -
  have "n < 2 ^ 15" using assms by (simp add: payloadSizeMask_def)
  then have "n div 256 < 256" by simp
  then have "unat (of_nat (drop_bit 8 n) :: byte) * 256 + unat (of_nat n :: byte) = n"
    by (simp add: unat_of_nat drop_bit_eq_div take_bit_eq_mod)
  moreover have "n AND payloadSizeMask = n"
    using \<open>n < 2 ^ 15\<close> take_bit_eq_mask [of 15 n] take_bit_nat_eq_self [of n 15]
    by (simp add: payloadSizeMask_def mask_eq_exp_minus_1)
  ultimately show ?thesis by (simp add: header_size_def size_header_def)
qed

lemma read_record_sealed:
  assumes "aead_ok a" "length nonce = NonceSize a" "length p \<le> payloadSizeMask"
    and "rAEAD r = a" "rnonce r = nonce" "cin c = seal_record a nonce p @ rest"
  shows "read_record r c = (Inr p, r\<lparr>rnonce := increment (increment nonce)\<rparr>, c\<lparr>cin := rest\<rparr>)"
proof -
  have "ReadFull (2 + Overhead a) (cin c)
      = Inr (Seal a nonce (size_header (length p)), Seal a (increment nonce) p @ rest)"
    using assms by (simp add: seal_record_def)
  moreover have "ReadFull (length p + Overhead a) (Seal a (increment nonce) p @ rest)
      = Inr (Seal a (increment nonce) p, rest)"
    using assms(1,2) by simp
  moreover have "header_size (overwrite hdr (size_header (length p))) = length p" for hdr
    using header_size_header [OF assms(3)] by (simp add: overwrite_def)
  ultimately show ?thesis
    using assms(1,2,4,5) by (simp add: read_record_def Let_def overwrite_def)
qed

lemma chunks_correct: "concat (chunks b) = b \<and> list_all valid_chunk (chunks b)"
proof (induction b rule: chunks.induct)
  case (1 b)
  have "valid_chunk (take payloadSizeMask b)" if "b \<noteq> []"
    using that by (simp add: valid_chunk_def payloadSizeMask_def)
  with 1 show ?case
    by (subst (1 2) chunks.simps) (auto simp: payloadSizeMask_def)
qed

text \<open>A write to a connection that accepts everything.\<close>
lemma write_record_ok:
  assumes "sscript (cout c) = []"
  shows "write_record p w c =
    (None, w\<lparr>wnonce := increment (increment (wnonce w))\<rparr>,
     c\<lparr>cout := (cout c)\<lparr>slog := slog (cout c) @ seal_record (wAEAD w) (wnonce w) p\<rparr>\<rparr>)"
  using assms by (simp add: write_record_def sink_write_def seal_record_def Let_def)

lemma ReadFrom_loop_ok:
  assumes "sscript (cout c) = []" "list_all valid_chunk ps"
  shows "ReadFrom_loop ps ([], EOF) n w c =
    ((n + length (concat ps), None), w\<lparr>wnonce := (increment ^^ (2 * length ps)) (wnonce w)\<rparr>,
     c\<lparr>cout := (cout c)\<lparr>slog := slog (cout c) @ seal_all (wAEAD w) (wnonce w) ps\<rparr>\<rparr>)"
  using assms
proof (induction ps arbitrary: n w c)
  case (Cons p ps)
  then show ?case
    by (simp add: write_record_ok valid_chunk_def funpow_swap1)
qed simp

lemma w_Write_ok:
  assumes "sscript (cout c) = []"
  shows "w_Write b w c =
    ((length b, None), w\<lparr>wnonce := (increment ^^ (2 * length (chunks b))) (wnonce w)\<rparr>,
     c\<lparr>cout := (cout c)\<lparr>slog := slog (cout c) @ seal_all (wAEAD w) (wnonce w) (chunks b)\<rparr>\<rparr>)"
  using ReadFrom_loop_ok [OF assms, of "chunks b" 0 w] chunks_correct [of b]
  by (simp add: w_Write_def ReadFrom_def)

section \<open>A stream connection as a source of bytes\<close>

text \<open>All payloads that the rest of the incoming bytes contains, up to the first error.\<close>
function decrypt_all :: "reader \<Rightarrow> net_conn \<Rightarrow> byte list" where
  "decrypt_all r c =
     (case read_record r c of (Inr xs, r', c') \<Rightarrow> xs @ decrypt_all r' c' | (Inl _, _, _) \<Rightarrow> [])"
  by pat_completeness auto
termination
  by (relation "measure (\<lambda>(r, c). length (cin c))") (auto dest!: sym [of _ "read_record _ _"] read_record_consumes)

declare decrypt_all.simps [simp del]

definition sealed_input :: "reader \<Rightarrow> net_conn \<Rightarrow> bool" where
  "sealed_input r c \<longleftrightarrow> aead_ok (rAEAD r) \<and> length (rnonce r) = NonceSize (rAEAD r)
     \<and> (\<exists>ps. list_all valid_chunk ps \<and> cin c = seal_all (rAEAD r) (rnonce r) ps)"

lemma read_record_empty: "cin c = [] \<Longrightarrow> read_record r c = (Inl EOF, r, c)"
  by (simp add: read_record_def ReadFull_def Let_def)

text \<open>What one record read does on such an input.\<close>
lemma sealed_input_cases:
  assumes "sealed_input r c"
  obtains (empty) "cin c = []" "read_record r c = (Inl EOF, r, c)" "decrypt_all r c = []"
  | (chunk) p r' c' where "valid_chunk p" "read_record r c = (Inr p, r', c')" "sealed_input r' c'"
      "decrypt_all r c = p @ decrypt_all r' c'" "leftover r' = leftover r" "rAEAD r' = rAEAD r"
proof -
  obtain ps where ok: "aead_ok (rAEAD r)" "length (rnonce r) = NonceSize (rAEAD r)"
    and ps: "list_all valid_chunk ps" "cin c = seal_all (rAEAD r) (rnonce r) ps"
    using assms by (auto simp: sealed_input_def)
  show thesis
  proof (cases ps)
    case Nil
    then show thesis using ps empty read_record_empty [of c r] by (simp add: decrypt_all.simps)
  next
    case (Cons p qs)
    let ?r = "r\<lparr>rnonce := increment (increment (rnonce r))\<rparr>"
    let ?c = "c\<lparr>cin := seal_all (rAEAD r) (increment (increment (rnonce r))) qs\<rparr>"
    have "valid_chunk p" "list_all valid_chunk qs" using Cons ps(1) by simp_all
    then have "length p \<le> payloadSizeMask" by (simp add: valid_chunk_def)
    then have rec: "read_record r c = (Inr p, ?r, ?c)"
      using read_record_sealed [OF ok _ refl refl] Cons ps(2) by simp
    moreover have "sealed_input ?r ?c"
      using ok \<open>list_all valid_chunk qs\<close> by (auto simp: sealed_input_def)
    moreover have "decrypt_all r c = p @ decrypt_all ?r ?c"
      using rec by (simp add: decrypt_all.simps [of r c])
    ultimately show thesis using chunk \<open>valid_chunk p\<close> by simp
  qed
qed

lemma decrypt_seal_all:
  assumes "aead_ok (rAEAD r)" "length (rnonce r) = NonceSize (rAEAD r)" "list_all valid_chunk ps"
    and "cin c = seal_all (rAEAD r) (rnonce r) ps"
  shows "decrypt_all r c = concat ps"
  using assms
proof (induction ps arbitrary: r c)
  case Nil
  then show ?case by (simp add: decrypt_all.simps read_record_empty)
next
  case (Cons p ps)
  then have "read_record r c = (Inr p, r\<lparr>rnonce := increment (increment (rnonce r))\<rparr>,
      c\<lparr>cin := seal_all (rAEAD r) (increment (increment (rnonce r))) ps\<rparr>)"
    by (intro read_record_sealed) (auto simp: valid_chunk_def)
  with Cons show ?case by (simp add: decrypt_all.simps [of r c])
qed

text \<open>The plain text that a stream connection will still deliver.\<close>
definition sc_contents :: "'blk crypto_lib \<Rightarrow> streamConn \<Rightarrow> byte list" where
  "sc_contents L sc =
     (case (case scR sc of None \<Rightarrow> initReader L sc | Some _ \<Rightarrow> Ret (None, sc)) of
        Ret (None, sc1) \<Rightarrow>
          (case scR sc1 of None \<Rightarrow> [] | Some r \<Rightarrow> leftover r @ decrypt_all r (scConn sc1))
      | _ \<Rightarrow> [])"

text \<open>The incoming bytes are what a peer with the same cipher has written so far.\<close>
definition sc_invar :: "'blk crypto_lib \<Rightarrow> streamConn \<Rightarrow> bool" where
  "sc_invar L sc \<longleftrightarrow>
     (case scR sc of
        Some r \<Rightarrow> sealed_input r (scConn sc)
      | None \<Rightarrow> cin (scConn sc) = []
          \<or> (\<exists>salt a ps. length salt = SaltSize (scCipher sc) \<and> Decrypter L (scCipher sc) salt = Ret (Inr a)
              \<and> aead_ok a \<and> list_all valid_chunk ps
              \<and> cin (scConn sc) = salt @ seal_all a (replicate (NonceSize a) 0) ps))"

text \<open>\<open>Read\<close> seen as a source of bytes; what counts is the bytes it returns.\<close>
definition sc_rd :: "'blk crypto_lib \<Rightarrow> nat \<Rightarrow> streamConn \<Rightarrow> byte list \<times> streamConn" where
  "sc_rd L len sc = (case sc_Read L len sc of Ret ((xs, _), sc') \<Rightarrow> (xs, sc') | Panic \<Rightarrow> ([], sc))"

lemma r_Read_source:
  assumes "sealed_input r c" "r_Read len r c = ((xs, err), r', c')"
  shows "sealed_input r' c'" "leftover r @ decrypt_all r c = xs @ leftover r' @ decrypt_all r' c'"
    "length xs \<le> len" "0 < len \<Longrightarrow> leftover r @ decrypt_all r c \<noteq> [] \<Longrightarrow> xs \<noteq> []"
proof -
  have upd: "sealed_input (q\<lparr>leftover := l\<rparr>) d = sealed_input q d"
    "decrypt_all (q\<lparr>leftover := l\<rparr>) d = decrypt_all q d" if s: "sealed_input q d" for q l d
  proof -
    show "sealed_input (q\<lparr>leftover := l\<rparr>) d = sealed_input q d" by (simp add: sealed_input_def)
    obtain ps where "list_all valid_chunk ps" "cin d = seal_all (rAEAD q) (rnonce q) ps"
      "aead_ok (rAEAD q)" "length (rnonce q) = NonceSize (rAEAD q)"
      using s by (auto simp: sealed_input_def)
    then show "decrypt_all (q\<lparr>leftover := l\<rparr>) d = decrypt_all q d"
      using decrypt_seal_all [of q ps d] decrypt_seal_all [of "q\<lparr>leftover := l\<rparr>" ps d] by simp
  qed
  have "sealed_input r' c' \<and> leftover r @ decrypt_all r c = xs @ leftover r' @ decrypt_all r' c'
    \<and> length xs \<le> len \<and> (0 < len \<longrightarrow> leftover r @ decrypt_all r c \<noteq> [] \<longrightarrow> xs \<noteq> [])"
  proof (cases "leftover r = []")
    case False
    then show ?thesis using assms upd by (auto simp: r_Read_def)
  next
    case True
    from assms(1) show ?thesis
    proof (cases rule: sealed_input_cases)
      case empty
      then show ?thesis using assms True by (auto simp: r_Read_def)
    next
      case (chunk p r1 c1)
      then show ?thesis
        using assms(2) True upd [OF chunk(3)]
        by (auto simp: r_Read_def Let_def valid_chunk_def min_def split: if_splits)
    qed
  qed
  then show "sealed_input r' c'" "leftover r @ decrypt_all r c = xs @ leftover r' @ decrypt_all r' c'"
    "length xs \<le> len" "0 < len \<Longrightarrow> leftover r @ decrypt_all r c \<noteq> [] \<Longrightarrow> xs \<noteq> []"
    by blast+
qed

text \<open>After the first step of a read, either nothing has arrived or the reader exists.\<close>
lemma sc_ready:
  assumes "sc_invar L sc"
  obtains (nothing) "sc_contents L sc = []" "cin (scConn sc) = []" "scR sc = None"
      "\<And>len. sc_Read L len sc = Ret (([], Some EOF), sc)"
  | (ready) sc1 r where "scR sc1 = Some r" "sealed_input r (scConn sc1)"
      "sc_contents L sc = leftover r @ decrypt_all r (scConn sc1)"
      "\<And>len. sc_Read L len sc = (let (res, r', c') = r_Read len r (scConn sc1)
                       in Ret (res, sc1\<lparr>scConn := c', scR := Some r'\<rparr>))"
proof (cases "scR sc")
  case (Some r)
  then show thesis
    using assms by (intro ready [of sc r]) (simp_all add: sc_invar_def sc_contents_def sc_Read_def)
next
  case None
  show thesis
  proof (cases "cin (scConn sc) = []")
    case True
    have "0 < SaltSize (scCipher sc)" by (rule meta.salt_pos)
    with True have "initReader L sc = Ret (Some EOF, sc)"
      by (simp add: initReader_def ReadFull_def)
    with True None show thesis by - (rule nothing, simp_all add: sc_contents_def sc_Read_def)
  next
    case False
    then obtain salt a ps where s: "length salt = SaltSize (scCipher sc)" "Decrypter L (scCipher sc) salt = Ret (Inr a)"
      "aead_ok a" "list_all valid_chunk ps" "cin (scConn sc) = salt @ seal_all a (replicate (NonceSize a) 0) ps"
      using assms None by (auto simp: sc_invar_def)
    let ?sc = "sc\<lparr>scConn := (scConn sc)\<lparr>cin := seal_all a (replicate (NonceSize a) 0) ps\<rparr>, scR := Some (newReader a)\<rparr>"
    have "initReader L sc = Ret (None, ?sc)"
      using s by (simp add: initReader_def Let_def)
    moreover have "sealed_input (newReader a) (scConn ?sc)"
      using s(3,4) by (auto simp: sealed_input_def newReader_def)
    ultimately show thesis
      using None by (intro ready [of ?sc "newReader a"]) (simp_all add: sc_contents_def sc_Read_def)
  qed
qed

lemma sc_rd_laws:
  assumes "sc_invar L sc"
  shows "sc_contents L sc = fst (sc_rd L n sc) @ sc_contents L (snd (sc_rd L n sc))"
    "length (fst (sc_rd L n sc)) \<le> n"
    "0 < n \<Longrightarrow> sc_contents L sc \<noteq> [] \<Longrightarrow> fst (sc_rd L n sc) \<noteq> []"
    "sc_invar L (snd (sc_rd L n sc))"
proof -
  have "sc_contents L sc = fst (sc_rd L n sc) @ sc_contents L (snd (sc_rd L n sc))
    \<and> length (fst (sc_rd L n sc)) \<le> n
    \<and> (0 < n \<longrightarrow> sc_contents L sc \<noteq> [] \<longrightarrow> fst (sc_rd L n sc) \<noteq> []) \<and> sc_invar L (snd (sc_rd L n sc))"
    using assms
  proof (cases rule: sc_ready)
    case nothing
    then show ?thesis using assms by (simp add: sc_rd_def)
  next
    case (ready sc1 r)
    obtain xs err r' c' where R: "r_Read n r (scConn sc1) = ((xs, err), r', c')"
      by (metis prod.collapse)
    note S = r_Read_source [OF ready(2) R]
    have rd: "sc_rd L n sc = (xs, sc1\<lparr>scConn := c', scR := Some r'\<rparr>)"
      using ready(4) [of n] R by (simp add: sc_rd_def)
    then have "sc_contents L (snd (sc_rd L n sc)) = leftover r' @ decrypt_all r' c'"
      by (simp add: sc_contents_def)
    with S ready(3) rd show ?thesis by (simp add: sc_invar_def) blast
  qed
  then show "sc_contents L sc = fst (sc_rd L n sc) @ sc_contents L (snd (sc_rd L n sc))"
    "length (fst (sc_rd L n sc)) \<le> n"
    "0 < n \<Longrightarrow> sc_contents L sc \<noteq> [] \<Longrightarrow> fst (sc_rd L n sc) \<noteq> []"
    "sc_invar L (snd (sc_rd L n sc))"
    by blast+
qed

interpretation secure: byte_source "sc_contents L" "sc_invar L" "sc_rd L" for L
  by unfold_locales (fact sc_rd_laws)+

section \<open>Sequences of writes\<close>

fun sc_Writes :: "'blk crypto_lib \<Rightarrow> (nat \<Rightarrow> byte list result) \<Rightarrow> byte list list \<Rightarrow> streamConn
    \<Rightarrow> ((nat \<times> go_error option) list \<times> streamConn) outcome" where
  "sc_Writes L rnd [] sc = Ret ([], sc)"
| "sc_Writes L rnd (b # bs) sc =
     (case sc_Write L rnd b sc of
        Panic \<Rightarrow> Panic
      | Ret (res, sc1) \<Rightarrow>
          (case sc_Writes L rnd bs sc1 of Panic \<Rightarrow> Panic | Ret (rs, sc2) \<Rightarrow> Ret (res # rs, sc2)))"

definition fresh_conn :: "metaCipher \<Rightarrow> byte list \<Rightarrow> streamConn" where
  "fresh_conn ciph inp =
     \<lparr>scConn = \<lparr>cin = inp, cout = \<lparr>slog = [], sscript = []\<rparr>\<rparr>, scCipher = ciph, scR = None, scW = None\<rparr>"

text \<open>A write on a connection whose writer exists.\<close>
lemma sc_Write_on:
  assumes "scW sc = Some w" "sscript (cout (scConn sc)) = []"
  shows "\<exists>sc'. sc_Write L rnd b sc = Ret ((length b, None), sc') \<and> sscript (cout (scConn sc')) = []
    \<and> scW sc' = Some (w\<lparr>wnonce := (increment ^^ (2 * length (chunks b))) (wnonce w)\<rparr>)
    \<and> slog (cout (scConn sc')) = slog (cout (scConn sc)) @ seal_all (wAEAD w) (wnonce w) (chunks b)"
  using assms by (simp add: sc_Write_def with_writer_def w_Write_ok)

lemma sc_Writes_on:
  assumes "scW sc = Some w" "sscript (cout (scConn sc)) = []"
  shows "\<exists>sc'. sc_Writes L rnd bs sc = Ret (map (\<lambda>b. (length b, None)) bs, sc')
    \<and> slog (cout (scConn sc')) = slog (cout (scConn sc)) @ seal_all (wAEAD w) (wnonce w) (concat (map chunks bs))"
  using assms
proof (induction bs arbitrary: sc w)
  case (Cons b bs)
  from sc_Write_on [OF Cons.prems, of L rnd b] obtain sc1 where
    1: "sc_Write L rnd b sc = Ret ((length b, None), sc1)" "sscript (cout (scConn sc1)) = []"
      "scW sc1 = Some (w\<lparr>wnonce := (increment ^^ (2 * length (chunks b))) (wnonce w)\<rparr>)"
      "slog (cout (scConn sc1)) = slog (cout (scConn sc)) @ seal_all (wAEAD w) (wnonce w) (chunks b)"
    by blast
  from Cons.IH [OF 1(3,2)] obtain sc2 where
    "sc_Writes L rnd bs sc1 = Ret (map (\<lambda>b. (length b, None)) bs, sc2)"
    "slog (cout (scConn sc2)) = slog (cout (scConn sc1))
       @ seal_all (wAEAD w) ((increment ^^ (2 * length (chunks b))) (wnonce w)) (concat (map chunks bs))"
    by auto
  with 1 show ?case by (simp add: seal_all_append)
qed simp

text \<open>What a sender has put on the wire after some writes.\<close>
lemma sc_Writes_fresh:
  assumes "good_cipher L ciph" "rnd (SaltSize ciph) = Inr salt" "bs \<noteq> []"
  shows "\<exists>a sc'. Encrypter L ciph salt = Ret (Inr a) \<and> aead_ok a
    \<and> sc_Writes L rnd bs (fresh_conn ciph []) = Ret (map (\<lambda>b. (length b, None)) bs, sc')
    \<and> slog (cout (scConn sc')) = salt @ seal_all a (replicate (NonceSize a) 0) (concat (map chunks bs))"
proof -
  obtain a where a: "Encrypter L ciph salt = Ret (Inr a)" "aead_ok a"
    using meta.works [OF assms(1), of salt] by blast
  let ?sc1 = "(fresh_conn ciph [])\<lparr>scConn := \<lparr>cin = [], cout = \<lparr>slog = salt, sscript = []\<rparr>\<rparr>, scW := Some (newWriter a)\<rparr>"
  have "initWriter L rnd (fresh_conn ciph []) = Ret (None, ?sc1)"
    using a assms(2) by (simp add: initWriter_def fresh_conn_def sink_write_def)
  then have "sc_Write L rnd b (fresh_conn ciph []) = sc_Write L rnd b ?sc1" for b
    by (simp add: sc_Write_def with_writer_def) (simp add: fresh_conn_def)
  then have "sc_Writes L rnd bs (fresh_conn ciph []) = sc_Writes L rnd bs ?sc1"
    using assms(3) by (cases bs) simp_all
  moreover obtain sc' where "sc_Writes L rnd bs ?sc1 = Ret (map (\<lambda>b. (length b, None)) bs, sc')"
    "slog (cout (scConn sc')) = slog (cout (scConn ?sc1))
       @ seal_all (wAEAD (newWriter a)) (wnonce (newWriter a)) (concat (map chunks bs))"
    using sc_Writes_on [of ?sc1 "newWriter a" L rnd bs] by auto
  ultimately show ?thesis using a by (simp add: newWriter_def)
qed

lemma concat_chunks: "concat (concat (map chunks bs)) = concat bs \<and> list_all valid_chunk (concat (map chunks bs))"
  using chunks_correct by (induction bs) auto

lemma fresh_reader:
  assumes "good_cipher L ciph" "length salt = SaltSize ciph" "Encrypter L ciph salt = Ret (Inr a)" "aead_ok a"
    and "list_all valid_chunk ps" "inp = salt @ seal_all a (replicate (NonceSize a) 0) ps"
  shows "sc_invar L (fresh_conn ciph inp) \<and> sc_contents L (fresh_conn ciph inp) = concat ps"
proof
  have dec: "Decrypter L ciph salt = Ret (Inr a)" using assms(3) by (simp add: Encrypter_eq_Decrypter)
  show "sc_invar L (fresh_conn ciph inp)"
    using assms dec by (auto simp: sc_invar_def fresh_conn_def)
  have "initReader L (fresh_conn ciph inp) =
      Ret (None, (fresh_conn ciph (seal_all a (replicate (NonceSize a) 0) ps))\<lparr>scR := Some (newReader a)\<rparr>)"
    using assms(2,6) dec by (simp add: initReader_def fresh_conn_def Let_def)
  moreover have "decrypt_all (newReader a) \<lparr>cin = seal_all a (replicate (NonceSize a) 0) ps, cout = q\<rparr> = concat ps" for q
    using assms(4,5) by (intro decrypt_seal_all) (simp_all add: newReader_def)
  moreover have "scR (fresh_conn ciph inp) = None" by (simp add: fresh_conn_def)
  ultimately show "sc_contents L (fresh_conn ciph inp) = concat ps"
    by (simp add: sc_contents_def) (simp add: fresh_conn_def newReader_def)
qed

section \<open>Properties\<close>


text \<open>An AES-256 cipher over the concrete library.\<close>
definition demo_cipher :: metaCipher where
  "demo_cipher = \<lparr>psk = replicate 32 1, makeAEAD = makeAESGCM demo_lib\<rparr>"

lemma demo_cipher_good: "good_cipher demo_lib demo_cipher"
  by (simp add: good_cipher_def demo_cipher_def demo_lib_ok)

lemma demo_salt: "SaltSize demo_cipher = 32"
  by (simp add: SaltSize_def KeySize_def demo_cipher_def)


text \<open>
  C25. No nonce is used twice under one key: the bytes on the wire after any writes are the salt
  and then records, and the \<open>k\<close>-th use of the AEAD is under the \<open>k\<close>-th value of the counter; these
  values are pairwise different until the counter, of the AEAD's nonce size, has wrapped around.
\<close>
theorem nonces_unique:
  assumes "good_cipher L ciph" "rnd (SaltSize ciph) = Inr salt" "bs \<noteq> []"
  shows "\<exists>a tx ps. Encrypter L ciph salt = Ret (Inr a)
    \<and> sc_Writes L rnd bs (fresh_conn ciph []) = Ret (map (\<lambda>b. (length b, None)) bs, tx)
    \<and> concat ps = concat bs
    \<and> slog (cout (scConn tx)) = salt @ concat (map (\<lambda>i.
         Seal a ((increment ^^ (2 * i)) (replicate (NonceSize a) 0)) (size_header (length (ps ! i)))
       @ Seal a ((increment ^^ (2 * i + 1)) (replicate (NonceSize a) 0)) (ps ! i)) [0..<length ps])
    \<and> inj_on (\<lambda>k. (increment ^^ k) (replicate (NonceSize a) 0)) {..<256 ^ NonceSize a}"
proof -
  from sc_Writes_fresh [of L ciph rnd salt bs] assms obtain a tx where
    "Encrypter L ciph salt = Ret (Inr a)"
    "sc_Writes L rnd bs (fresh_conn ciph []) = Ret (map (\<lambda>b. (length b, None)) bs, tx)"
    "slog (cout (scConn tx)) = salt @ seal_all a (replicate (NonceSize a) 0) (concat (map chunks bs))"
    by blast
  then show ?thesis
    using concat_chunks [of bs] nonces_inj unfolding seal_all_nth by blast
qed

theorem nonces_unique_witness:
  "\<exists>tx. sc_Writes demo_lib (\<lambda>n. Inr (replicate n 9)) [[1], [2, 3]] (fresh_conn demo_cipher [])
      = Ret ([(1, None), (2, None)], tx)"
  using nonces_unique [OF demo_cipher_good, of "\<lambda>n. Inr (replicate n 9)" "replicate 32 9" "[[1], [2, 3]]"]
  by (auto simp: demo_salt numeral_2_eq_2 simp del: sc_Writes.simps)

text \<open>
  C26. A record that is cut off is an error: after the first \<open>k\<close> bytes of a record the reader
  reports the end of file when the cut is at the start of the record or between its sealed size
  and its sealed payload, and an unexpected end of file anywhere else. A connection that is cut
  between size and payload therefore looks like one that ended properly.
\<close>
theorem read_record_cut:
  assumes "aead_ok (rAEAD r)" "length (rnonce r) = NonceSize (rAEAD r)" "valid_chunk p"
    and "k < length (seal_record (rAEAD r) (rnonce r) p)"
    and "cin c = take k (seal_record (rAEAD r) (rnonce r) p)"
  shows "fst (read_record r c)
    = Inl (if k = 0 \<or> k = 2 + Overhead (rAEAD r) then EOF else ErrUnexpectedEOF)"
proof -
  let ?a = "rAEAD r"
  let ?h = "Seal ?a (rnonce r) (size_header (length p))" and ?b = "Seal ?a (increment (rnonce r)) p"
  have len: "length ?h = 2 + Overhead ?a" "length ?b = length p + Overhead ?a"
    using assms(1,2) by simp_all
  show ?thesis
  proof (cases "k < 2 + Overhead ?a")
    case True
    then have "cin c = take k ?h" using assms(5) len by (simp add: seal_record_def)
    with True len show ?thesis by (auto simp: read_record_def ReadFull_def Let_def)
  next
    case False
    define m where "m = k - (2 + Overhead ?a)"
    have m: "m < length ?b" "k = 2 + Overhead ?a + m"
      using False assms(4) len by (simp_all add: m_def seal_record_def)
    then have "?b \<noteq> []" by auto
    have "cin c = ?h @ take m ?b" using m(2) assms(5) len by (simp add: seal_record_def)
    then have "ReadFull (2 + Overhead ?a) (cin c) = Inr (?h, take m ?b)" using len by simp
    moreover have "ReadFull (length p + Overhead ?a) (take m ?b) = Inl (if m = 0 then EOF else ErrUnexpectedEOF)"
      using m(1) len \<open>?b \<noteq> []\<close> by (auto simp: ReadFull_def)
    moreover have "header_size (overwrite ?h (size_header (length p))) = length p"
      using header_size_header assms(3) by (simp add: overwrite_def valid_chunk_def)
    ultimately show ?thesis
      using assms(1,2) m(2) by (simp add: read_record_def Let_def)
  qed
qed

theorem read_record_cut_witness:
  "fst (read_record (newReader demo_aead)
      \<lparr>cin = take 18 (seal_record demo_aead (replicate 12 0) [5]), cout = \<lparr>slog = [], sscript = []\<rparr>\<rparr>) = Inl EOF"
proof -
  have "rAEAD (newReader demo_aead) = demo_aead" "rnonce (newReader demo_aead) = replicate 12 0"
    "Overhead demo_aead = 16" "length (seal_record demo_aead (replicate 12 0) [5]) = 35"
    by (simp_all add: newReader_def demo_aead_def seal_record_def demo_tag_def)
  then show ?thesis
    using read_record_cut [of "newReader demo_aead" "[5]" 18
        "\<lparr>cin = take 18 (seal_record demo_aead (replicate 12 0) [5]), cout = \<lparr>slog = [], sscript = []\<rparr>\<rparr>"]
    by (simp add: demo_aead_ok valid_chunk_def payloadSizeMask_def) (simp add: demo_aead_def)
qed

lemma WriteTo_loop_ok:
  assumes "sealed_input r c" "sscript s = []"
  shows "\<exists>r' c'. WriteTo_loop n s r c =
    ((n + length (decrypt_all r c), None), s\<lparr>slog := slog s @ decrypt_all r c\<rparr>, r', c') \<and> cin c' = []"
  using assms
proof (induction n s r c rule: WriteTo_loop.induct)
  case (1 n s r c)
  from \<open>sealed_input r c\<close> show ?case
  proof (cases rule: sealed_input_cases)
    case empty
    then show ?thesis by (simp add: WriteTo_loop.simps)
  next
    case (chunk p r1 c1)
    let ?s = "s\<lparr>slog := slog s @ p\<rparr>"
    have w: "sink_write p s = ((length p, None), ?s)" "length p > 0"
      using \<open>sscript s = []\<close> chunk(1) by (simp_all add: sink_write_def valid_chunk_def)
    have step: "WriteTo_loop n s r c = WriteTo_loop (n + length p) ?s r1 c1"
      using chunk(2) w by (simp add: WriteTo_loop.simps [of n s r c])
    have "\<exists>r' c'. WriteTo_loop (n + length p) ?s r1 c1 =
      ((n + length p + length (decrypt_all r1 c1), None), ?s\<lparr>slog := slog ?s @ decrypt_all r1 c1\<rparr>, r', c') \<and> cin c' = []"
      using "1.IH"(1) [OF chunk(2) [symmetric] refl refl w(2) w(1) [symmetric]] chunk(3) \<open>sscript s = []\<close> by simp
    with step chunk(4) show ?thesis by (simp add: add.assoc)
  qed
qed

text \<open>
  \<open>WriteTo\<close> moves a whole stream: to a destination that accepts all bytes it writes the
  bytes left over from the last read and then everything the peer has sealed, in order, reports
  their number and no error, and leaves nothing unread on the connection.
\<close>
lemma WriteTo_correct:
  assumes "sealed_input r c" "sscript s = []"
  shows "\<exists>r' c'. WriteTo s r c =
    ((length (leftover r @ decrypt_all r c), None), s\<lparr>slog := slog s @ leftover r @ decrypt_all r c\<rparr>, r', c')
    \<and> cin c' = []"
proof (cases "leftover r = []")
  case True
  then show ?thesis using WriteTo_loop_ok [OF assms, of 0] by (simp add: WriteTo_def)
next
  case False
  let ?r = "r\<lparr>leftover := []\<rparr>" and ?s = "s\<lparr>slog := slog s @ leftover r\<rparr>"
  obtain ps where "list_all valid_chunk ps" "cin c = seal_all (rAEAD r) (rnonce r) ps"
    "aead_ok (rAEAD r)" "length (rnonce r) = NonceSize (rAEAD r)"
    using assms(1) by (auto simp: sealed_input_def)
  then have "sealed_input ?r c" "decrypt_all ?r c = decrypt_all r c"
    using decrypt_seal_all [of r ps c] decrypt_seal_all [of ?r ps c] by (auto simp: sealed_input_def)
  with WriteTo_loop_ok [of ?r c ?s "length (leftover r)"] False assms(2) show ?thesis
    by (simp add: WriteTo_def sink_write_def)
qed

lemma WriteTo_correct_witness:
  "\<exists>r' c'. WriteTo \<lparr>slog = [], sscript = []\<rparr> (newReader demo_aead)
      \<lparr>cin = seal_all demo_aead (replicate 12 0) [[5], [6, 7]], cout = \<lparr>slog = [], sscript = []\<rparr>\<rparr>
    = ((3, None), \<lparr>slog = [5, 6, 7], sscript = []\<rparr>, r', c')"
proof -
  let ?c = "\<lparr>cin = seal_all demo_aead (replicate 12 0) [[5], [6, 7]], cout = \<lparr>slog = [], sscript = []\<rparr>\<rparr>"
  have N: "NonceSize demo_aead = 12" by (simp add: demo_aead_def)
  have v: "list_all valid_chunk [[5], [6, 7]]" by (simp add: valid_chunk_def payloadSizeMask_def)
  have "sealed_input (newReader demo_aead) ?c"
    unfolding sealed_input_def
    by (intro conjI exI [of _ "[[5], [6, 7]]"] v) (simp_all add: newReader_def demo_aead_ok N)
  moreover have "decrypt_all (newReader demo_aead) ?c = [5, 6, 7]"
    using decrypt_seal_all [OF _ _ v, of "newReader demo_aead" ?c]
    by (simp add: newReader_def demo_aead_ok N)
  ultimately show ?thesis
    using WriteTo_correct [of "newReader demo_aead" ?c "\<lparr>slog = [], sscript = []\<rparr>"]
    by (auto simp: numeral_3_eq_3) (auto simp: newReader_def)
qed

end
