(* ===== verification/Tunnel.thy ===== *)
theory Tunnel
  imports Block SecureStream Stats
begin

text \<open>
  One TCP connection to the peer, \<open>tunnel_pool/tunnel.go\<close>. The connection is seen above the
  encryption: the plain bytes that will still arrive and the sink that takes the bytes written
  (the round trip of \<open>SecureStream\<close> relates the two ends, and \<open>SecureTunnel\<close>
  shows that reading blocks through the encryption is the same). A loop iteration is one step; which
  case of a \<open>select\<close> fires, when several can, is an input of the step. The statistics of both
  roles are threaded through.
\<close>

section \<open>State\<close>

record tun_conn =
  tin :: "byte list"
  tout :: sink
  tclosed :: bool

record Tunnel =
  tConn :: tun_conn
  tCtxDone :: bool
  tunnelID :: u32
  peerID :: u32
  tRecvBytes :: u64
  tSentBytes :: u64
  tLastActivity :: i64
  tLatencyNano :: i64
  IsClientMode :: bool
  IsActive :: bool

definition newTunnelWithID :: "u32 \<Rightarrow> tun_conn \<Rightarrow> u32 \<Rightarrow> Tunnel" where
  "newTunnelWithID tid c pid =
     \<lparr>tConn = c, tCtxDone = False, tunnelID = tid, peerID = pid, tRecvBytes = 0, tSentBytes = 0,
      tLastActivity = 0, tLatencyNano = 0, IsClientMode = False, IsActive = False\<rparr>"

definition tSetLastActive :: "i64 \<Rightarrow> Tunnel \<Rightarrow> Tunnel" where
  "tSetLastActive now t = t\<lparr>tLastActivity := now, IsActive := True\<rparr>"

definition tGetLastActive :: "Tunnel \<Rightarrow> i64" where
  [simp]: "tGetLastActive t = tLastActivity t"

definition tSetLatencyNanoSince :: "i64 \<Rightarrow> i64 \<Rightarrow> Tunnel \<Rightarrow> Tunnel" where
  "tSetLatencyNanoSince now timestamp t = t\<lparr>tLatencyNano := now - timestamp\<rparr>"

definition tSetLatencyNano :: "i64 \<Rightarrow> Tunnel \<Rightarrow> Tunnel" where
  "tSetLatencyNano latency t = t\<lparr>tLatencyNano := latency\<rparr>"

definition tGetLatencyNano :: "Tunnel \<Rightarrow> i64" where
  [simp]: "tGetLatencyNano t = tLatencyNano t"

definition GetPeerID :: "Tunnel \<Rightarrow> u32" where
  [simp]: "GetPeerID t = peerID t"

text \<open>Using a closed connection fails.\<close>
definition ErrClosed :: go_error where
  "ErrClosed = ErrMsg ''use of closed network connection''"

definition t_write :: "byte list \<Rightarrow> Tunnel \<Rightarrow> (nat \<times> go_error option) \<times> Tunnel" where
  "t_write b t =
     (if tclosed (tConn t) then ((0, Some ErrClosed), t)
      else (let (res, s) = sink_write b (tout (tConn t)) in (res, t\<lparr>tConn := (tConn t)\<lparr>tout := s\<rparr>\<rparr>)))"

definition tcloseThenCancel :: "Tunnel \<Rightarrow> Tunnel" where
  "tcloseThenCancel t = t\<lparr>tConn := (tConn t)\<lparr>tclosed := True\<rparr>, tCtxDone := True\<rparr>"

section \<open>The handshake\<close>

definition sendPeerID :: "u32 \<Rightarrow> Tunnel \<Rightarrow> go_error option \<times> Tunnel" where
  "sendPeerID pid t = (let ((_, err), t1) = t_write (PutUint32 pid) t in (err, t1))"

definition recvPeerID :: "Tunnel \<Rightarrow> u32 result \<times> Tunnel" where
  "recvPeerID t =
     (if tclosed (tConn t) then (Inl ErrClosed, t)
      else case ReadFull 4 (tin (tConn t)) of
        Inl e \<Rightarrow> (Inl e, t\<lparr>tConn := (tConn t)\<lparr>tin := []\<rparr>\<rparr>)
      | Inr (buf, rest) \<Rightarrow> (Inr (le_get buf), t\<lparr>tConn := (tConn t)\<lparr>tin := rest\<rparr>\<rparr>))"

definition activeExchangePeerID :: "Tunnel \<Rightarrow> go_error option \<times> Tunnel" where
  "activeExchangePeerID t =
     (case sendPeerID (peerID t) t of
        (Some e, t1) \<Rightarrow> (Some e, t1)
      | (None, t1) \<Rightarrow>
          (case recvPeerID t1 of
             (Inl e, t2) \<Rightarrow> (Some e, t2)
           | (Inr pid, t2) \<Rightarrow>
               if peerID t2 \<noteq> pid then (Some (ErrMsg ''invalid exchanging''), t2) else (None, t2)))"

definition passiveExchangePeerID :: "Tunnel \<Rightarrow> go_error option \<times> Tunnel" where
  "passiveExchangePeerID t =
     (case recvPeerID t of
        (Inl e, t1) \<Rightarrow> (Some e, t1)
      | (Inr pid, t1) \<Rightarrow>
          (case sendPeerID pid t1 of
             (Some e, t2) \<Rightarrow> (Some e, t2)
           | (None, t2) \<Rightarrow> (None, t2\<lparr>peerID := pid\<rparr>)))"

definition NewActiveTunnel :: "u32 \<Rightarrow> tun_conn \<Rightarrow> u32 \<Rightarrow> go_error option \<times> Tunnel" where
  "NewActiveTunnel tid c pid = activeExchangePeerID ((newTunnelWithID tid c pid)\<lparr>IsClientMode := True\<rparr>)"

definition NewPassiveTunnel :: "u32 \<Rightarrow> tun_conn \<Rightarrow> go_error option \<times> Tunnel" where
  "NewPassiveTunnel tid c = passiveExchangePeerID ((newTunnelWithID tid c 0)\<lparr>IsClientMode := False\<rparr>)"

section \<open>Sending\<close>

text \<open>
  \<open>packThenSend\<close>; the last component is the block handed to a new goroutine that will try to put
  it on the retry queue. With a nil retry queue every outcome counts as success.
\<close>
definition packThenSend :: "block \<Rightarrow> bool \<Rightarrow> Tunnel \<Rightarrow> stats_pair \<Rightarrow> Tunnel \<times> stats_pair \<times> block option" where
  "packThenSend blk hasRetry t g =
     (let (dataToSend, blk1) = Pack blk;
          ((n, err), t1) = t_write dataToSend t;
          ok = (err = None \<and> n = length dataToSend);
          (t2, g2) = (if ok
                      then (t1\<lparr>tSentBytes := tSentBytes t1 + of_nat n\<rparr>,
                            on_mode (IsClientMode t1) (AddSentBytes (of_nat n)) g)
                      else (t1, g))
      in if \<not> ok \<and> hasRetry then (tcloseThenCancel t2, g2, Some blk1) else (t2, g2, None))"

text \<open>
  The retry goroutine: the cases of its \<open>select\<close> that can fire. A send on a closed queue panics.
\<close>
datatype retry_case = Requeue | GiveUp | RetryPanics

definition retry_cases :: "block chan \<Rightarrow> Tunnel \<Rightarrow> retry_case set" where
  "retry_cases rq t =
     (if chclosed rq then {RetryPanics} else if length (chq rq) < chcap rq then {Requeue} else {})
   \<union> (if tCtxDone t then {GiveUp} else {})"

text \<open>
  An iteration of \<open>OutboundRelay\<close>: the context may be seen done at each of the three selects
  (\<open>seen k\<close>); in the last one \<open>pick_retry\<close> chooses between the queues when both have a block.
\<close>
datatype out_status = OutGoesOn | OutReturned | OutWaits

record out_state =
  otun :: Tunnel
  ostats :: stats_pair
  onormal :: "block chan"
  oretry :: "block chan"
  ohanded :: "block list"
  otaken :: "block list"

text \<open>Send one block taken from a queue.\<close>
definition out_send :: "block \<Rightarrow> out_state \<Rightarrow> out_state" where
  "out_send blk st =
     (let (t, g, hand) = packThenSend blk True (otun st) (ostats st)
      in st\<lparr>otun := t, ostats := g, otaken := otaken st @ [blk],
            ohanded := ohanded st @ (case hand of None \<Rightarrow> [] | Some b \<Rightarrow> [b])\<rparr>)"

definition OutboundRelay_third :: "(nat \<Rightarrow> bool) \<Rightarrow> bool \<Rightarrow> out_state \<Rightarrow> out_status \<times> out_state" where
  "OutboundRelay_third seen pick_retry st =
     (if seen 3 then (OutReturned, st)
      else case (chan_recv (oretry st), chan_recv (onormal st)) of
        (RecvBlocks, RecvBlocks) \<Rightarrow> (if tCtxDone (otun st) then OutReturned else OutWaits, st)
      | (RecvBlocks, RecvClosed) \<Rightarrow> (OutReturned, st)
      | (RecvBlocks, Received blk q) \<Rightarrow> (OutGoesOn, out_send blk (st\<lparr>onormal := q\<rparr>))
      | (RecvClosed, Received blk q) \<Rightarrow>
          if pick_retry then (OutReturned, st) else (OutGoesOn, out_send blk (st\<lparr>onormal := q\<rparr>))
      | (RecvClosed, _) \<Rightarrow> (OutReturned, st)
      | (Received blk q, RecvBlocks) \<Rightarrow> (OutGoesOn, out_send blk (st\<lparr>oretry := q\<rparr>))
      | (Received blk q, RecvClosed) \<Rightarrow>
          if pick_retry then (OutGoesOn, out_send blk (st\<lparr>oretry := q\<rparr>)) else (OutReturned, st)
      | (Received blk q, Received blk' q') \<Rightarrow>
          if pick_retry then (OutGoesOn, out_send blk (st\<lparr>oretry := q\<rparr>))
          else (OutGoesOn, out_send blk' (st\<lparr>onormal := q'\<rparr>)))"

definition OutboundRelay_iter :: "(nat \<Rightarrow> bool) \<Rightarrow> bool \<Rightarrow> out_state \<Rightarrow> out_status \<times> out_state" where
  "OutboundRelay_iter seen pick_retry st =
     (if tCtxDone (otun st) \<or> seen 1 \<or> seen 2 then (OutReturned, st)
      else case chan_recv (oretry st) of
        RecvClosed \<Rightarrow> (OutReturned, st)
      | Received blk q \<Rightarrow> OutboundRelay_third seen pick_retry (out_send blk (st\<lparr>oretry := q\<rparr>))
      | RecvBlocks \<Rightarrow> OutboundRelay_third seen pick_retry st)"

text \<open>The loop; an iteration that waits for a block leaves the state as it is.\<close>
fun OutboundRelay :: "((nat \<Rightarrow> bool) \<times> bool) list \<Rightarrow> out_state \<Rightarrow> out_state" where
  "OutboundRelay [] st = st"
| "OutboundRelay ((seen, pick) # es) st =
     (case OutboundRelay_iter seen pick st of
        (OutGoesOn, st1) \<Rightarrow> OutboundRelay es st1
      | (OutWaits, st1) \<Rightarrow> OutboundRelay es st1
      | (OutReturned, st1) \<Rightarrow> st1)"

section \<open>Receiving\<close>

text \<open>
  Reading a block. On a closed connection the read fails, unless the bytes of a whole block had
  been decrypted before the close; \<open>buffered\<close> is that block.
\<close>
definition read_block :: "block option \<Rightarrow> Tunnel \<Rightarrow> block result \<times> Tunnel" where
  "read_block buffered t =
     (if tclosed (tConn t) then (case buffered of None \<Rightarrow> Inl ErrClosed | Some blk \<Rightarrow> Inr blk, t)
      else case NewBlockFromReader (tin (tConn t)) of
        Inl e \<Rightarrow> (Inl e, t\<lparr>tConn := (tConn t)\<lparr>tin := []\<rparr>\<rparr>)
      | Inr (blk, rest) \<Rightarrow> (Inr blk, t\<lparr>tConn := (tConn t)\<lparr>tin := rest\<rparr>\<rparr>))"

text \<open>
  What the environment decides in an iteration of \<open>InboundRelay\<close>: the clock, and the state of the
  output channel. A blocking send ends with the block accepted or with the context done; the
  non-blocking send of a cancelled tunnel finds room, finds the channel full, or panics on a
  closed channel.
\<close>
datatype out_fate = Accepted | CtxWins
datatype after_fate = Room | Full | ClosedChan

record in_env =
  in_now :: i64
  pong_now :: i64
  latency_now :: i64
  fate :: out_fate
  after :: after_fate
  buffered :: "block option"

datatype in_status = InGoesOn | InReturned | InPanics

record in_state =
  itun :: Tunnel
  istats :: stats_pair
  idelivered :: "block list"

definition count_recv :: "nat \<Rightarrow> in_state \<Rightarrow> in_state" where
  "count_recv n st =
     st\<lparr>itun := (itun st)\<lparr>tRecvBytes := tRecvBytes (itun st) + of_nat n\<rparr>,
        istats := on_mode (IsClientMode (itun st)) (AddRecvBytes (of_nat n)) (istats st)\<rparr>"

text \<open>The branch of a tunnel whose context is done: one last read.\<close>
definition InboundRelay_after :: "in_env \<Rightarrow> in_state \<Rightarrow> in_status \<times> in_state" where
  "InboundRelay_after env st =
     (case read_block (buffered env) (itun st) of
        (Inl e, t1) \<Rightarrow> (InReturned, st\<lparr>itun := t1\<rparr>)
      | (Inr blk, t1) \<Rightarrow>
          (let (p, blk1) = Pack blk;
               st1 = count_recv (length p) (st\<lparr>itun := t1\<rparr>)
           in case after env of
                Room \<Rightarrow> (InReturned, st1\<lparr>idelivered := idelivered st1 @ [blk1]\<rparr>)
              | Full \<Rightarrow> (InReturned, st1)
              | ClosedChan \<Rightarrow> (InPanics, st1)))"

text \<open>The type switch on a received block.\<close>
definition InboundRelay_block :: "in_env \<Rightarrow> block \<Rightarrow> in_state \<Rightarrow> in_status \<times> in_state" where
  "InboundRelay_block env blk st =
     (if Type blk = TypePing
      then (case Uint64 (BlockData blk) of
              Panic \<Rightarrow> (InPanics, st)
            | Ret clatency \<Rightarrow>
                (let t1 = tSetLatencyNano clatency (itun st);
                     pongblk = NewPongBlock (pong_now env) 0 0 (TimeStamp blk);
                     (t2, g2, _) = packThenSend pongblk False t1 (istats st)
                 in (InGoesOn, st\<lparr>itun := t2, istats := g2\<rparr>)))
      else if Type blk = TypePong
      then (case Uint64 (BlockData blk) of
              Panic \<Rightarrow> (InPanics, st)
            | Ret timestamp \<Rightarrow>
                (InGoesOn, st\<lparr>itun := tSetLatencyNanoSince (latency_now env) timestamp (itun st)\<rparr>))
      else (case fate env of
              Accepted \<Rightarrow> (InGoesOn, st\<lparr>idelivered := idelivered st @ [blk]\<rparr>)
            | CtxWins \<Rightarrow> (InReturned, st)))"

definition InboundRelay_iter :: "in_env \<Rightarrow> in_state \<Rightarrow> in_status \<times> in_state" where
  "InboundRelay_iter env st =
     (if tCtxDone (itun st) then InboundRelay_after env st
      else case read_block (buffered env) (itun st) of
        (Inl e, t1) \<Rightarrow> (InGoesOn, st\<lparr>itun := tcloseThenCancel t1\<rparr>)
      | (Inr blk, t1) \<Rightarrow>
          (let t2 = tSetLastActive (in_now env) t1;
               (p, blk1) = Pack blk
           in InboundRelay_block env blk1 (count_recv (length p) (st\<lparr>itun := t2\<rparr>))))"

fun InboundRelay :: "in_env list \<Rightarrow> in_state \<Rightarrow> in_status \<times> in_state" where
  "InboundRelay [] st = (InGoesOn, st)"
| "InboundRelay (env # envs) st =
     (case InboundRelay_iter env st of
        (InGoesOn, st1) \<Rightarrow> InboundRelay envs st1
      | r \<Rightarrow> r)"

section \<open>Keep-alive\<close>

record tun_config =
  PingInterval :: int
  TunnelRecvTimeoutSec :: int

text \<open>Whole seconds since the last activity, in signed 64-bit nanoseconds divided towards zero.\<close>
definition idle_seconds :: "i64 \<Rightarrow> Tunnel \<Rightarrow> int" where
  "idle_seconds now t = go_div (sint (now - tGetLastActive t)) 1000000000"

text \<open>One tick; the three clock readings are those of the two tests and of the ping block.\<close>
definition PingPong_tick :: "tun_config \<Rightarrow> i64 \<Rightarrow> i64 \<Rightarrow> i64 \<Rightarrow> Tunnel \<Rightarrow> stats_pair \<Rightarrow> Tunnel \<times> stats_pair" where
  "PingPong_tick cfg now1 nowp now2 t g =
     (let (t1, g1) =
            (if idle_seconds now1 t > PingInterval cfg
             then (let blk = NewPingBlock nowp (tunnelID t) 0 (tGetLatencyNano t);
                       (t', g', _) = packThenSend blk False t g
                   in (t', g'))
             else (t, g))
      in if idle_seconds now2 t1 > PingInterval cfg + TunnelRecvTimeoutSec cfg
         then (tcloseThenCancel (t1\<lparr>IsActive := False\<rparr>), g1)
         else (t1, g1))"

text \<open>
  The loop. Between two ticks \<open>InboundRelay\<close> may receive a block, which is the tunnel's activity
  (\<open>Heard\<close>). When a tick finds the context done, both cases of the \<open>select\<close> can fire; the first
  argument of \<open>Tick\<close> tells whether the tick's does.
\<close>
datatype ping_event =
    Tick (taken: bool) (test_now: i64) (ping_now: i64) (timeout_now: i64)
  | Heard i64

fun PingPong_loop :: "tun_config \<Rightarrow> ping_event list \<Rightarrow> Tunnel \<Rightarrow> stats_pair \<Rightarrow> Tunnel \<times> stats_pair" where
  "PingPong_loop cfg [] t g = (t, g)"
| "PingPong_loop cfg (Heard now # es) t g = PingPong_loop cfg es (tSetLastActive now t) g"
| "PingPong_loop cfg (Tick b now1 nowp now2 # es) t g =
     (if tCtxDone t \<and> \<not> b then (t, g)
      else (let (t1, g1) = PingPong_tick cfg now1 nowp now2 t g in PingPong_loop cfg es t1 g1))"

definition PingPong :: "tun_config \<Rightarrow> i64 \<Rightarrow> ping_event list \<Rightarrow> Tunnel \<Rightarrow> stats_pair \<Rightarrow> Tunnel \<times> stats_pair" where
  "PingPong cfg now es t g = PingPong_loop cfg es (tSetLastActive now t) g"

section \<open>Lemmas on sending\<close>

lemma t_write_ok:
  assumes "\<not> tclosed (tConn t)" "sscript (tout (tConn t)) = []"
  shows "t_write b t = ((length b, None),
     t\<lparr>tConn := (tConn t)\<lparr>tout := (tout (tConn t))\<lparr>slog := slog (tout (tConn t)) @ b\<rparr>\<rparr>\<rparr>)"
  using assms by (simp add: t_write_def sink_write_def)

text \<open>The bytes a tunnel has written, and a tunnel whose writes succeed.\<close>
definition written :: "Tunnel \<Rightarrow> byte list" where
  "written t = slog (tout (tConn t))"

definition healthy :: "Tunnel \<Rightarrow> bool" where
  "healthy t \<longleftrightarrow> \<not> tclosed (tConn t) \<and> \<not> tCtxDone t \<and> sscript (tout (tConn t)) = []"

lemma packThenSend_ok:
  assumes "healthy t" "wf_block blk" "packThenSend blk r t g = (t', g', hand)"
  shows "healthy t'" "written t' = written t @ wire blk" "hand = None"
    "tSentBytes t' = tSentBytes t + of_nat (length (wire blk))"
    "tin (tConn t') = tin (tConn t)" "IsClientMode t' = IsClientMode t" "tRecvBytes t' = tRecvBytes t"
    "tLatencyNano t' = tLatencyNano t" "tLastActivity t' = tLastActivity t" "peerID t' = peerID t"
    "totalSentBytes (mode_stats (IsClientMode t) g')
      = totalSentBytes (mode_stats (IsClientMode t) g) + of_nat (length (wire blk))"
    "tunnelID t' = tunnelID t"
  using assms Pack_wf [OF assms(2)]
  by (auto simp: packThenSend_def Let_def healthy_def written_def t_write_ok case_prod_beta)

lemma out_send_ok:
  assumes "healthy (otun st)" "wf_block blk"
  shows "healthy (otun (out_send blk st))"
    "written (otun (out_send blk st)) = written (otun st) @ wire blk"
    "ohanded (out_send blk st) = ohanded st" "otaken (out_send blk st) = otaken st @ [blk]"
    "onormal (out_send blk st) = onormal st" "oretry (out_send blk st) = oretry st"
    "tSentBytes (otun (out_send blk st)) = tSentBytes (otun st) + of_nat (length (wire blk))"
proof -
  obtain t g hand where p: "packThenSend blk True (otun st) (ostats st) = (t, g, hand)"
    by (metis prod.collapse)
  note P = packThenSend_ok [OF assms p]
  show "healthy (otun (out_send blk st))"
    "written (otun (out_send blk st)) = written (otun st) @ wire blk"
    "ohanded (out_send blk st) = ohanded st" "otaken (out_send blk st) = otaken st @ [blk]"
    "onormal (out_send blk st) = onormal st" "oretry (out_send blk st) = oretry st"
    "tSentBytes (otun (out_send blk st)) = tSentBytes (otun st) + of_nat (length (wire blk))"
    using P p by (simp_all add: out_send_def)
qed

section \<open>Lemmas on receiving\<close>

text \<open>Blocks that are passed on to the connections: everything but the keep-alive blocks.\<close>
definition payload_block :: "block \<Rightarrow> bool" where
  "payload_block b \<longleftrightarrow> wf_block b \<and> Type b \<noteq> TypePing \<and> Type b \<noteq> TypePong"

text \<open>A received block carries its encoding in the cache.\<close>
definition as_received :: "block \<Rightarrow> block" where
  "as_received b = b\<lparr>packed := Some (wire b)\<rparr>"

lemma as_received_sel [simp]:
  "Type (as_received b) = Type b" "BlockData (as_received b) = BlockData b"
  "ConnectionID (as_received b) = ConnectionID b" "BlockID (as_received b) = BlockID b"
  "unpacked (as_received b) = unpacked b" "TimeStamp (as_received b) = TimeStamp b"
  by (simp_all add: as_received_def unpacked_def)

lemma read_block_wire:
  assumes "healthy t" "wf_block b" "tin (tConn t) = wire b @ rest"
  shows "read_block buf t = (Inr (unpacked b), t\<lparr>tConn := (tConn t)\<lparr>tin := rest\<rparr>\<rparr>)"
  using assms by (simp add: read_block_def healthy_def NewBlockFromReader_wire wf_block_def)

lemma Pack_unpacked: "Pack (unpacked b) = (wire b, as_received b)"
  by (simp add: Pack_None) (simp add: as_received_def unpacked_def)

text \<open>One iteration on a block that is accepted downstream.\<close>
lemma InboundRelay_payload:
  assumes "healthy (itun st)" "payload_block b" "tin (tConn (itun st)) = wire b @ rest" "fate env = Accepted"
  shows "\<exists>st'. InboundRelay_iter env st = (InGoesOn, st') \<and> healthy (itun st')
    \<and> idelivered st' = idelivered st @ [as_received b] \<and> tin (tConn (itun st')) = rest
    \<and> tRecvBytes (itun st') = tRecvBytes (itun st) + of_nat (length (wire b))"
proof -
  have "\<not> tCtxDone (itun st)" "wf_block b" using assms by (simp_all add: healthy_def payload_block_def)
  moreover have "Type b \<noteq> TypePing" "Type b \<noteq> TypePong" using assms(2) by (simp_all add: payload_block_def)
  ultimately show ?thesis
    using read_block_wire [OF assms(1) _ assms(3)] assms(1,4)
    by (simp add: InboundRelay_iter_def Pack_unpacked InboundRelay_block_def count_recv_def
        tSetLastActive_def healthy_def)
qed

lemma InboundRelay_payloads:
  assumes "healthy (itun st)" "\<forall>b\<in>set bs. payload_block b" "length envs = length bs"
    and "tin (tConn (itun st)) = concat (map wire bs) @ rest" "\<forall>env\<in>set envs. fate env = Accepted"
  shows "\<exists>st'. InboundRelay envs st = (InGoesOn, st') \<and> healthy (itun st')
    \<and> idelivered st' = idelivered st @ map as_received bs \<and> tin (tConn (itun st')) = rest
    \<and> tRecvBytes (itun st') = tRecvBytes (itun st) + of_nat (length (concat (map wire bs)))"
  using assms
proof (induction bs arbitrary: st envs)
  case (Cons b bs)
  then obtain env envs' where e: "envs = env # envs'" "fate env = Accepted" "length envs' = length bs"
    by (cases envs) auto
  obtain st1 where st1: "InboundRelay_iter env st = (InGoesOn, st1)" "healthy (itun st1)"
    "idelivered st1 = idelivered st @ [as_received b]" "tin (tConn (itun st1)) = concat (map wire bs) @ rest"
    "tRecvBytes (itun st1) = tRecvBytes (itun st) + of_nat (length (wire b))"
    using InboundRelay_payload [OF Cons.prems(1) _ _ e(2), of b "concat (map wire bs) @ rest"] Cons.prems by auto
  with Cons.IH [OF st1(2) _ e(3) st1(4)] Cons.prems e show ?case by (auto simp: add.assoc)
qed simp

section \<open>Runs of the sending side\<close>

text \<open>Nothing is lost or invented on the way from the queues to the wire of a healthy tunnel.\<close>
definition out_inv :: "block list \<Rightarrow> out_state \<Rightarrow> bool" where
  "out_inv bs st \<longleftrightarrow> healthy (otun st) \<and> (\<forall>b\<in>set bs. wf_block b) \<and> ohanded st = []
     \<and> written (otun st) = concat (map wire (otaken st))
     \<and> tSentBytes (otun st) = of_nat (length (written (otun st)))
     \<and> mset (otaken st) + mset (chq (oretry st)) + mset (chq (onormal st)) = mset bs"

lemma out_inv_send:
  assumes "healthy (otun st)" "\<forall>b\<in>set bs. wf_block b" "ohanded st = []"
    and "written (otun st) = concat (map wire (otaken st))"
    and "tSentBytes (otun st) = of_nat (length (written (otun st)))"
    and "add_mset blk (mset (otaken st) + mset (chq (oretry st)) + mset (chq (onormal st))) = mset bs"
  shows "out_inv bs (out_send blk st)"
proof -
  have "blk \<in># mset bs" unfolding assms(6) [symmetric] by simp
  then have "wf_block blk" using assms(2) by simp
  from out_send_ok [OF assms(1) this] assms show ?thesis by (simp add: out_inv_def)
qed

lemma chan_recv_ReceivedD: "chan_recv c = Received v c' \<Longrightarrow> chq c = v # chq c'"
  by (auto simp: chan_recv_def split: list.splits if_splits)

lemma out_inv_retry:
  assumes "out_inv bs st" "chan_recv (oretry st) = Received blk q"
  shows "out_inv bs (out_send blk (st\<lparr>oretry := q\<rparr>))"
  using assms(1) chan_recv_ReceivedD [OF assms(2)] by (intro out_inv_send) (simp_all add: out_inv_def)

lemma out_inv_normal:
  assumes "out_inv bs st" "chan_recv (onormal st) = Received blk q"
  shows "out_inv bs (out_send blk (st\<lparr>onormal := q\<rparr>))"
  using assms(1) chan_recv_ReceivedD [OF assms(2)] by (intro out_inv_send) (simp_all add: out_inv_def)

lemma out_inv_third: "out_inv bs st \<Longrightarrow> out_inv bs (snd (OutboundRelay_third seen pick st))"
  by (auto simp: OutboundRelay_third_def out_inv_retry out_inv_normal split: recv_result.splits)

lemma out_inv_iter: "out_inv bs st \<Longrightarrow> out_inv bs (snd (OutboundRelay_iter seen pick st))"
  by (auto simp: OutboundRelay_iter_def out_inv_third out_inv_retry split: recv_result.splits)

lemma out_inv_run: "out_inv bs st \<Longrightarrow> out_inv bs (OutboundRelay es st)"
proof (induction es arbitrary: st)
  case (Cons e es)
  obtain seen pick where "e = (seen, pick)" by fastforce
  with Cons out_inv_iter [OF Cons.prems, of seen pick] show ?case
    by (auto split: prod.split out_status.split)
qed simp

section \<open>Properties\<close>

definition fresh_tun :: "byte list \<Rightarrow> tun_conn" where
  "fresh_tun inp = \<lparr>tin = inp, tout = \<lparr>slog = [], sscript = []\<rparr>, tclosed = False\<rparr>"

definition fresh_out :: "Tunnel \<Rightarrow> stats_pair \<Rightarrow> nat \<Rightarrow> block list \<Rightarrow> block list \<Rightarrow> out_state" where
  "fresh_out t g n retry normal =
     \<lparr>otun = t, ostats = g, onormal = \<lparr>chq = normal, chcap = n, chclosed = False\<rparr>,
      oretry = \<lparr>chq = retry, chcap = n, chclosed = False\<rparr>, ohanded = [], otaken = []\<rparr>"

lemma fresh_out_run:
  assumes "\<forall>b\<in>set (retry @ normal). wf_block b"
  shows "out_inv (retry @ normal) (OutboundRelay es (fresh_out (newTunnelWithID tid (fresh_tun []) pid) g n retry normal))"
  using assms by (intro out_inv_run)
    (auto simp: out_inv_def fresh_out_def newTunnelWithID_def fresh_tun_def healthy_def written_def)

lemma out_inv_taken: "out_inv bs st \<Longrightarrow> set (otaken st) \<subseteq> set bs"
  by (metis (no_types, lifting) out_inv_def mset_subset_eq_add_left set_mset_mono set_mset_mset
      subset_mset.order_trans)

text \<open>One iteration per waiting block empties the queue of a healthy tunnel.\<close>
lemma OutboundRelay_drains:
  assumes "healthy (otun st)" "\<forall>b\<in>set (chq (onormal st)). wf_block b" "chq (oretry st) = []"
    and "\<not> chclosed (oretry st)"
  shows "otaken (OutboundRelay (replicate (length (chq (onormal st))) (\<lambda>_. False, False)) st)
    = otaken st @ chq (onormal st)"
  using assms
proof (induction "chq (onormal st)" arbitrary: st)
  case (Cons b bs)
  note q = Cons.hyps(2) [symmetric]
  let ?st = "st\<lparr>onormal := (onormal st)\<lparr>chq := bs\<rparr>\<rparr>"
  have b: "wf_block b" "healthy (otun ?st)" "\<not> tCtxDone (otun st)"
    using Cons.prems(1,2) q by (simp_all add: healthy_def)
  note S = out_send_ok [OF b(2,1)]
  have "OutboundRelay_iter (\<lambda>_. False) False st = (OutGoesOn, out_send b ?st)"
    using b(3) Cons.prems(3,4) q by (simp add: OutboundRelay_iter_def OutboundRelay_third_def chan_recv_def)
  moreover have "otaken (OutboundRelay (replicate (length bs) (\<lambda>_. False, False)) (out_send b ?st))
      = otaken (out_send b ?st) @ bs"
    using Cons.hyps(1) [of "out_send b ?st"] Cons.prems q by (simp add: S)
  ultimately show ?case unfolding q by (simp add: S)
qed simp

text \<open>What the receiving end makes of the bytes a sending loop has written.\<close>
lemma transfer_received:
  assumes "out_inv bs st" and "\<forall>b\<in>set (otaken st). payload_block b"
    and "length envs = length (otaken st)" and "\<forall>env\<in>set envs. fate env = Accepted"
    and "rx = \<lparr>itun = newTunnelWithID tid' (fresh_tun (written (otun st))) pid', istats = g', idelivered = []\<rparr>"
  shows "\<exists>rx'. InboundRelay envs rx = (InGoesOn, rx') \<and> idelivered rx' = map as_received (otaken st)
    \<and> tin (tConn (itun rx')) = [] \<and> tRecvBytes (itun rx') = tSentBytes (otun st)"
proof -
  have "healthy (itun rx)" "tin (tConn (itun rx)) = concat (map wire (otaken st)) @ []"
    using assms(1) by (simp_all add: assms(5) newTunnelWithID_def fresh_tun_def healthy_def out_inv_def)
  from InboundRelay_payloads [OF this(1) assms(2,3) this(2) assms(4)] show ?thesis
    using assms(1) by (auto simp: assms(5) newTunnelWithID_def out_inv_def)
qed

text \<open>
  C9. A tunnel transports blocks without loss, change or reordering. Let the sending loop run over
  a tunnel whose writes succeed, with any interleaving of its queues. The blocks it has taken, with
  those still queued, are the blocks it was given; and a receiving loop at the other end delivers
  exactly the taken blocks, in the order they were taken, with equal byte counts at both ends.
\<close>
theorem tunnel_transfer:
  assumes "\<forall>b\<in>set (retry @ normal). payload_block b"
    and "st = OutboundRelay es (fresh_out (newTunnelWithID tid (fresh_tun []) pid) g n retry normal)"
    and "length envs = length (otaken st)" and "\<forall>env\<in>set envs. fate env = Accepted"
    and "rx = \<lparr>itun = newTunnelWithID tid' (fresh_tun (written (otun st))) pid', istats = g', idelivered = []\<rparr>"
  shows "mset (otaken st) + mset (chq (oretry st)) + mset (chq (onormal st)) = mset (retry @ normal)
    \<and> (\<exists>rx'. InboundRelay envs rx = (InGoesOn, rx') \<and> idelivered rx' = map as_received (otaken st)
        \<and> tin (tConn (itun rx')) = [] \<and> tRecvBytes (itun rx') = tSentBytes (otun st))"
proof -
  have inv: "out_inv (retry @ normal) st"
    unfolding assms(2) using assms(1) by (auto simp: payload_block_def intro: fresh_out_run)
  with out_inv_taken [OF inv] assms(1) have "\<forall>b\<in>set (otaken st). payload_block b" by blast
  from transfer_received [OF inv this assms(3-5)] inv show ?thesis by (auto simp: out_inv_def)
qed

lemma otaken_out_send [simp]:
  "otaken (out_send blk st) = otaken st @ [blk]" "onormal (out_send blk st) = onormal st"
  by (simp_all add: out_send_def case_prod_beta)

theorem tunnel_transfer_witness:
  "\<exists>rx'. InboundRelay [\<lparr>in_now = 0, pong_now = 0, latency_now = 0, fate = Accepted, after = Room, buffered = None\<rparr>]
      \<lparr>itun = newTunnelWithID 2 (fresh_tun (written (otun (OutboundRelay [(\<lambda>_. False, False)]
         (fresh_out (newTunnelWithID 1 (fresh_tun []) 5) (InitStats 10) 8 [] [NewDisconnectBlock 0 7 0 ShutdownBoth]))))) 5,
       istats = InitStats 10, idelivered = []\<rparr> = (InGoesOn, rx')
    \<and> idelivered rx' = [as_received (NewDisconnectBlock 0 7 0 ShutdownBoth)]"
proof -
  let ?b = "NewDisconnectBlock 0 7 0 ShutdownBoth"
  let ?st = "OutboundRelay [(\<lambda>_. False, False)]
      (fresh_out (newTunnelWithID 1 (fresh_tun []) 5) (InitStats 10) 8 [] [?b])"
  have "otaken ?st = [?b]"
    by (simp add: OutboundRelay_iter_def OutboundRelay_third_def chan_recv_def fresh_out_def newTunnelWithID_def)
  moreover have "payload_block ?b"
    using wf_NewDisconnectBlock by (simp add: payload_block_def NewDisconnectBlock_def)
  ultimately show ?thesis
    using tunnel_transfer [of "[]" "[?b]" ?st "[(\<lambda>_. False, False)]" 1 5 "InitStats 10" 8
        "[\<lparr>in_now = 0, pong_now = 0, latency_now = 0, fate = Accepted, after = Room, buffered = None\<rparr>]" _ 2 5 "InitStats 10"]
    by auto
qed

text \<open>
  C27. The handshake makes both ends agree: the passive end adopts the peer ID that the active end
  sends and echoes it; the active end accepts the echo of its own ID and refuses any other answer.
  Both leave the bytes that follow untouched.
\<close>
theorem handshake_agrees:
  "\<exists>p a. NewPassiveTunnel tid' (fresh_tun (PutUint32 pid @ rest)) = (None, p)
    \<and> peerID p = pid \<and> \<not> IsClientMode p \<and> written p = PutUint32 pid \<and> tin (tConn p) = rest
    \<and> NewActiveTunnel tid (fresh_tun (PutUint32 q @ rest')) pid
        = (if q = pid then None else Some (ErrMsg ''invalid exchanging''), a)
    \<and> peerID a = pid \<and> IsClientMode a \<and> written a = PutUint32 pid \<and> tin (tConn a) = rest'"
  by (simp add: NewPassiveTunnel_def NewActiveTunnel_def passiveExchangePeerID_def activeExchangePeerID_def
      sendPeerID_def recvPeerID_def t_write_def sink_write_def newTunnelWithID_def fresh_tun_def written_def
      PutUint32_def)



lemma healthy_upd [simp]:
  "healthy (t\<lparr>tRecvBytes := n\<rparr>) = healthy t" "healthy (t\<lparr>tLatencyNano := l\<rparr>) = healthy t"
  "healthy (t\<lparr>tLastActivity := l, IsActive := b\<rparr>) = healthy t"
  "healthy (t\<lparr>tConn := (tConn t)\<lparr>tin := xs\<rparr>\<rparr>) = healthy t"
  by (simp_all add: healthy_def)

lemma written_upd [simp]:
  "written (t\<lparr>tRecvBytes := n\<rparr>) = written t" "written (t\<lparr>tLatencyNano := l\<rparr>) = written t"
  "written (t\<lparr>tLastActivity := l, IsActive := b\<rparr>) = written t"
  "written (t\<lparr>tConn := (tConn t)\<lparr>tin := xs\<rparr>\<rparr>) = written t"
  by (simp_all add: written_def)

text \<open>
  Latency measurement over both ends: a ping is answered by a pong that carries the ping's own
  time stamp, and the answering end records the latency the ping reports; when the pong arrives,
  the asking end records the time from the creation of the ping to the arrival of the pong.
  Neither block is passed on to the connections.
\<close>
lemma ping_pong_latency:
  assumes "healthy (itun sv)" "tin (tConn (itun sv)) = wire (NewPingBlock now tid 0 lat) @ rest"
    and "healthy (itun cl)" "tin (tConn (itun cl)) = wire (NewPongBlock (pong_now env) 0 0 now) @ rest'"
  shows "\<exists>sv' cl'. InboundRelay_iter env sv = (InGoesOn, sv') \<and> tLatencyNano (itun sv') = lat
    \<and> written (itun sv') = written (itun sv) @ wire (NewPongBlock (pong_now env) 0 0 now)
    \<and> idelivered sv' = idelivered sv
    \<and> InboundRelay_iter env' cl = (InGoesOn, cl') \<and> tLatencyNano (itun cl') = latency_now env' - now
    \<and> idelivered cl' = idelivered cl"
proof -
  let ?ping = "NewPingBlock now tid 0 lat" and ?pong = "NewPongBlock (pong_now env) 0 0 now"
  let ?t = "tSetLatencyNano lat ((tSetLastActive (in_now env) ((itun sv)\<lparr>tConn := (tConn (itun sv))\<lparr>tin := rest\<rparr>\<rparr>))
      \<lparr>tRecvBytes := tRecvBytes (itun sv) + of_nat (length (wire ?ping))\<rparr>)"
  let ?g = "on_mode (IsClientMode (itun sv)) (AddRecvBytes (of_nat (length (wire ?ping)))) (istats sv)"
  have nd: "\<not> tCtxDone (itun sv)" "\<not> tCtxDone (itun cl)" using assms by (simp_all add: healthy_def)
  obtain t' g' hand where p: "packThenSend ?pong False ?t ?g = (t', g', hand)" by (metis prod.collapse)
  have "healthy ?t" "written ?t = written (itun sv)"
    using assms(1) by (simp_all add: tSetLatencyNano_def tSetLastActive_def)
  with packThenSend_ok [OF _ wf_NewPongBlock p] have
    t': "written t' = written (itun sv) @ wire ?pong" "tLatencyNano t' = lat"
    by (simp_all add: tSetLatencyNano_def)
  have "InboundRelay_iter env sv = (InGoesOn, sv\<lparr>itun := t', istats := g'\<rparr>)"
    using nd p read_block_wire [OF assms(1) wf_NewPingBlock assms(2), of "buffered env"]
    by (simp add: InboundRelay_iter_def InboundRelay_block_def Pack_unpacked count_recv_def NewPingBlock_def
        tSetLastActive_def)
  moreover have "\<exists>cl'. InboundRelay_iter env' cl = (InGoesOn, cl')
      \<and> tLatencyNano (itun cl') = latency_now env' - now \<and> idelivered cl' = idelivered cl"
    using nd read_block_wire [OF assms(3) wf_NewPongBlock assms(4), of "buffered env'"]
    by (simp add: InboundRelay_iter_def InboundRelay_block_def Pack_unpacked count_recv_def NewPongBlock_def
        tSetLatencyNanoSince_def Let_def)
  ultimately show ?thesis using t' by auto
qed

definition fresh_in :: "byte list \<Rightarrow> in_state" where
  "fresh_in inp = \<lparr>itun = newTunnelWithID 2 (fresh_tun inp) 5, istats = InitStats 10, idelivered = []\<rparr>"

lemma fresh_in_healthy: "healthy (itun (fresh_in inp))" "tin (tConn (itun (fresh_in inp))) = inp"
  by (simp_all add: fresh_in_def newTunnelWithID_def fresh_tun_def healthy_def)

lemma ping_pong_latency_witness:
  "\<exists>cl'. InboundRelay_iter \<lparr>in_now = 0, pong_now = 0, latency_now = 1500, fate = Accepted, after = Room, buffered = None\<rparr>
      (fresh_in (wire (NewPongBlock 1200 0 0 1000) @ [])) = (InGoesOn, cl') \<and> tLatencyNano (itun cl') = 500"
proof -
  let ?env = "\<lparr>in_now = 0, pong_now = 1200, latency_now = 0, fate = Accepted, after = Room, buffered = None\<rparr>"
  have pong: "tin (tConn (itun (fresh_in (wire (NewPongBlock 1200 0 0 1000) @ []))))
      = wire (NewPongBlock (pong_now ?env) 0 0 1000) @ []"
    by (simp add: fresh_in_healthy)
  show ?thesis
    using ping_pong_latency [OF fresh_in_healthy(1) fresh_in_healthy(2) [of "wire (NewPingBlock 1000 3 0 7) @ []"]
        fresh_in_healthy(1) pong,
        of "\<lparr>in_now = 0, pong_now = 0, latency_now = 1500, fate = Accepted, after = Room, buffered = None\<rparr>"]
    by auto
qed

text \<open>
  A keep-alive block with fewer than eight bytes of data, which any peer can send, makes the
  receiving loop index out of range and ends the process.
\<close>
lemma short_keepalive_panics:
  assumes "healthy (itun st)" "tin (tConn (itun st)) = wire b @ rest" "wf_block b"
    and "Type b = TypePing \<or> Type b = TypePong" "length (BlockData b) < 8"
  shows "fst (InboundRelay_iter env st) = InPanics"
  using assms read_block_wire [OF assms(1,3,2), of "buffered env"]
  by (auto simp: InboundRelay_iter_def InboundRelay_block_def Pack_unpacked Uint64_def healthy_def)

lemma short_keepalive_panics_witness:
  "fst (InboundRelay_iter \<lparr>in_now = 0, pong_now = 0, latency_now = 0, fate = Accepted, after = Room, buffered = None\<rparr>
      (fresh_in (wire (zero_block\<lparr>Type := TypePing\<rparr>) @ []))) = InPanics"
  by (rule short_keepalive_panics [OF fresh_in_healthy]) (simp_all add: zero_block_def wf_block_def)

text \<open>Sending a ping is no activity, and a tick of a closed tunnel sends nothing.\<close>
lemma PingPong_tick_correct:
  assumes "healthy t" "PingPong_tick cfg now1 nowp now2 t g = (t', g')"
  shows "written t' = written t @ (if idle_seconds now1 t > PingInterval cfg
       then wire (NewPingBlock nowp (tunnelID t) 0 (tLatencyNano t)) else [])"
    and "tLastActivity t' = tLastActivity t" "tunnelID t' = tunnelID t" "tLatencyNano t' = tLatencyNano t"
    and "if idle_seconds now2 t > PingInterval cfg + TunnelRecvTimeoutSec cfg then tclosed (tConn t') \<and> tCtxDone t' else healthy t'"
proof -
  let ?ping = "NewPingBlock nowp (tunnelID t) 0 (tLatencyNano t)"
  obtain tp gp h where ping: "packThenSend ?ping False t g = (tp, gp, h)" by (metis prod.collapse)
  define t1 where "t1 = (if idle_seconds now1 t > PingInterval cfg then tp else t)"
  have t1: "healthy t1" "tLastActivity t1 = tLastActivity t" "tunnelID t1 = tunnelID t" "tLatencyNano t1 = tLatencyNano t"
    "written t1 = written t @ (if idle_seconds now1 t > PingInterval cfg then wire ?ping else [])"
    using packThenSend_ok [OF assms(1) wf_NewPingBlock ping] assms(1) by (simp_all add: t1_def)
  have "idle_seconds now2 t1 = idle_seconds now2 t" using t1(2) by (simp add: idle_seconds_def)
  then have t': "t' = (if idle_seconds now2 t > PingInterval cfg + TunnelRecvTimeoutSec cfg
      then tcloseThenCancel (t1\<lparr>IsActive := False\<rparr>) else t1)"
    using assms(2) ping by (simp add: PingPong_tick_def t1_def Let_def split: if_splits)
  show "written t' = written t @ (if idle_seconds now1 t > PingInterval cfg then wire ?ping else [])"
    "tLastActivity t' = tLastActivity t" "tunnelID t' = tunnelID t" "tLatencyNano t' = tLatencyNano t"
    "if idle_seconds now2 t > PingInterval cfg + TunnelRecvTimeoutSec cfg then tclosed (tConn t') \<and> tCtxDone t' else healthy t'"
    using t1 by (simp_all add: t' tcloseThenCancel_def written_def)
qed

lemma PingPong_tick_closed:
  assumes "tclosed (tConn t)" "tCtxDone t" "PingPong_tick cfg now1 nowp now2 t g = (t', g')"
  shows "tclosed (tConn t') \<and> tCtxDone t' \<and> written t' = written t"
  using assms by (auto simp: PingPong_tick_def packThenSend_def t_write_def tcloseThenCancel_def written_def Let_def
      split: if_splits prod.splits)

lemma PingPong_loop_closed:
  "tclosed (tConn t) \<Longrightarrow> tCtxDone t \<Longrightarrow> PingPong_loop cfg es t g = (t', g')
     \<Longrightarrow> tclosed (tConn t') \<and> tCtxDone t' \<and> written t' = written t"
proof (induction cfg es t g rule: PingPong_loop.induct)
  case (2 cfg now es t g)
  then show ?case by (simp add: tSetLastActive_def written_def)
next
  case (3 cfg b now1 nowp now2 es t g)
  obtain t1 g1 where t1: "PingPong_tick cfg now1 nowp now2 t g = (t1, g1)" by fastforce
  with "3.prems" have "tclosed (tConn t1)" "tCtxDone t1" "written t1 = written t"
    using PingPong_tick_closed [OF "3.prems"(1,2)] by auto
  with "3.prems" "3.IH" [OF _ t1 [symmetric] refl] t1 show ?case by (auto split: if_splits)
qed simp

text \<open>
  The specification of the keep-alive: whole seconds from one time stamp to another, whether the
  peer has been silent for too long at some tick, and the pings that the ticks send until then.
\<close>
definition seconds_since :: "i64 \<Rightarrow> i64 \<Rightarrow> int" where
  "seconds_since since now = go_div (sint (now - since)) 1000000000"

fun silent_too_long :: "tun_config \<Rightarrow> i64 \<Rightarrow> ping_event list \<Rightarrow> bool" where
  "silent_too_long cfg since [] \<longleftrightarrow> False"
| "silent_too_long cfg since (Heard now # es) \<longleftrightarrow> silent_too_long cfg now es"
| "silent_too_long cfg since (Tick b now1 nowp now2 # es) \<longleftrightarrow>
     seconds_since since now2 > PingInterval cfg + TunnelRecvTimeoutSec cfg \<or> silent_too_long cfg since es"

fun pings_due :: "tun_config \<Rightarrow> i64 \<Rightarrow> ping_event list \<Rightarrow> i64 list" where
  "pings_due cfg since [] = []"
| "pings_due cfg since (Heard now # es) = pings_due cfg now es"
| "pings_due cfg since (Tick b now1 nowp now2 # es) =
     (if seconds_since since now1 > PingInterval cfg then [nowp] else [])
   @ (if seconds_since since now2 > PingInterval cfg + TunnelRecvTimeoutSec cfg then [] else pings_due cfg since es)"

lemma PingPong_loop_correct:
  "healthy t \<Longrightarrow> PingPong_loop cfg es t g = (t', g') \<Longrightarrow>
     (if silent_too_long cfg (tLastActivity t) es then tclosed (tConn t') \<and> tCtxDone t' else healthy t')
   \<and> written t' = written t @ concat (map (\<lambda>now. wire (NewPingBlock now (tunnelID t) 0 (tLatencyNano t))) (pings_due cfg (tLastActivity t) es))"
proof (induction cfg es t g rule: PingPong_loop.induct)
  case (2 cfg now es t g)
  moreover have "healthy (tSetLastActive now t)" "written (tSetLastActive now t) = written t"
    using "2.prems"(1) by (simp_all add: healthy_def tSetLastActive_def written_def)
  ultimately show ?case by (simp add: tSetLastActive_def)
next
  case (3 cfg b now1 nowp now2 es t g)
  obtain t1 g1 where t1: "PingPong_tick cfg now1 nowp now2 t g = (t1, g1)" by fastforce
  note T = PingPong_tick_correct [OF "3.prems"(1) t1, unfolded idle_seconds_def tGetLastActive_def seconds_since_def [symmetric]]
  have nd: "\<not> tCtxDone t" using "3.prems"(1) by (simp add: healthy_def)
  have l: "PingPong_loop cfg es t1 g1 = (t', g')" using "3.prems"(2) nd t1 by simp
  show ?case
  proof (cases "seconds_since (tLastActivity t) now2 > PingInterval cfg + TunnelRecvTimeoutSec cfg")
    case True
    with T PingPong_loop_closed [OF _ _ l] show ?thesis by simp
  next
    case False
    with T "3.IH" [OF _ t1 [symmetric] refl _ l] nd show ?thesis by simp
  qed
qed simp

text \<open>
  C24. Keep-alive: the tunnel of a peer is closed exactly when, at some tick, nothing has been
  received for longer than the ping interval and the receive timeout together, and until then
  it stays usable; a tick sends one ping exactly when nothing has been received for longer than
  the ping interval. Sending pings is no activity.
\<close>
theorem PingPong_keepalive:
  assumes "healthy t" "PingPong cfg now es t g = (t', g')"
  shows "(if silent_too_long cfg now es then tclosed (tConn t') \<and> tCtxDone t' else healthy t')
   \<and> written t' = written t @ concat (map (\<lambda>nowp. wire (NewPingBlock nowp (tunnelID t) 0 (tLatencyNano t))) (pings_due cfg now es))"
proof -
  have "healthy (tSetLastActive now t)" "written (tSetLastActive now t) = written t"
    using assms(1) by (simp_all add: healthy_def tSetLastActive_def written_def)
  with PingPong_loop_correct [OF _ assms(2) [unfolded PingPong_def]] show ?thesis by (simp add: tSetLastActive_def)
qed

theorem PingPong_keepalive_witness:
  "let t = fst (PingPong \<lparr>PingInterval = 30, TunnelRecvTimeoutSec = 40\<rparr> 0
      [Tick False 31000000000 31000000000 31000000000, Heard 32000000000,
       Tick False 63000000000 63000000000 63000000000, Tick False 103000000000 103000000000 103000000000]
      (newTunnelWithID 2 (fresh_tun []) 5) (InitStats 10)) in tCtxDone t \<and> length (written t) = 3 * 29"
proof -
  let ?t = "newTunnelWithID 2 (fresh_tun []) 5" and ?cfg = "\<lparr>PingInterval = 30, TunnelRecvTimeoutSec = 40\<rparr>"
  let ?es = "[Tick False 31000000000 31000000000 31000000000, Heard 32000000000,
       Tick False 63000000000 63000000000 63000000000, Tick False 103000000000 103000000000 103000000000]"
  have h: "healthy ?t" by (simp add: newTunnelWithID_def fresh_tun_def healthy_def)
  obtain t' g' where "PingPong ?cfg 0 ?es ?t (InitStats 10) = (t', g')" by fastforce
  moreover have "silent_too_long ?cfg 0 ?es" "pings_due ?cfg 0 ?es = [31000000000, 63000000000, 103000000000]"
    by (simp_all add: seconds_since_def go_div_def)
  ultimately show ?thesis
    using PingPong_keepalive [OF h, of ?cfg 0 ?es "InitStats 10"]
    by (simp add: length_wire HeaderSize_def NewPingBlock_def written_def newTunnelWithID_def fresh_tun_def)
qed

end
