(* ===== verification/SecureTunnel.thy ===== *)
theory SecureTunnel
  imports Tunnel
begin

text \<open>
  A tunnel's connection with its encryption. \<open>Tunnel\<close> sees the connection above the encryption, as
  the plain bytes that will still arrive; here blocks are read from and written to the encrypted
  stream connection itself, and the two views are shown to agree.
\<close>

section \<open>Reading blocks from an encrypted connection\<close>

text \<open>A read that returns without an error gives bytes or uses up received ones.\<close>
lemma r_Read_progress:
  assumes "r_Read len r c = ((xs, None), r', c')" "0 < len" "xs = []"
  shows "length (cin c') < length (cin c)"
proof (cases "leftover r = []")
  case True
  then obtain ys where "read_record r c = (Inr ys, fst (snd (read_record r c)), c')"
    using assms(1) by (auto simp: r_Read_def Let_def split: prod.splits sum.splits)
  then show ?thesis by (rule read_record_consumes)
next
  case False
  with assms show ?thesis by (simp add: r_Read_def)
qed

lemma sc_Read_progress:
  assumes "sc_Read L len sc = Ret ((xs, None), sc')" "0 < len" "xs = []"
  shows "length (cin (scConn sc')) < length (cin (scConn sc))"
proof -
  obtain sc1 r where 1: "scR sc1 = Some r" "length (cin (scConn sc1)) \<le> length (cin (scConn sc))"
    "(let (res, r', c') = r_Read len r (scConn sc1) in Ret (res, sc1\<lparr>scConn := c', scR := Some r'\<rparr>)) = Ret ((xs, None), sc')"
  proof (cases "scR sc")
    case (Some r)
    with assms(1) show thesis by (intro that [of sc r]) (simp_all add: sc_Read_def)
  next
    case None
    then obtain sc1 where i: "initReader L sc = Ret (None, sc1)"
      using assms(1) by (auto simp: sc_Read_def split: outcome.splits prod.splits option.splits)
    then obtain salt rest a where "ReadFull (SaltSize (scCipher sc)) (cin (scConn sc)) = Inr (salt, rest)"
      "sc1 = sc\<lparr>scConn := (scConn sc)\<lparr>cin := rest\<rparr>, scR := Some (newReader a)\<rparr>"
      by (auto simp: initReader_def Let_def split: sum.splits outcome.splits)
    with i None assms(1) show thesis
      by (intro that [of sc1 "newReader a"]) (auto simp: sc_Read_def dest!: ReadFull_InrD)
  qed
  obtain err r' c' where R: "r_Read len r (scConn sc1) = ((xs, err), r', c')" "err = None" "sc' = sc1\<lparr>scConn := c', scR := Some r'\<rparr>"
    using 1(3) by (auto split: prod.splits)
  with r_Read_progress [of len r "scConn sc1" xs r' c'] assms(2,3) 1(2) show ?thesis by simp
qed

text \<open>
  \<open>io.ReadFull\<close> on the connection: reads until the destination is full or a read fails; \<open>acc\<close> holds
  what was read so far.
\<close>
function sc_ReadFull :: "'blk crypto_lib \<Rightarrow> nat \<Rightarrow> byte list \<Rightarrow> streamConn \<Rightarrow> (byte list result \<times> streamConn) outcome" where
  "sc_ReadFull L n acc sc =
     (if n \<le> length acc then Ret (Inr acc, sc)
      else case sc_Read L (n - length acc) sc of
        Panic \<Rightarrow> Panic
      | Ret ((xs, None), sc1) \<Rightarrow> sc_ReadFull L n (acc @ xs) sc1
      | Ret ((xs, Some e), sc1) \<Rightarrow>
          (if n \<le> length (acc @ xs) then Ret (Inr (acc @ xs), sc1)
           else Ret (Inl (if acc @ xs \<noteq> [] \<and> e = EOF then ErrUnexpectedEOF else e), sc1)))"
  by pat_completeness auto
termination
proof (relation "measures [\<lambda>(L, n, acc, sc). n - length acc, \<lambda>(L, n, acc, sc). length (cin (scConn sc))]", goal_cases)
  case 1
  then show ?case by simp
next
  case (2 L n acc sc x p sc1 xs err)
  then show ?case using sc_Read_progress [of L "n - length acc" sc xs sc1] by (cases xs) auto
qed

declare sc_ReadFull.simps [simp del]

text \<open>\<open>NewBlockFromReader\<close> on the connection.\<close>
definition sc_NewBlockFromReader :: "'blk crypto_lib \<Rightarrow> streamConn \<Rightarrow> (block result \<times> streamConn) outcome" where
  "sc_NewBlockFromReader L sc =
     (case sc_ReadFull L HeaderSize [] sc of
        Panic \<Rightarrow> Panic
      | Ret (Inl e, sc1) \<Rightarrow> Ret (Inl e, sc1)
      | Ret (Inr headerBuf, sc1) \<Rightarrow>
          (let blk = header_block headerBuf
           in if BlockLength blk > 0
              then (case sc_ReadFull L (unat (BlockLength blk)) [] sc1 of
                      Panic \<Rightarrow> Panic
                    | Ret (Inl e, sc2) \<Rightarrow> Ret (Inl e, sc2)
                    | Ret (Inr dat, sc2) \<Rightarrow> Ret (Inr (blk\<lparr>BlockData := dat\<rparr>), sc2))
              else Ret (Inr blk, sc1)))"

section \<open>The plain view is right\<close>

text \<open>On input that a peer has written, a read gives bytes, or reports the end when there are none.\<close>
lemma r_Read_sealed:
  assumes "sealed_input r c" "0 < len" "r_Read len r c = ((xs, err), r', c')"
  shows "if leftover r @ decrypt_all r c = [] then xs = [] \<and> err = Some EOF else xs \<noteq> [] \<and> err = None"
proof (cases "leftover r = []")
  case True
  from assms(1) show ?thesis
    by (cases rule: sealed_input_cases) (use True assms(2,3) in \<open>auto simp: r_Read_def Let_def valid_chunk_def min_def split: if_splits\<close>)
qed (use assms(2,3) in \<open>auto simp: r_Read_def\<close>)

lemma sc_Read_contents:
  assumes "sc_invar L sc" "0 < len"
  obtains (over) sc' where "sc_contents L sc = []" "sc_Read L len sc = Ret (([], Some EOF), sc')" "sc_invar L sc'" "sc_contents L sc' = []"
  | (bytes) xs sc' where "xs \<noteq> []" "length xs \<le> len" "sc_Read L len sc = Ret ((xs, None), sc')" "sc_invar L sc'"
      "sc_contents L sc = xs @ sc_contents L sc'"
  using assms(1)
proof (cases rule: sc_ready)
  case nothing
  with assms(1) show thesis by (intro over) simp_all
next
  case (ready sc1 r)
  obtain xs err r' c' where R: "r_Read len r (scConn sc1) = ((xs, err), r', c')" by (metis prod.collapse)
  let ?sc = "sc1\<lparr>scConn := c', scR := Some r'\<rparr>"
  have rd: "sc_Read L len sc = Ret ((xs, err), ?sc)" using ready(4) [of len] R by simp
  note laws = sc_rd_laws [OF assms(1), of len] and e = r_Read_sealed [OF ready(2) assms(2) R]
  have "sc_rd L len sc = (xs, ?sc)" using rd by (simp add: sc_rd_def)
  with laws have l: "sc_contents L sc = xs @ sc_contents L ?sc" "length xs \<le> len" "sc_invar L ?sc" by simp_all
  show thesis
  proof (cases "sc_contents L sc = []")
    case True
    then have "xs = []" "sc_contents L ?sc = []" "err = Some EOF" using l(1) e ready(3) by simp_all
    with True rd l(3) show thesis by (intro over [of ?sc]) simp_all
  next
    case False
    then have "xs \<noteq> []" "err = None" using e ready(3) by simp_all
    with rd l show thesis by (intro bytes) simp_all
  qed
qed

lemma sc_ReadFull_refines:
  assumes "sc_invar L sc" "length acc \<le> n" "0 < n"
  shows "\<exists>res sc'. sc_ReadFull L n acc sc = Ret (res, sc') \<and> sc_invar L sc'
    \<and> (case ReadFull n (acc @ sc_contents L sc) of
         Inl e \<Rightarrow> res = Inl e \<and> sc_contents L sc' = []
       | Inr (xs, rest) \<Rightarrow> res = Inr xs \<and> sc_contents L sc' = rest)"
  using assms
proof (induction L n acc sc rule: sc_ReadFull.induct)
  case (1 L n acc sc)
  show ?case
  proof (cases "n \<le> length acc")
    case True
    with 1 show ?thesis by (simp add: sc_ReadFull.simps [of L n acc sc] ReadFull_def)
  next
    case more: False
    then have "0 < n - length acc" by simp
    with "1.prems"(1) show ?thesis
    proof (cases rule: sc_Read_contents)
      case (over sc')
      with more show ?thesis by (auto simp: sc_ReadFull.simps [of L n acc sc] ReadFull_def)
    next
      case (bytes xs sc')
      from "1.IH" [OF more bytes(3) refl refl refl bytes(4)] bytes(2,5) more "1.prems"(3)
      show ?thesis by (simp add: sc_ReadFull.simps [of L n acc sc] bytes(3))
    qed
  qed
qed

text \<open>Reading a block from the encrypted connection is reading it from the plain bytes.\<close>
lemma sc_NewBlock_refines:
  assumes "sc_invar L sc"
  shows "\<exists>res sc'. sc_NewBlockFromReader L sc = Ret (res, sc') \<and> sc_invar L sc'
    \<and> (case NewBlockFromReader (sc_contents L sc) of
         Inl e \<Rightarrow> res = Inl e \<and> sc_contents L sc' = []
       | Inr (blk, rest) \<Rightarrow> res = Inr blk \<and> sc_contents L sc' = rest)"
proof -
  have "0 < HeaderSize" by (simp add: HeaderSize_def)
  from sc_ReadFull_refines [OF assms _ this, of "[]"] obtain res sc1 where
    1: "sc_ReadFull L HeaderSize [] sc = Ret (res, sc1)" "sc_invar L sc1"
      "case ReadFull HeaderSize (sc_contents L sc) of Inl e \<Rightarrow> res = Inl e \<and> sc_contents L sc1 = []
       | Inr (xs, rest) \<Rightarrow> res = Inr xs \<and> sc_contents L sc1 = rest" by auto
  show ?thesis
  proof (cases "ReadFull HeaderSize (sc_contents L sc)")
    case (Inl e)
    with 1 show ?thesis by (simp add: sc_NewBlockFromReader_def NewBlockFromReader_def)
  next
    case (Inr p)
    then obtain hdr where h: "ReadFull HeaderSize (sc_contents L sc) = Inr (hdr, sc_contents L sc1)" "res = Inr hdr"
      using 1(3) by (cases p) auto
    let ?n = "unat (BlockLength (header_block hdr))"
    show ?thesis
    proof (cases "0 < ?n")
      case False
      then have "\<not> BlockLength (header_block hdr) > 0" by (simp add: word_gt_0_no unat_gt_0)
      with 1(1,2) h show ?thesis by (simp add: sc_NewBlockFromReader_def NewBlockFromReader_def)
    next
      case True
      then have pos: "BlockLength (header_block hdr) > 0" by (simp add: word_gt_0 unat_gt_0)
      from sc_ReadFull_refines [OF 1(2) _ True, of "[]"] obtain res2 sc2 where
        "sc_ReadFull L ?n [] sc1 = Ret (res2, sc2)" "sc_invar L sc2"
          "case ReadFull ?n (sc_contents L sc1) of Inl e \<Rightarrow> res2 = Inl e \<and> sc_contents L sc2 = []
           | Inr (xs, rest) \<Rightarrow> res2 = Inr xs \<and> sc_contents L sc2 = rest" by auto
      with 1(1) h pos show ?thesis
        by (auto simp: sc_NewBlockFromReader_def NewBlockFromReader_def Let_def split: sum.splits)
    qed
  qed
qed

section \<open>Simulation\<close>

text \<open>An open tunnel, in the plain view, stands for an encrypted connection.\<close>
definition tunnel_view :: "'blk crypto_lib \<Rightarrow> streamConn \<Rightarrow> Tunnel \<Rightarrow> bool" where
  "tunnel_view L sc t \<longleftrightarrow> sc_invar L sc \<and> \<not> tclosed (tConn t) \<and> tin (tConn t) = sc_contents L sc"

lemma read_block_simulated:
  assumes "tunnel_view L sc t" "read_block buf t = (res, t')"
  shows "\<exists>sc'. sc_NewBlockFromReader L sc = Ret (res, sc') \<and> tunnel_view L sc' t'"
  using sc_NewBlock_refines [of L sc] assms
  by (auto simp: tunnel_view_def read_block_def split: sum.splits)

text \<open>A number of block reads, in either view.\<close>
fun read_blocks :: "nat \<Rightarrow> Tunnel \<Rightarrow> block result list \<times> Tunnel" where
  "read_blocks 0 t = ([], t)"
| "read_blocks (Suc n) t =
     (let (r, t1) = read_block None t; (rs, t2) = read_blocks n t1 in (r # rs, t2))"

fun sc_read_blocks :: "'blk crypto_lib \<Rightarrow> nat \<Rightarrow> streamConn \<Rightarrow> (block result list \<times> streamConn) outcome" where
  "sc_read_blocks L 0 sc = Ret ([], sc)"
| "sc_read_blocks L (Suc n) sc =
     (case sc_NewBlockFromReader L sc of
        Panic \<Rightarrow> Panic
      | Ret (r, sc1) \<Rightarrow>
          (case sc_read_blocks L n sc1 of Panic \<Rightarrow> Panic | Ret (rs, sc2) \<Rightarrow> Ret (r # rs, sc2)))"

lemma read_blocks_simulated:
  assumes "tunnel_view L sc t"
  shows "\<exists>sc'. sc_read_blocks L n sc = Ret (fst (read_blocks n t), sc') \<and> tunnel_view L sc' (snd (read_blocks n t))"
  using assms
proof (induction n arbitrary: sc t)
  case (Suc n)
  obtain r t1 where r: "read_block None t = (r, t1)" by fastforce
  obtain sc1 where sc1: "sc_NewBlockFromReader L sc = Ret (r, sc1)" "tunnel_view L sc1 t1"
    using read_block_simulated [OF Suc.prems r] by blast
  from Suc.IH [OF sc1(2)] r sc1(1) show ?case by (auto simp: case_prod_beta)
qed simp

section \<open>Properties\<close>

text \<open>
  C7. Encryption is transparent to a tunnel: whatever one end writes, in whatever pieces, every
  write succeeds, and any number of blocks read at the other end from the encrypted bytes gives the
  same blocks and the same errors as reading them from the written bytes, which is how the tunnels are
  modelled above the encryption.
\<close>
theorem secure_tunnel_refines:
  assumes "good_cipher L ciph" "rnd (SaltSize ciph) = Inr salt" "length salt = SaltSize ciph" "bs \<noteq> []"
  shows "\<exists>tx rx. sc_Writes L rnd bs (fresh_conn ciph []) = Ret (map (\<lambda>b. (length b, None)) bs, tx)
    \<and> sc_read_blocks L n (fresh_conn ciph (slog (cout (scConn tx))))
        = Ret (fst (read_blocks n (newTunnelWithID tid (fresh_tun (concat bs)) pid)), rx)"
proof -
  from sc_Writes_fresh [of L ciph rnd salt bs] assms obtain a tx where
    w: "Encrypter L ciph salt = Ret (Inr a)" "aead_ok a"
      "sc_Writes L rnd bs (fresh_conn ciph []) = Ret (map (\<lambda>b. (length b, None)) bs, tx)"
      "slog (cout (scConn tx)) = salt @ seal_all a (replicate (NonceSize a) 0) (concat (map chunks bs))"
    by blast
  have "sc_invar L (fresh_conn ciph (slog (cout (scConn tx))))
      \<and> sc_contents L (fresh_conn ciph (slog (cout (scConn tx)))) = concat bs"
    using fresh_reader [OF assms(1,3) w(1,2) _ w(4)] concat_chunks [of bs] by simp
  then have "tunnel_view L (fresh_conn ciph (slog (cout (scConn tx)))) (newTunnelWithID tid (fresh_tun (concat bs)) pid)"
    by (simp add: tunnel_view_def newTunnelWithID_def fresh_tun_def)
  from read_blocks_simulated [OF this, of n] w(3) show ?thesis by blast
qed

text \<open>A block and the first byte of another one, written in two pieces; the second read finds the cut.\<close>
theorem secure_tunnel_refines_witness:
  "\<exists>tx rx. sc_Writes demo_lib (\<lambda>n. Inr (replicate n 9)) [wire (NewDisconnectBlock 0 7 1 ShutdownBoth), [2]] (fresh_conn demo_cipher [])
      = Ret ([(22, None), (1, None)], tx)
    \<and> sc_read_blocks demo_lib 2 (fresh_conn demo_cipher (slog (cout (scConn tx))))
        = Ret ([Inr (NewDisconnectBlock 0 7 1 ShutdownBoth), Inl ErrUnexpectedEOF], rx)"
proof -
  let ?b = "NewDisconnectBlock 0 7 1 ShutdownBoth"
  have b: "NewBlockFromReader (wire ?b @ [2]) = Inr (?b, [2])"
    using NewBlockFromReader_wire [of ?b "[2]"] wf_NewDisconnectBlock [of 0 7 1 ShutdownBoth]
    by (simp add: wf_block_def unpacked_def NewDisconnectBlock_def)
  have "NewBlockFromReader [2] = Inl ErrUnexpectedEOF"
    by (simp add: NewBlockFromReader_def ReadFull_def HeaderSize_def)
  with b have "fst (read_blocks 2 (newTunnelWithID 1 (fresh_tun (concat [wire ?b, [2]])) 5)) = [Inr ?b, Inl ErrUnexpectedEOF]"
    by (simp add: numeral_2_eq_2 read_block_def newTunnelWithID_def fresh_tun_def)
  moreover have "length (wire ?b) = 22"
    by (simp add: wire_header HeaderSize_def NewDisconnectBlock_def)
  ultimately show ?thesis
    using secure_tunnel_refines [OF demo_cipher_good, of "\<lambda>n. Inr (replicate n 9)" "replicate 32 9" "[wire ?b, [2]]" 2 1 5]
    by (simp add: demo_salt del: sc_Writes.simps sc_read_blocks.simps read_blocks.simps concat.simps)
qed

end
