(* ===== verification/TunnelPool.thy ===== *)
theory TunnelPool
  imports Tunnel
begin

text \<open>
  The set of tunnels to one peer and its managers, \<open>tunnel_pool/pool.go\<close> and
  \<open>tunnel_pool/manager.go\<close>. The client's manager keeps dialling until enough tunnels exist; the
  server's manager removes the peer when it has had no tunnel for some time. Operations that hold
  the pool's lock are atomic steps. Goroutines that the pool starts are steps of their own: the
  relays of a tunnel are in theory \<open>Tunnel\<close>, the pending runs of \<open>DecreaseNotify\<close> are counted.
\<close>

section \<open>Managers\<close>

text \<open>The countdowns a server manager has started, the newest first.\<close>
datatype countdown = Counting | Cancelled | Fired

record ServerManager =
  triggered :: bool
  countdowns :: "countdown list"
  peerRemoved :: bool

definition NewServerManager :: ServerManager where
  "NewServerManager = \<lparr>triggered = False, countdowns = [], peerRemoved = False\<rparr>"

text \<open>The stored cancel function belongs to the newest countdown; before the first one it is nil.\<close>
definition cancelCountDown :: "ServerManager \<Rightarrow> ServerManager" where
  "cancelCountDown sm =
     sm\<lparr>countdowns := (case countdowns sm of [] \<Rightarrow> []
                      | c # cs \<Rightarrow> (if c = Counting then Cancelled else c) # cs)\<rparr>"

definition server_Notify :: "nat \<Rightarrow> ServerManager \<Rightarrow> ServerManager" where
  "server_Notify n sm =
     (let sm1 = (if n = 0 \<and> \<not> triggered sm
                 then (let sm' = cancelCountDown (sm\<lparr>triggered := True\<rparr>)
                       in sm'\<lparr>countdowns := Counting # countdowns sm'\<rparr>)
                 else sm)
      in if n \<noteq> 0 \<and> triggered sm1 then cancelCountDown (sm1\<lparr>triggered := False\<rparr>) else sm1)"

text \<open>The goroutine of a countdown that has run out without being cancelled.\<close>
definition countdown_fires :: "nat \<Rightarrow> ServerManager \<Rightarrow> ServerManager" where
  "countdown_fires i sm =
     (if i < length (countdowns sm) \<and> countdowns sm ! i = Counting
      then sm\<lparr>countdowns := (countdowns sm)[i := Fired], peerRemoved := True\<rparr> else sm)"

record ClientManager =
  tunnelNum :: int
  endpoints :: "string list"
  cmPeerID :: u32
  retryFailed :: bool

definition NewClientManager :: "int \<Rightarrow> string list \<Rightarrow> u32 \<Rightarrow> bool \<Rightarrow> ClientManager" where
  "NewClientManager n eps pid retryfailed =
     \<lparr>tunnelNum = n, endpoints = eps, cmPeerID = pid, retryFailed = retryfailed\<rparr>"

datatype Manager = ClientM ClientManager | ServerM ServerManager

section \<open>The pool\<close>

record TunnelPool =
  tunnelMapping :: "u32 \<rightharpoonup> Tunnel"
  tpPeerID :: u32
  tpManager :: Manager
  tpSendQueue :: "block chan"
  tpSendRetryQueue :: "block chan"
  tpRecvQueue :: "block chan"
  tpCtxDone :: bool
  tpDecreases :: nat

record pool_config =
  tpSendQueueSize :: nat
  tpRecvQueueSize :: nat

definition NewTunnelPool :: "pool_config \<Rightarrow> u32 \<Rightarrow> Manager \<Rightarrow> TunnelPool" where
  "NewTunnelPool cfg pid m =
     \<lparr>tunnelMapping = Map.empty, tpPeerID = pid, tpManager = m,
      tpSendQueue = make_chan (tpSendQueueSize cfg), tpSendRetryQueue = make_chan (tpSendQueueSize cfg),
      tpRecvQueue = make_chan (tpRecvQueueSize cfg), tpCtxDone = False, tpDecreases = 1\<rparr>"

definition GetTunnelMappingLen :: "TunnelPool \<Rightarrow> nat" where
  "GetTunnelMappingLen tp = card (dom (tunnelMapping tp))"

text \<open>The client's \<open>Notify\<close> does nothing.\<close>
definition Notify :: "TunnelPool \<Rightarrow> TunnelPool" where
  "Notify tp =
     (case tpManager tp of
        ClientM cm \<Rightarrow> tp
      | ServerM sm \<Rightarrow> tp\<lparr>tpManager := ServerM (server_Notify (GetTunnelMappingLen tp) sm)\<rparr>)"

type_synonym pool_state = "TunnelPool \<times> stats_pair"

definition AddTunnel :: "Tunnel \<Rightarrow> pool_state \<Rightarrow> pool_state" where
  "AddTunnel t s =
     (let (tp, g) = s;
          tp1 = Notify (tp\<lparr>tunnelMapping := (tunnelMapping tp)(tunnelID t \<mapsto> t)\<rparr>)
      in (tp1, on_mode (IsClientMode t) IncrementTunnelCount g))"

definition RemoveTunnel :: "Tunnel \<Rightarrow> pool_state \<Rightarrow> pool_state" where
  "RemoveTunnel t s =
     (let (tp, g) = s in
      case tunnelMapping tp (tunnelID t) of
        None \<Rightarrow> (tp, g)
      | Some tunnel1 \<Rightarrow>
          (let tp1 = Notify (tp\<lparr>tunnelMapping := (tunnelMapping tp)(tunnelID tunnel1 := None)\<rparr>);
               tp2 = tp1\<lparr>tpDecreases := Suc (tpDecreases tp1)\<rparr>
           in (tp2, on_mode (IsClientMode tunnel1) DecrementTunnelCount g)))"

text \<open>Closing the queues a second time panics.\<close>
definition tp_Close :: "TunnelPool \<Rightarrow> TunnelPool outcome" where
  "tp_Close tp =
     (let tp1 = tp\<lparr>tpCtxDone := True, tunnelMapping := (\<lambda>k. map_option tcloseThenCancel (tunnelMapping tp k))\<rparr>
      in case chan_close (tpSendQueue tp1) of
           Panic \<Rightarrow> Panic
         | Ret sq \<Rightarrow>
             (case chan_close (tpSendRetryQueue tp1) of
                Panic \<Rightarrow> Panic
              | Ret rtq \<Rightarrow>
                  (case chan_close (tpRecvQueue tp1) of
                     Panic \<Rightarrow> Panic
                   | Ret rq \<Rightarrow> Ret (tp1\<lparr>tpSendQueue := sq, tpSendRetryQueue := rtq, tpRecvQueue := rq\<rparr>))))"

text \<open>What \<open>GetTunnelPoolInfo\<close> and \<open>GetTunnelConnsInfo\<close> report.\<close>
definition GetTunnelPoolInfo :: "TunnelPool \<Rightarrow> (string \<times> nat) list" where
  "GetTunnelPoolInfo tp =
     [(''peer_id'', unat (tpPeerID tp)), (''recv_queue_length'', length (chq (tpRecvQueue tp))),
      (''send_queue_length'', length (chq (tpSendQueue tp))),
      (''send_retry_queue_length'', length (chq (tpSendRetryQueue tp))),
      (''tunnel_count'', GetTunnelMappingLen tp)]"

section \<open>Dialling: ClientManager.DecreaseNotify\<close>

text \<open>
  One iteration of the loop is one event: the pool was cancelled, the dial failed, the handshake
  on the new connection failed, or a tunnel was made. The sleeps are logged as multiples of
  \<open>ErrorWaitSec\<close>.
\<close>
datatype dial_event = PoolDone | DialFails | HandshakeFails | DialOk Tunnel

record dn =
  dn_todo :: int
  dn_last :: string
  dn_weight :: "string \<Rightarrow> int"
  dn_eps :: "string list"
  dn_sleeps :: "int list"

definition cur_index :: "dn \<Rightarrow> nat" where
  "cur_index d = (if dn_eps d \<noteq> [] then nat ((dn_todo d - 1) mod int (length (dn_eps d))) else 0)"

definition cur_endpoint :: "dn \<Rightarrow> string" where
  "cur_endpoint d = (if dn_eps d \<noteq> [] then dn_eps d ! cur_index d else '''')"

text \<open>The endpoint that failed twice in a row changes places with its successor, cyclically.\<close>
definition swap_failed :: "nat \<Rightarrow> string \<Rightarrow> string list \<Rightarrow> string list" where
  "swap_failed i ep eps =
     (if i = length eps - 1 then (eps[i := eps ! 0])[0 := ep]
      else (eps[i := eps ! (i + 1)])[i + 1 := ep])"

definition dial_failed :: "ClientManager \<Rightarrow> dn \<Rightarrow> dn" where
  "dial_failed cm d =
     (let ep = cur_endpoint d;
          d1 = (if retryFailed cm
                then (if dn_weight d ep < 5 then d\<lparr>dn_weight := (dn_weight d)(ep := dn_weight d ep + 1)\<rparr> else d)
                else (let d' = (if dn_last d = ep then d\<lparr>dn_eps := swap_failed (cur_index d) ep (dn_eps d)\<rparr> else d)
                      in d'\<lparr>dn_weight := (dn_weight d')(ep := 1)\<rparr>))
      in d1\<lparr>dn_sleeps := dn_sleeps d1 @ [dn_weight d1 ep], dn_last := ep\<rparr>)"

text \<open>After a successful dial the last failure is forgotten if it was at this endpoint.\<close>
definition dial_succeeded :: "dn \<Rightarrow> dn" where
  "dial_succeeded d =
     (let ep = cur_endpoint d
      in if dn_last d = ep then d\<lparr>dn_last := '''', dn_weight := (dn_weight d)(ep := 0)\<rparr> else d)"

definition dn_step :: "ClientManager \<Rightarrow> dial_event \<Rightarrow> dn \<times> pool_state \<Rightarrow> dn \<times> pool_state" where
  "dn_step cm ev s =
     (let (d, ps) = s in
      if cur_endpoint d = '''' then (d, ps)
      else case ev of
        PoolDone \<Rightarrow> (d, ps)
      | DialFails \<Rightarrow> (dial_failed cm d, ps)
      | HandshakeFails \<Rightarrow> (let d1 = dial_succeeded d in (d1\<lparr>dn_sleeps := dn_sleeps d1 @ [1]\<rparr>, ps))
      | DialOk t \<Rightarrow> (let d1 = dial_succeeded d in (d1\<lparr>dn_todo := dn_todo d1 - 1\<rparr>, AddTunnel t ps)))"

text \<open>The loop; the first component says whether it has returned.\<close>
fun dn_loop :: "ClientManager \<Rightarrow> dial_event list \<Rightarrow> dn \<times> pool_state \<Rightarrow> bool \<times> dn \<times> pool_state" where
  "dn_loop cm [] s = (dn_todo (fst s) \<le> 0, s)"
| "dn_loop cm (ev # evs) s =
     (if dn_todo (fst s) \<le> 0 then (True, s)
      else if ev = PoolDone then (True, s)
      else dn_loop cm evs (dn_step cm ev s))"

definition dn_start :: "ClientManager \<Rightarrow> TunnelPool \<Rightarrow> dn" where
  "dn_start cm tp =
     \<lparr>dn_todo = tunnelNum cm - int (GetTunnelMappingLen tp), dn_last = '''', dn_weight = (\<lambda>_. 0),
      dn_eps = endpoints cm, dn_sleeps = []\<rparr>"

text \<open>A run of \<open>DecreaseNotify\<close>; the endpoint list is the manager's own, so its order is kept.\<close>
definition DecreaseNotify :: "dial_event list \<Rightarrow> pool_state \<Rightarrow> bool \<times> pool_state" where
  "DecreaseNotify evs s =
     (let (tp, g) = s in
      case tpManager tp of
        ServerM sm \<Rightarrow> (True, s)
      | ClientM cm \<Rightarrow>
          (let (ret, d, (tp1, g1)) = dn_loop cm evs (dn_start cm tp, (tp\<lparr>tpDecreases := tpDecreases tp - 1\<rparr>, g))
           in (ret, (tp1\<lparr>tpManager := ClientM (cm\<lparr>endpoints := dn_eps d\<rparr>)\<rparr>, g1))))"

section \<open>The pool as a registry\<close>

lemma Notify_frame [simp]:
  "tunnelMapping (Notify tp) = tunnelMapping tp" "tpDecreases (Notify tp) = tpDecreases tp"
  by (simp_all add: Notify_def split: Manager.split)

definition tp_invar :: "pool_state \<Rightarrow> bool" where
  "tp_invar s \<longleftrightarrow> (\<forall>k t. tunnelMapping (fst s) k = Some t \<longrightarrow> tunnelID t = k)"

text \<open>The tunnels counted in the statistics of both roles.\<close>
definition counted_tunnels :: "pool_state \<Rightarrow> 32 word" where
  "counted_tunnels s = tunnelCount (ClientStats (snd s)) + tunnelCount (ServerStats (snd s))"

lemma mapping_AddTunnel [simp]:
  "tunnelMapping (fst (AddTunnel t s)) = (tunnelMapping (fst s))(tunnelID t \<mapsto> t)"
  by (simp add: AddTunnel_def case_prod_beta Let_def)

lemma mapping_RemoveTunnel:
  "tp_invar s \<Longrightarrow> tunnelMapping (fst (RemoveTunnel t s)) = (tunnelMapping (fst s))(tunnelID t := None)"
  by (auto simp: RemoveTunnel_def tp_invar_def case_prod_beta Let_def fun_eq_iff split: option.split)

lemma counted_AddTunnel: "counted_tunnels (AddTunnel t s) = counted_tunnels s + 1"
  by (simp add: counted_tunnels_def AddTunnel_def case_prod_beta Let_def on_mode_def)

lemma counted_RemoveTunnel:
  "counted_tunnels (RemoveTunnel t s)
    = (if tunnelID t \<in> dom (tunnelMapping (fst s)) then counted_tunnels s - 1 else counted_tunnels s)"
  by (auto simp: counted_tunnels_def RemoveTunnel_def case_prod_beta Let_def on_mode_def split: option.split)

lemma tp_invar_AddTunnel: "tp_invar s \<Longrightarrow> tp_invar (AddTunnel t s)"
  by (simp add: tp_invar_def)

lemma tp_invar_RemoveTunnel: "tp_invar s \<Longrightarrow> tp_invar (RemoveTunnel t s)"
  using mapping_RemoveTunnel [of s t] by (auto simp: tp_invar_def split: if_splits)

interpretation tunnels: counted_registry tunnelID "\<lambda>s. tunnelMapping (fst s)" tp_invar AddTunnel RemoveTunnel
  counted_tunnels
  by unfold_locales
    (simp_all add: mapping_RemoveTunnel counted_AddTunnel counted_RemoveTunnel tp_invar_AddTunnel tp_invar_RemoveTunnel)

section \<open>Properties of dialling\<close>

lemma mset_swap_failed:
  assumes "i < length eps"
  shows "mset (swap_failed i (eps ! i) eps) = mset eps"
proof (cases "i = length eps - 1")
  case True
  have "0 < length eps" using assms by linarith
  then show ?thesis using mset_swap [OF _ assms, of 0] True by (simp add: swap_failed_def)
next
  case False
  then have "i + 1 < length eps" using assms by simp
  then show ?thesis using mset_swap [OF _ assms, of "i + 1"] False by (simp add: swap_failed_def)
qed

lemma cur_index_less: "dn_eps d \<noteq> [] \<Longrightarrow> cur_index d < length (dn_eps d)"
  by (simp add: cur_index_def nat_less_iff)

text \<open>What every iteration keeps: the endpoints up to their order, and the bounds of the weights.\<close>
definition dn_inv :: "string list \<Rightarrow> dn \<Rightarrow> bool" where
  "dn_inv eps d \<longleftrightarrow> mset (dn_eps d) = mset eps \<and> (\<forall>ep. 0 \<le> dn_weight d ep \<and> dn_weight d ep \<le> 5)
     \<and> (\<forall>w\<in>set (dn_sleeps d). 1 \<le> w \<and> w \<le> 5)"

lemma dn_inv_failed:
  assumes "dn_inv eps d"
  shows "dn_inv eps (dial_failed cm d)"
proof -
  have m: "mset (swap_failed (cur_index d) (cur_endpoint d) (dn_eps d)) = mset (dn_eps d)"
    using mset_swap_failed [OF cur_index_less] by (cases "dn_eps d = []") (simp_all add: cur_endpoint_def swap_failed_def)
  have w: "0 \<le> dn_weight d ep" "dn_weight d ep \<le> 5" for ep using assms by (simp_all add: dn_inv_def)
  then have "dn_weight d ep < 5 \<or> dn_weight d ep = 5" for ep by (metis order_le_less)
  with m w assms show ?thesis
    by (auto simp: dn_inv_def dial_failed_def Let_def)
qed

lemma dn_inv_succeeded: "dn_inv eps d \<Longrightarrow> dn_inv eps (dial_succeeded d)"
  by (simp add: dn_inv_def dial_succeeded_def Let_def)

lemma dn_inv_frame:
  "dn_inv eps d \<Longrightarrow> dn_inv eps (d\<lparr>dn_todo := n\<rparr>)"
  "dn_inv eps d \<Longrightarrow> dn_inv eps (d\<lparr>dn_sleeps := dn_sleeps d @ [1]\<rparr>)"
  by (auto simp: dn_inv_def)

lemma dn_inv_step:
  assumes "dn_inv eps (fst s)"
  shows "dn_inv eps (fst (dn_step cm ev s))"
proof -
  obtain d ps where s: "s = (d, ps)" by (cases s)
  then have "dn_inv eps d" using assms by simp
  then show ?thesis
    by (cases ev) (simp_all add: s dn_step_def Let_def dn_inv_failed dn_inv_frame dn_inv_succeeded)
qed

lemma dn_inv_loop: "dn_inv eps (fst s) \<Longrightarrow> dn_inv eps (fst (snd (dn_loop cm evs s)))"
  by (induction evs arbitrary: s) (simp_all add: dn_inv_step)

text \<open>The tunnels that a sequence of events offers.\<close>
fun dialled :: "dial_event list \<Rightarrow> Tunnel list" where
  "dialled [] = []"
| "dialled (DialOk t # evs) = t # dialled evs"
| "dialled (_ # evs) = dialled evs"

lemma dn_todo_simps [simp]:
  "dn_todo (dial_failed cm d) = dn_todo d" "dn_todo (dial_succeeded d) = dn_todo d"
  by (simp_all add: dial_failed_def dial_succeeded_def Let_def)

lemma dn_loop_fills:
  assumes "dn_inv eps (fst s)" "eps \<noteq> []" "'''' \<notin> set eps" "PoolDone \<notin> set evs"
    and "dn_todo (fst s) \<le> int (length (dialled evs))" "distinct (map tunnelID (dialled evs))"
    and "set (map tunnelID (dialled evs)) \<inter> dom (tunnelMapping (fst (snd s))) = {}"
  shows "fst (dn_loop cm evs s)
    \<and> int (GetTunnelMappingLen (fst (snd (snd (dn_loop cm evs s)))))
      = int (GetTunnelMappingLen (fst (snd s))) + max 0 (dn_todo (fst s))"
  using assms
proof (induction evs arbitrary: s)
  case (Cons ev evs)
  obtain d ps where s: "s = (d, ps)" by (cases s)
  show ?case
  proof (cases "dn_todo d \<le> 0")
    case False
    have "mset (dn_eps d) = mset eps" using Cons.prems(1) s by (simp add: dn_inv_def)
    then have eps: "dn_eps d \<noteq> []" "'''' \<notin> set (dn_eps d)"
      using Cons.prems(2,3) by (auto dest: mset_eq_setD)
    then have ep: "cur_endpoint d \<noteq> ''''"
      using nth_mem [OF cur_index_less [OF eps(1)]] by (auto simp: cur_endpoint_def)
    have inv: "dn_inv eps (fst (dn_step cm ev s))" using Cons.prems(1) by (rule dn_inv_step)
    show ?thesis
    proof (cases ev)
      case (DialOk t)
      have "dn_step cm ev s = ((dial_succeeded d)\<lparr>dn_todo := dn_todo d - 1\<rparr>, AddTunnel t ps)"
        using ep s DialOk by (simp add: dn_step_def Let_def)
      with Cons.IH [OF inv] Cons.prems False s DialOk show ?thesis
        by (auto simp: GetTunnelMappingLen_def)
    qed (use Cons.IH [OF inv] Cons.prems False s ep in \<open>auto simp: dn_step_def Let_def\<close>)
  qed (simp add: s)
qed simp

section \<open>Properties of the server manager\<close>

text \<open>The steps of a server's pool: tunnels come and go, countdowns run out.\<close>
inductive sp_step :: "pool_state \<Rightarrow> pool_state \<Rightarrow> bool" where
  sp_add: "sp_step s (AddTunnel t s)"
| sp_remove: "sp_step s (RemoveTunnel t s)"
| sp_fire: "tpManager tp = ServerM sm \<Longrightarrow> sp_step (tp, g) (tp\<lparr>tpManager := ServerM (countdown_fires i sm)\<rparr>, g)"

inductive_cases sp_stepE: "sp_step s t"

definition sp_init :: "pool_state \<Rightarrow> bool" where
  "sp_init s \<longleftrightarrow> (\<exists>cfg pid g. s = (NewTunnelPool cfg pid (ServerM NewServerManager), g))"

text \<open>
  At most the newest countdown runs, and only while the pool is empty and the manager triggered;
  a triggered manager is one whose pool is empty.
\<close>
definition sm_inv :: "nat \<Rightarrow> ServerManager \<Rightarrow> bool" where
  "sm_inv n sm \<longleftrightarrow> (\<forall>i<length (countdowns sm). countdowns sm ! i = Counting \<longrightarrow> i = 0 \<and> triggered sm)
     \<and> (triggered sm \<longrightarrow> n = 0)"

definition sp_inv :: "pool_state \<Rightarrow> bool" where
  "sp_inv s \<longleftrightarrow> tp_invar s
     \<and> (\<exists>sm. tpManager (fst s) = ServerM sm \<and> sm_inv (GetTunnelMappingLen (fst s)) sm)"

lemma cancelCountDown_stops:
  assumes "\<forall>i<length (countdowns sm). countdowns sm ! i = Counting \<longrightarrow> i = 0"
  shows "\<forall>i<length (countdowns (cancelCountDown sm)). countdowns (cancelCountDown sm) ! i \<noteq> Counting"
  using assms by (cases "countdowns sm") (auto simp: cancelCountDown_def nth_Cons split: nat.splits)

lemma triggered_cancelCountDown [simp]: "triggered (cancelCountDown sm) = triggered sm"
  by (simp add: cancelCountDown_def)

lemma sm_inv_Notify:
  assumes "\<forall>i<length (countdowns sm). countdowns sm ! i = Counting \<longrightarrow> i = 0 \<and> triggered sm"
  shows "sm_inv n (server_Notify n sm)"
proof -
  have run: "\<forall>i<length (countdowns (sm\<lparr>triggered := b\<rparr>)). countdowns (sm\<lparr>triggered := b\<rparr>) ! i = Counting \<longrightarrow> i = 0" for b
    using assms by simp
  show ?thesis
  proof (cases "n = 0")
    case True
    show ?thesis
    proof (cases "triggered sm")
      case False
      let ?sm = "cancelCountDown (sm\<lparr>triggered := True\<rparr>)"
      have "server_Notify n sm = ?sm\<lparr>countdowns := Counting # countdowns ?sm\<rparr>"
        using True False by (simp add: server_Notify_def Let_def)
      then show ?thesis
        using cancelCountDown_stops [OF run, of True] True by (auto simp: sm_inv_def nth_Cons split: nat.splits)
    qed (use True assms in \<open>simp add: server_Notify_def sm_inv_def\<close>)
  next
    case False
    show ?thesis
    proof (cases "triggered sm")
      case True
      then show ?thesis
        using False cancelCountDown_stops [OF run, of False] by (auto simp: server_Notify_def sm_inv_def)
    qed (use False assms in \<open>simp add: server_Notify_def sm_inv_def\<close>)
  qed
qed

lemma sp_inv_Notify:
  assumes "tpManager tp = ServerM sm" "tp_invar (tp, g)"
    and "\<forall>i<length (countdowns sm). countdowns sm ! i = Counting \<longrightarrow> i = 0 \<and> triggered sm"
  shows "sp_inv (Notify tp, g')"
  using sm_inv_Notify [OF assms(3)] assms(1,2)
  by (simp add: sp_inv_def Notify_def tp_invar_def) (simp add: GetTunnelMappingLen_def)

lemma sp_inv_frame: "sp_inv (tp, g) \<Longrightarrow> sp_inv (tp\<lparr>tpDecreases := n\<rparr>, g')"
  by (simp add: sp_inv_def tp_invar_def GetTunnelMappingLen_def)

lemma sp_inv_init: "sp_init s \<Longrightarrow> sp_inv s"
  by (auto simp: sp_init_def sp_inv_def NewTunnelPool_def tp_invar_def NewServerManager_def sm_inv_def)

lemma sp_inv_step:
  assumes inv: "sp_inv s" and st: "sp_step s s'"
  shows "sp_inv s'"
  using st
proof (cases rule: sp_step.cases)
  case (sp_add t)
  obtain tp g where s: "s = (tp, g)" by (cases s)
  have "tp_invar (tp\<lparr>tunnelMapping := (tunnelMapping tp)(tunnelID t \<mapsto> t)\<rparr>, g)"
    using inv s by (simp add: sp_inv_def tp_invar_def)
  with inv s sp_add show ?thesis
    by (auto simp: sp_inv_def [of "(tp, g)"] sm_inv_def AddTunnel_def Let_def intro!: sp_inv_Notify)
next
  case (sp_remove t)
  obtain tp g where s: "s = (tp, g)" by (cases s)
  show ?thesis
  proof (cases "tunnelMapping tp (tunnelID t)")
    case (Some t1)
    let ?tp = "tp\<lparr>tunnelMapping := (tunnelMapping tp)(tunnelID t1 := None)\<rparr>"
    have "tp_invar (?tp, g)" using inv s by (simp add: sp_inv_def tp_invar_def)
    with inv s have "sp_inv (Notify ?tp, g)"
      by (auto simp: sp_inv_def [of "(tp, g)"] sm_inv_def intro!: sp_inv_Notify)
    then have "sp_inv ((Notify ?tp)\<lparr>tpDecreases := n\<rparr>, g')" for n g'
      by (rule sp_inv_frame)
    with Some s sp_remove show ?thesis by (simp add: RemoveTunnel_def Let_def)
  qed (use inv s sp_remove in \<open>simp add: RemoveTunnel_def\<close>)
next
  case (sp_fire tp sm g i)
  have "sm_inv n (countdown_fires i sm)" if "sm_inv n sm" for n
    using that by (simp add: sm_inv_def countdown_fires_def nth_list_update)
  with inv sp_fire show ?thesis by (simp add: sp_inv_def tp_invar_def GetTunnelMappingLen_def)
qed

interpretation server_pool: invariant_system sp_init sp_step sp_inv
  by unfold_locales (rule sp_inv_init, assumption, rule sp_inv_step)

section \<open>Properties\<close>

text \<open>
  C22. A server never counts down for a peer that has tunnels: in every reachable state at most the
  newest countdown is running, and only while the pool is empty, so a countdown that runs out
  removes a peer without tunnels; and when the last tunnel leaves, a countdown is started.
\<close>
theorem server_countdown_safe:
  assumes "reach sp_init sp_step (tp, g)"
  shows "\<exists>sm. tpManager tp = ServerM sm
    \<and> (\<forall>i<length (countdowns sm). countdowns sm ! i = Counting \<longrightarrow> i = 0 \<and> tunnelMapping tp = Map.empty)
    \<and> (tunnelMapping tp \<noteq> Map.empty \<and> tunnelMapping (fst (RemoveTunnel t (tp, g))) = Map.empty \<longrightarrow>
         (\<exists>sm' cs. tpManager (fst (RemoveTunnel t (tp, g))) = ServerM sm' \<and> countdowns sm' = Counting # cs))"
proof -
  have "sp_inv (tp, g)" using assms by (rule server_pool.reach_I)
  then obtain sm where sm: "tpManager tp = ServerM sm" "sm_inv (GetTunnelMappingLen tp) sm" "tp_invar (tp, g)"
    by (auto simp: sp_inv_def)
  have empty: "(GetTunnelMappingLen q = 0) = (tunnelMapping q = Map.empty)" for q
    by (simp add: GetTunnelMappingLen_def)
  have "\<exists>sm' cs. tpManager (fst (RemoveTunnel t (tp, g))) = ServerM sm' \<and> countdowns sm' = Counting # cs"
    if ne: "tunnelMapping tp \<noteq> Map.empty" and e: "tunnelMapping (fst (RemoveTunnel t (tp, g))) = Map.empty"
  proof -
    obtain t1 where t1: "tunnelMapping tp (tunnelID t) = Some t1"
      using ne e by (cases "tunnelMapping tp (tunnelID t)") (auto simp: RemoveTunnel_def)
    let ?tp = "tp\<lparr>tunnelMapping := (tunnelMapping tp)(tunnelID t1 := None)\<rparr>"
    have "GetTunnelMappingLen ?tp = 0" using e t1 by (simp add: RemoveTunnel_def Let_def empty)
    moreover have "\<not> triggered sm" using sm(2) ne by (simp add: sm_inv_def empty)
    ultimately show ?thesis
      using t1 sm(1) by (auto simp: RemoveTunnel_def Let_def Notify_def server_Notify_def)
  qed
  with sm show ?thesis by (auto simp: sm_inv_def empty)
qed

text \<open>A pool state in which one tunnel has come and gone.\<close>
definition demo_tunnel :: "u32 \<Rightarrow> Tunnel" where
  "demo_tunnel tid = newTunnelWithID tid (fresh_tun []) 5"

definition demo_pool :: "Manager \<Rightarrow> TunnelPool" where
  "demo_pool m = NewTunnelPool \<lparr>tpSendQueueSize = 64, tpRecvQueueSize = 64\<rparr> 5 m"

lemma demo_reach:
  "reach sp_init sp_step (AddTunnel (demo_tunnel 3)
     (demo_pool (ServerM NewServerManager), InitStats 10))"
proof (rule reach.reach_step)
  show "reach sp_init sp_step
      (demo_pool (ServerM NewServerManager), InitStats 10)"
    by (rule reach.reach_init) (auto simp: sp_init_def demo_pool_def)
qed (rule sp_add)

theorem server_countdown_safe_witness:
  "\<exists>sm cs. tpManager (fst (RemoveTunnel (demo_tunnel 3) (AddTunnel (demo_tunnel 3)
     (demo_pool (ServerM NewServerManager), InitStats 10))))
     = ServerM sm \<and> countdowns sm = Counting # cs"
proof -
  let ?s = "AddTunnel (demo_tunnel 3)
     (demo_pool (ServerM NewServerManager), InitStats 10)"
  have r: "reach sp_init sp_step (fst ?s, snd ?s)" using demo_reach by simp
  have inv: "tp_invar ?s" by (intro tunnels.invar_add) (simp add: tp_invar_def demo_pool_def NewTunnelPool_def)
  have "tunnelMapping (fst (RemoveTunnel (demo_tunnel 3) ?s)) = Map.empty"
    using mapping_RemoveTunnel [OF inv, of "demo_tunnel 3"] by (simp add: demo_pool_def NewTunnelPool_def fun_eq_iff)
  then show ?thesis
    using server_countdown_safe [OF r, of "demo_tunnel 3"] by auto
qed

text \<open>
  C23. The client reaches its number of tunnels: if the endpoints are named, the pool is not
  cancelled and enough dials succeed among any number of failures, a run of \<open>DecreaseNotify\<close>
  returns, the pool then has the configured number of tunnels (or keeps what it had, if that was
  more), and the endpoint list is the old one up to its order.
\<close>
theorem DecreaseNotify_fills:
  assumes "tpManager tp = ClientM cm" "endpoints cm \<noteq> []" "'''' \<notin> set (endpoints cm)" "PoolDone \<notin> set evs"
    and "tunnelNum cm - int (GetTunnelMappingLen tp) \<le> int (length (dialled evs))"
    and "distinct (map tunnelID (dialled evs))"
    and "set (map tunnelID (dialled evs)) \<inter> dom (tunnelMapping tp) = {}"
  shows "\<exists>tp' g' cm'. DecreaseNotify evs (tp, g) = (True, tp', g')
    \<and> int (GetTunnelMappingLen tp') = max (tunnelNum cm) (int (GetTunnelMappingLen tp))
    \<and> tpManager tp' = ClientM cm' \<and> mset (endpoints cm') = mset (endpoints cm)"
proof -
  let ?s = "(dn_start cm tp, (tp\<lparr>tpDecreases := tpDecreases tp - 1\<rparr>, g))"
  have inv: "dn_inv (endpoints cm) (fst ?s)" by (simp add: dn_inv_def dn_start_def)
  have len: "GetTunnelMappingLen (tp\<lparr>tpDecreases := n\<rparr>) = GetTunnelMappingLen tp" for n
    by (simp add: GetTunnelMappingLen_def)
  obtain r d tp1 g1 where run: "dn_loop cm evs ?s = (r, d, tp1, g1)" by (metis prod.collapse)
  have "dn_todo (fst ?s) \<le> int (length (dialled evs))"
    and "set (map tunnelID (dialled evs)) \<inter> dom (tunnelMapping (fst (snd ?s))) = {}"
    using assms(5,7) by (simp_all add: dn_start_def)
  from dn_loop_fills [OF inv assms(2,3,4) this(1) assms(6) this(2), of cm] run
  have "r" "int (GetTunnelMappingLen tp1) = max (tunnelNum cm) (int (GetTunnelMappingLen tp))"
    by (simp_all add: dn_start_def len)
  moreover have "mset (dn_eps d) = mset (endpoints cm)"
    using dn_inv_loop [OF inv, of cm evs] run by (simp add: dn_inv_def)
  ultimately show ?thesis
    using run assms(1) by (simp add: DecreaseNotify_def) (simp add: GetTunnelMappingLen_def)
qed

theorem DecreaseNotify_fills_witness:
  "\<exists>tp' g' cm'. DecreaseNotify [DialFails, DialOk (demo_tunnel 1), HandshakeFails, DialOk (demo_tunnel 2)]
      (demo_pool (ClientM (NewClientManager 2 [''a:1'', ''b:2''] 5 False)), InitStats 10) = (True, tp', g')
    \<and> int (GetTunnelMappingLen tp') = 2 \<and> tpManager tp' = ClientM cm'"
proof -
  let ?cm = "NewClientManager 2 [''a:1'', ''b:2''] 5 False"
  let ?tp = "demo_pool (ClientM ?cm)"
  have "tpManager ?tp = ClientM ?cm" "GetTunnelMappingLen ?tp = 0" "dom (tunnelMapping ?tp) = {}"
    by (simp_all add: demo_pool_def NewTunnelPool_def GetTunnelMappingLen_def)
  then show ?thesis
    using DecreaseNotify_fills [of ?tp ?cm "[DialFails, DialOk (demo_tunnel 1), HandshakeFails, DialOk (demo_tunnel 2)]"
        "InitStats 10"]
    by (auto simp: NewClientManager_def demo_tunnel_def newTunnelWithID_def)
qed

text \<open>
  Back-off of the dialling loop: at every moment of a run the waiting times are between one and
  five times the configured pause, the weight of every endpoint is between zero and five, and
  the endpoint list is a permutation of the configured one.
\<close>
lemma dialling_backoff:
  "let d = fst (snd (dn_loop cm evs (dn_start cm tp, s))) in
     mset (dn_eps d) = mset (endpoints cm)
   \<and> (\<forall>ep. 0 \<le> dn_weight d ep \<and> dn_weight d ep \<le> 5) \<and> list_all (\<lambda>w. 1 \<le> w \<and> w \<le> 5) (dn_sleeps d)"
proof -
  have "dn_inv (endpoints cm) (fst (dn_start cm tp, s))" by (simp add: dn_inv_def dn_start_def)
  from dn_inv_loop [OF this, of cm evs] show ?thesis by (simp add: dn_inv_def Let_def list_all_iff)
qed

text \<open>
  With no endpoint, or only empty ones, the dialling loop does nothing but run: no number of
  iterations ends it, and the state never changes, until the pool is cancelled.
\<close>
lemma DecreaseNotify_spins:
  assumes "set (endpoints cm) \<subseteq> {''''}" "PoolDone \<notin> set evs" "int (GetTunnelMappingLen tp) < tunnelNum cm"
  shows "dn_loop cm evs (dn_start cm tp, s) = (False, dn_start cm tp, s)"
proof -
  have "cur_endpoint (dn_start cm tp) = ''''"
    using assms(1) nth_mem [OF cur_index_less, of "dn_start cm tp"]
    by (auto simp: cur_endpoint_def dn_start_def)
  then have "dn_step cm ev (dn_start cm tp, s) = (dn_start cm tp, s)" for ev
    by (simp add: dn_step_def)
  moreover have "\<not> dn_todo (dn_start cm tp) \<le> 0" using assms(3) by (simp add: dn_start_def)
  ultimately show ?thesis using assms(2) by (induction evs) auto
qed

theorem DecreaseNotify_spins_witness:
  "fst (dn_loop (NewClientManager 4 [] 5 True) (replicate 1000 (DialOk (demo_tunnel 1)))
     (dn_start (NewClientManager 4 [] 5 True) (demo_pool (ClientM (NewClientManager 4 [] 5 True))),
      (demo_pool (ClientM (NewClientManager 4 [] 5 True)), InitStats 10))) = False"
  using DecreaseNotify_spins [of "NewClientManager 4 [] 5 True" "replicate 1000 (DialOk (demo_tunnel 1))"
      "demo_pool (ClientM (NewClientManager 4 [] 5 True))"]
  by (simp add: NewClientManager_def demo_pool_def NewTunnelPool_def GetTunnelMappingLen_def)

text \<open>
  The tunnel counters of the statistics equal the number of tunnels in the pool after any
  additions and removals, as long as no tunnel is added under an ID that is in use; removing a
  tunnel twice changes nothing.
\<close>
lemma tunnel_count_correct:
  assumes "fresh_adds tunnelID es {}"
  shows "counted_tunnels (reg_run AddTunnel RemoveTunnel es (NewTunnelPool cfg pid m, InitStats n))
    = of_nat (GetTunnelMappingLen (fst (reg_run AddTunnel RemoveTunnel es (NewTunnelPool cfg pid m, InitStats n))))"
proof -
  let ?s = "(NewTunnelPool cfg pid m, InitStats n)"
  have "tp_invar ?s" "dom (tunnelMapping (fst ?s)) = {}" "counted_tunnels ?s = 0"
    by (simp_all add: tp_invar_def NewTunnelPool_def counted_tunnels_def InitStats_def NewStats_def)
  with tunnels.count_run [of ?s es] assms show ?thesis by (simp add: GetTunnelMappingLen_def)
qed

lemma tunnel_count_correct_witness:
  "counted_tunnels (reg_run AddTunnel RemoveTunnel
      [RegAdd (demo_tunnel 1), RegAdd (demo_tunnel 2), RegRemove (demo_tunnel 1), RegRemove (demo_tunnel 1)]
      (demo_pool (ServerM NewServerManager), InitStats 10)) = 1"
proof -
  let ?es = "[RegAdd (demo_tunnel 1), RegAdd (demo_tunnel 2), RegRemove (demo_tunnel 1), RegRemove (demo_tunnel 1)]"
  let ?s = "(demo_pool (ServerM NewServerManager), InitStats 10)"
  have inv: "tp_invar ?s" by (simp add: tp_invar_def demo_pool_def NewTunnelPool_def)
  have "tunnelMapping (fst (reg_run AddTunnel RemoveTunnel ?es ?s)) = [2 \<mapsto> demo_tunnel 2]"
    by (simp add: mapping_RemoveTunnel tp_invar_AddTunnel tp_invar_RemoveTunnel inv)
      (simp add: demo_pool_def NewTunnelPool_def demo_tunnel_def newTunnelWithID_def fun_eq_iff)
  then have "GetTunnelMappingLen (fst (reg_run AddTunnel RemoveTunnel ?es ?s)) = 1"
    by (simp add: GetTunnelMappingLen_def)
  moreover have "fresh_adds tunnelID ?es {}" by (simp add: demo_tunnel_def newTunnelWithID_def)
  ultimately show ?thesis using tunnel_count_correct [of ?es] by (simp add: demo_pool_def)
qed

end
