(* ===== verification/Peer.thy ===== *)
theory Peer
  imports TunnelPool ConnectionPool
begin

text \<open>
  Peers and the server that accepts tunnels for them: \<open>peer/peer.go\<close>, \<open>peer/client.go\<close>,
  \<open>peer/server.go\<close>, \<open>peer/peer_group.go\<close> and \<open>server/server.go\<close>. A peer owns a tunnel pool and
  a connection pool. In the source the pools of a \<open>Peer\<close> are copies of the structs that the
  goroutines use; the copies share their maps and channels, which is all that is modelled here, so
  they are one value. Random IDs are arguments.
\<close>

section \<open>Peers\<close>

record Peer =
  prPeerID :: u32
  prConnectionPool :: ConnectionPool
  prTunnelPool :: TunnelPool
  prCtxDone :: bool

definition newClientPeerWithID :: "pool_config \<Rightarrow> u32 \<Rightarrow> int \<Rightarrow> string list \<Rightarrow> bool \<Rightarrow> Peer" where
  "newClientPeerWithID cfg pid num eps retryfailed =
     \<lparr>prPeerID = pid, prConnectionPool = NewConnectionPool False,
      prTunnelPool = NewTunnelPool cfg pid (ClientM (NewClientManager num eps pid retryfailed)),
      prCtxDone = False\<rparr>"

definition NewServerPeerWithID :: "pool_config \<Rightarrow> u32 \<Rightarrow> Peer" where
  "NewServerPeerWithID cfg pid =
     \<lparr>prPeerID = pid, prConnectionPool = NewConnectionPool True,
      prTunnelPool = NewTunnelPool cfg pid (ServerM NewServerManager), prCtxDone = False\<rparr>"

text \<open>\<open>initRand\<close> reads eight random bytes; a failure makes the constructors panic.\<close>
definition initRand :: "byte list result \<Rightarrow> (i64 outcome) result" where
  "initRand rnd = (case rnd of Inl e \<Rightarrow> Inl e | Inr seedBytes \<Rightarrow> Inr (Uint64 seedBytes))"

definition NewClientPeer :: "byte list result \<Rightarrow> pool_config \<Rightarrow> u32 \<Rightarrow> int \<Rightarrow> string list \<Rightarrow> bool \<Rightarrow> Peer outcome" where
  "NewClientPeer rnd cfg pid num eps retryfailed =
     (case initRand rnd of
        Inl e \<Rightarrow> Panic
      | Inr Panic \<Rightarrow> Panic
      | Inr (Ret seed) \<Rightarrow> Ret (newClientPeerWithID cfg pid num eps retryfailed))"

text \<open>The pool holds a pointer to the connection, so it sees the connect block being sent.\<close>
definition Dial :: "conn_config \<Rightarrow> i64 \<Rightarrow> u32 \<Rightarrow> byte list \<Rightarrow> Peer \<Rightarrow> stats_pair \<Rightarrow> InboundConnection \<times> Peer \<times> stats_pair" where
  "Dial cfg now cid address p g =
     (let (c, (cp, g1)) = NewPooledInboundConnection cfg now cid (prConnectionPool p, g);
          c1 = SendConnect now address c
      in (c1, p\<lparr>prConnectionPool := cp\<lparr>connectionMapping := (connectionMapping cp)(cid \<mapsto> PIn c1)\<rparr>\<rparr>, g1))"

definition Peer_Stop :: "Peer \<Rightarrow> Peer outcome" where
  "Peer_Stop p =
     (case tp_Close (prTunnelPool p) of
        Panic \<Rightarrow> Panic
      | Ret tp \<Rightarrow> Ret (p\<lparr>prCtxDone := True, prTunnelPool := tp,
                       prConnectionPool := stopRelay (prConnectionPool p)\<rparr>))"

definition GetConnectionPool :: "Peer \<Rightarrow> ConnectionPool" where
  [simp]: "GetConnectionPool p = prConnectionPool p"

definition GetTunnelPool :: "Peer \<Rightarrow> TunnelPool" where
  [simp]: "GetTunnelPool p = prTunnelPool p"

section \<open>The peer group\<close>

record PeerGroup =
  peerMapping :: "u32 \<rightharpoonup> Peer"

definition NewPeerGroup :: "byte list result \<Rightarrow> PeerGroup outcome" where
  "NewPeerGroup rnd =
     (case initRand rnd of
        Inl e \<Rightarrow> Panic | Inr Panic \<Rightarrow> Panic | Inr (Ret seed) \<Rightarrow> Ret \<lparr>peerMapping = Map.empty\<rparr>)"

definition storePeer :: "Peer \<Rightarrow> PeerGroup \<Rightarrow> PeerGroup" where
  "storePeer p pg = pg\<lparr>peerMapping := (peerMapping pg)(prPeerID p \<mapsto> p)\<rparr>"

definition RemovePeer :: "u32 \<Rightarrow> PeerGroup \<Rightarrow> PeerGroup" where
  "RemovePeer pid pg = pg\<lparr>peerMapping := (peerMapping pg)(pid := None)\<rparr>"

text \<open>Add a tunnel to its peer, which is created when it does not exist.\<close>
definition pg_AddTunnel :: "pool_config \<Rightarrow> Tunnel \<Rightarrow> PeerGroup \<times> stats_pair \<Rightarrow> PeerGroup \<times> stats_pair" where
  "pg_AddTunnel cfg t s =
     (let (pg, g) = s; pid = GetPeerID t;
          p = (case peerMapping pg pid of Some p \<Rightarrow> p | None \<Rightarrow> NewServerPeerWithID cfg pid);
          (tp, g1) = AddTunnel t (prTunnelPool p, g)
      in (storePeer (p\<lparr>prTunnelPool := tp\<rparr>) pg, g1))"

definition AddTunnelFromConn ::
  "pool_config \<Rightarrow> u32 \<Rightarrow> tun_conn \<Rightarrow> PeerGroup \<times> stats_pair \<Rightarrow> go_error option \<times> PeerGroup \<times> stats_pair" where
  "AddTunnelFromConn cfg tid conn s =
     (case NewPassiveTunnel tid conn of
        (Some e, _) \<Rightarrow> (Some e, s)
      | (None, t) \<Rightarrow> (None, pg_AddTunnel cfg t s))"

text \<open>Stopping the peers in the order in which the map is iterated.\<close>
fun pg_Stop :: "u32 list \<Rightarrow> PeerGroup \<Rightarrow> PeerGroup outcome" where
  "pg_Stop [] pg = Ret pg"
| "pg_Stop (pid # pids) pg =
     (case peerMapping pg pid of
        None \<Rightarrow> pg_Stop pids pg
      | Some p \<Rightarrow>
          (case Peer_Stop p of
             Panic \<Rightarrow> Panic
           | Ret p' \<Rightarrow> pg_Stop pids (pg\<lparr>peerMapping := (peerMapping pg)(pid \<mapsto> p')\<rparr>)))"

section \<open>The server\<close>

text \<open>What \<open>Accept\<close> gives: an error, or a connection with the random ID its tunnel will get.\<close>
datatype accept_event = AcceptFails | Accepts u32 tun_conn

fun ServeThread_loop :: "pool_config \<Rightarrow> accept_event list \<Rightarrow> PeerGroup \<times> stats_pair \<Rightarrow> PeerGroup \<times> stats_pair" where
  "ServeThread_loop cfg [] s = s"
| "ServeThread_loop cfg (AcceptFails # es) s = ServeThread_loop cfg es s"
| "ServeThread_loop cfg (Accepts tid conn # es) s =
     ServeThread_loop cfg es (snd (AddTunnelFromConn cfg tid conn s))"

definition ServeThread :: "pool_config \<Rightarrow> go_error option \<Rightarrow> accept_event list \<Rightarrow> PeerGroup \<times> stats_pair
    \<Rightarrow> go_error option \<times> PeerGroup \<times> stats_pair" where
  "ServeThread cfg listen es s =
     (case listen of Some e \<Rightarrow> (Some e, s) | None \<Rightarrow> (None, ServeThread_loop cfg es s))"

section \<open>The group as a registry\<close>

definition pg_invar :: "PeerGroup \<Rightarrow> bool" where
  "pg_invar pg \<longleftrightarrow> (\<forall>k p. peerMapping pg k = Some p \<longrightarrow> prPeerID p = k)"

interpretation peers: registry prPeerID peerMapping pg_invar storePeer "\<lambda>p. RemovePeer (prPeerID p)"
  by unfold_locales (auto simp: storePeer_def RemovePeer_def pg_invar_def split: if_splits)

lemma AddTunnel_fst:
  "AddTunnel t (tp, g) = (tp', g') \<Longrightarrow> tunnelMapping tp' = (tunnelMapping tp)(tunnelID t \<mapsto> t)"
  using mapping_AddTunnel [of t "(tp, g)"] by simp

lemma prPeerID_New [simp]: "prPeerID (NewServerPeerWithID cfg pid) = pid"
  by (simp add: NewServerPeerWithID_def)

text \<open>The tunnels of a peer in a group.\<close>
definition peer_tunnels :: "PeerGroup \<Rightarrow> u32 \<Rightarrow> u32 \<rightharpoonup> Tunnel" where
  "peer_tunnels pg pid = (case peerMapping pg pid of None \<Rightarrow> Map.empty | Some p \<Rightarrow> tunnelMapping (prTunnelPool p))"

lemma pg_AddTunnel_tunnels:
  assumes "pg_invar pg"
  shows "pg_invar (fst (pg_AddTunnel cfg t (pg, g)))"
    and "peer_tunnels (fst (pg_AddTunnel cfg t (pg, g))) pid =
      (if pid = peerID t then (peer_tunnels pg pid)(tunnelID t \<mapsto> t) else peer_tunnels pg pid)"
proof -
  let ?p = "case peerMapping pg (peerID t) of Some p \<Rightarrow> p | None \<Rightarrow> NewServerPeerWithID cfg (peerID t)"
  obtain tp g1 where a: "AddTunnel t (prTunnelPool ?p, g) = (tp, g1)" by fastforce
  have id: "prPeerID ?p = peerID t"
    using assms by (auto simp: pg_invar_def split: option.split)
  have r: "fst (pg_AddTunnel cfg t (pg, g)) = storePeer (?p\<lparr>prTunnelPool := tp\<rparr>) pg"
    using a by (simp add: pg_AddTunnel_def Let_def)
  show "pg_invar (fst (pg_AddTunnel cfg t (pg, g)))"
    unfolding r by (rule peers.invar_add [OF assms])
  have "tunnelMapping (prTunnelPool ?p) = peer_tunnels pg (peerID t)"
    by (simp add: peer_tunnels_def NewServerPeerWithID_def NewTunnelPool_def split: option.split)
  then have tp: "tunnelMapping tp = (peer_tunnels pg (peerID t))(tunnelID t \<mapsto> t)"
    using AddTunnel_fst [OF a] by simp
  have e: "peerMapping (storePeer (?p\<lparr>prTunnelPool := tp\<rparr>) pg)
      = (peerMapping pg)(peerID t \<mapsto> ?p\<lparr>prTunnelPool := tp\<rparr>)"
    using id by (simp add: storePeer_def)
  show "peer_tunnels (fst (pg_AddTunnel cfg t (pg, g))) pid =
      (if pid = peerID t then (peer_tunnels pg pid)(tunnelID t \<mapsto> t) else peer_tunnels pg pid)"
    unfolding r peer_tunnels_def e using tp by (simp add: peer_tunnels_def)
qed

lemma AddTunnelFromConn_adds:
  assumes "pg_invar pg" "\<not> tclosed conn" "sscript (tout conn) = []" "\<not> length (tin conn) < 4"
  shows "\<exists>t pg' g'. AddTunnelFromConn cfg tid conn (pg, g) = (None, pg', g') \<and> pg_invar pg'
    \<and> tunnelID t = tid \<and> peerID t = le_get (take 4 (tin conn)) \<and> \<not> IsClientMode t
    \<and> (\<forall>pid. peer_tunnels pg' pid =
         (if pid = peerID t then (peer_tunnels pg pid)(tid \<mapsto> t) else peer_tunnels pg pid))"
proof -
  obtain t where t: "NewPassiveTunnel tid conn = (None, t)" "tunnelID t = tid"
    "peerID t = le_get (take 4 (tin conn))" "\<not> IsClientMode t"
    using assms(2-4)
    by (simp add: NewPassiveTunnel_def passiveExchangePeerID_def recvPeerID_def sendPeerID_def t_write_def
        sink_write_def newTunnelWithID_def ReadFull_def)
  obtain pg' g' where p: "pg_AddTunnel cfg t (pg, g) = (pg', g')" by fastforce
  with t pg_AddTunnel_tunnels [OF assms(1), of cfg t g] show ?thesis
    by (intro exI [of _ t] exI [of _ pg'] exI [of _ g']) (auto simp: AddTunnelFromConn_def)
qed

text \<open>A connection that announces peer 5.\<close>
lemma demo_accept:
  "\<exists>t pg' g'. AddTunnelFromConn \<lparr>tpSendQueueSize = 64, tpRecvQueueSize = 64\<rparr> 11 (fresh_tun [5, 0, 0, 0])
     (\<lparr>peerMapping = Map.empty\<rparr>, InitStats 10) = (None, pg', g') \<and> peer_tunnels pg' 5 11 = Some t"
proof -
  have "le_get (take 4 [5, 0, 0, 0 :: byte]) = (5 :: u32)" by simp
  then show ?thesis
    using AddTunnelFromConn_adds [of "\<lparr>peerMapping = Map.empty\<rparr>" "fresh_tun [5, 0, 0, 0]"
        "\<lparr>tpSendQueueSize = 64, tpRecvQueueSize = 64\<rparr>" 11 "InitStats 10"]
    by (auto simp: pg_invar_def fresh_tun_def)
qed

section \<open>Properties\<close>

text \<open>
  An accepted connection becomes a tunnel of the peer it names: when the connection starts with
  a peer ID, the tunnel joins the tunnels of that peer, which is created if needed, and no other
  peer changes; when the handshake fails, nothing changes. Peers stay filed under their own ID.
\<close>
lemma AddTunnelFromConn_correct:
  assumes "pg_invar pg" "\<not> tclosed conn" "sscript (tout conn) = []"
    and "AddTunnelFromConn cfg tid conn (pg, g) = (err, pg', g')"
  shows "pg_invar pg' \<and>
    (if length (tin conn) < 4 then err \<noteq> None \<and> pg' = pg \<and> g' = g
     else err = None \<and> (\<exists>t. tunnelID t = tid \<and> peerID t = le_get (take 4 (tin conn)) \<and> \<not> IsClientMode t
        \<and> (\<forall>pid. peer_tunnels pg' pid =
             (if pid = peerID t then (peer_tunnels pg pid)(tid \<mapsto> t) else peer_tunnels pg pid))))"
proof (cases "length (tin conn) < 4")
  case True
  with assms show ?thesis
    by (auto simp: AddTunnelFromConn_def NewPassiveTunnel_def passiveExchangePeerID_def recvPeerID_def
        newTunnelWithID_def ReadFull_def split: if_splits)
next
  case False
  with assms(4) AddTunnelFromConn_adds [OF assms(1,2,3), of cfg tid g] show ?thesis by auto
qed

theorem AddTunnelFromConn_correct_witness:
  "\<exists>t. peer_tunnels (fst (snd (AddTunnelFromConn \<lparr>tpSendQueueSize = 64, tpRecvQueueSize = 64\<rparr> 11
      (fresh_tun [5, 0, 0, 0]) (\<lparr>peerMapping = Map.empty\<rparr>, InitStats 10)))) 5 11 = Some t"
proof -
  obtain err pg g where r: "AddTunnelFromConn \<lparr>tpSendQueueSize = 64, tpRecvQueueSize = 64\<rparr> 11
      (fresh_tun [5, 0, 0, 0]) (\<lparr>peerMapping = Map.empty\<rparr>, InitStats 10) = (err, pg, g)"
    by (metis prod.collapse)
  have "le_get (take 4 [5, 0, 0, 0 :: byte]) = (5 :: u32)" by simp
  with AddTunnelFromConn_correct [OF _ _ _ r] r show ?thesis
    by (auto simp: pg_invar_def fresh_tun_def)
qed

text \<open>Every tunnel is filed under the peer it belongs to and under its own ID.\<close>
definition pg_ok :: "PeerGroup \<Rightarrow> bool" where
  "pg_ok pg \<longleftrightarrow> pg_invar pg
     \<and> (\<forall>pid tid t. peer_tunnels pg pid tid = Some t \<longrightarrow> peerID t = pid \<and> tunnelID t = tid)"

lemma pg_ok_AddTunnelFromConn: "pg_ok pg \<Longrightarrow> pg_ok (fst (snd (AddTunnelFromConn cfg tid conn (pg, g))))"
  using pg_AddTunnel_tunnels [of pg cfg _ g]
  by (auto simp: AddTunnelFromConn_def pg_ok_def split: prod.splits option.splits if_splits)

lemma pg_ok_ServeThread: "pg_ok (fst s) \<Longrightarrow> pg_ok (fst (ServeThread_loop cfg es s))"
proof (induction cfg es s rule: ServeThread_loop.induct)
  case (3 cfg tid conn es s)
  then show ?case by (metis ServeThread_loop.simps(3) pg_ok_AddTunnelFromConn prod.collapse)
qed simp_all

text \<open>
  Whatever connections the server accepts, with whatever bytes in the handshake and with any
  failures between them, each tunnel is in the pool of the peer whose ID it announced, under its
  own tunnel ID; no tunnel ever serves another peer.
\<close>
lemma ServeThread_separates_peers:
  assumes "peer_tunnels (fst (ServeThread_loop cfg es (\<lparr>peerMapping = Map.empty\<rparr>, g))) pid tid = Some t"
  shows "peerID t = pid \<and> tunnelID t = tid"
proof -
  have "pg_ok (fst (\<lparr>peerMapping = Map.empty\<rparr>, g))" by (simp add: pg_ok_def pg_invar_def peer_tunnels_def)
  then have "pg_ok (fst (ServeThread_loop cfg es (\<lparr>peerMapping = Map.empty\<rparr>, g)))" by (rule pg_ok_ServeThread)
  with assms show ?thesis unfolding pg_ok_def by blast
qed

lemma ServeThread_separates_peers_witness:
  "\<exists>t. peer_tunnels (fst (ServeThread_loop \<lparr>tpSendQueueSize = 64, tpRecvQueueSize = 64\<rparr>
      [Accepts 11 (fresh_tun [5, 0, 0, 0])] (\<lparr>peerMapping = Map.empty\<rparr>, InitStats 10))) 5 11 = Some t \<and> peerID t = 5"
proof -
  obtain t where t: "peer_tunnels (fst (ServeThread_loop \<lparr>tpSendQueueSize = 64, tpRecvQueueSize = 64\<rparr>
      [Accepts 11 (fresh_tun [5, 0, 0, 0])] (\<lparr>peerMapping = Map.empty\<rparr>, InitStats 10))) 5 11 = Some t"
    using demo_accept by auto
  with ServeThread_separates_peers [OF t] show ?thesis by blast
qed

text \<open>
  Dialling through a client peer registers a new connection in its pool and sends one block,
  the connect block with sequence number zero and the target address as data.
\<close>
lemma Dial_correct:
  "\<exists>c p' g'. Dial cfg now cid address p g = (c, p', g')
    \<and> sendq c = [NewConnectBlock now cid 0 address] \<and> sendBlockID (bproc c) = 1
    \<and> connectionMapping (prConnectionPool p') = (connectionMapping (prConnectionPool p))(cid \<mapsto> PIn c)
    \<and> prTunnelPool p' = prTunnelPool p
    \<and> connectionCount (ClientStats g') = connectionCount (ClientStats g) + 1"
  by (simp add: Dial_def NewPooledInboundConnection_def NewInboundConnection_def addConnection_def both_stats_def
      SendConnect_def packConnect_def newBlockProcessor_def Let_def)

text \<open>
  A peer can be stopped once: the first stop closes every tunnel and the queues of the pool;
  a second stop closes a closed channel and panics.
\<close>
lemma Peer_Stop_once:
  assumes "\<not> chclosed (tpSendQueue (prTunnelPool p))" "\<not> chclosed (tpSendRetryQueue (prTunnelPool p))"
    "\<not> chclosed (tpRecvQueue (prTunnelPool p))"
  shows "\<exists>p'. Peer_Stop p = Ret p' \<and> prCtxDone p' \<and> cpCtxDone (prConnectionPool p')
    \<and> (\<forall>k t. tunnelMapping (prTunnelPool p') k = Some t \<longrightarrow> tclosed (tConn t) \<and> tCtxDone t)
    \<and> dom (tunnelMapping (prTunnelPool p')) = dom (tunnelMapping (prTunnelPool p))
    \<and> Peer_Stop p' = Panic"
  using assms
  by (auto simp: Peer_Stop_def tp_Close_def Let_def chan_close_def stopRelay_def tcloseThenCancel_def dom_def)

theorem Peer_Stop_once_witness:
  "\<exists>p'. Peer_Stop (NewServerPeerWithID \<lparr>tpSendQueueSize = 64, tpRecvQueueSize = 64\<rparr> 5) = Ret p' \<and> Peer_Stop p' = Panic"
  using Peer_Stop_once [of "NewServerPeerWithID \<lparr>tpSendQueueSize = 64, tpRecvQueueSize = 64\<rparr> 5"]
  by (auto simp: NewServerPeerWithID_def NewTunnelPool_def make_chan_def)

end
