(* ===== verification/ServerRun.thy ===== *)
theory ServerRun
  imports Peer
begin

text \<open>
  The life of a server's peers, as a transition system: \<open>peer/peer_group.go\<close> with the countdowns of
  \<open>tunnel_pool/manager.go\<close>. Several threads accept connections; \<open>AddTunnel\<close> of the group holds its
  lock only while it looks up or creates the peer, and adds the tunnel to the peer's pool
  afterwards. Tunnels end, countdowns of empty pools run out and cancel the context of their peer, and
  then a goroutine removes the peer from the map. Peers are known by reference, as in the source: a
  peer that has left the map can still be used by a thread that has looked it up before.
\<close>

section \<open>State and steps\<close>

text \<open>A reference to a peer is its position in the list of all peers ever created.\<close>
record server_run =
  sr_peers :: "Peer list"
  sr_removed :: "nat list"
  sr_map :: "u32 \<rightharpoonup> nat"
  sr_pending :: "(Tunnel \<times> nat) list"
  sr_stats :: stats_pair

definition sr_start :: "stats_pair \<Rightarrow> server_run" where
  "sr_start g = \<lparr>sr_peers = [], sr_removed = [], sr_map = Map.empty, sr_pending = [], sr_stats = g\<rparr>"

text \<open>The part of \<open>AddTunnel\<close> under the lock.\<close>
definition sr_lookup :: "pool_config \<Rightarrow> Tunnel \<Rightarrow> server_run \<Rightarrow> server_run" where
  "sr_lookup cfg t st =
     (case sr_map st (peerID t) of
        Some a \<Rightarrow> st\<lparr>sr_pending := sr_pending st @ [(t, a)]\<rparr>
      | None \<Rightarrow>
          st\<lparr>sr_peers := sr_peers st @ [NewServerPeerWithID cfg (peerID t)],
             sr_map := (sr_map st)(peerID t \<mapsto> length (sr_peers st)),
             sr_pending := sr_pending st @ [(t, length (sr_peers st))]\<rparr>)"

definition sr_accept :: "pool_config \<Rightarrow> u32 \<Rightarrow> tun_conn \<Rightarrow> server_run \<Rightarrow> server_run" where
  "sr_accept cfg tid conn st =
     (case NewPassiveTunnel tid conn of (Some e, _) \<Rightarrow> st | (None, t) \<Rightarrow> sr_lookup cfg t st)"

text \<open>An operation on the tunnel pool of a peer.\<close>
definition sr_on_pool :: "nat \<Rightarrow> (pool_state \<Rightarrow> pool_state) \<Rightarrow> server_run \<Rightarrow> server_run" where
  "sr_on_pool a f st =
     (let p = sr_peers st ! a; (tp, g) = f (prTunnelPool p, sr_stats st)
      in st\<lparr>sr_peers := (sr_peers st)[a := p\<lparr>prTunnelPool := tp\<rparr>], sr_stats := g\<rparr>)"

text \<open>The rest of \<open>AddTunnel\<close>, by the thread that accepted the \<open>i\<close>-th pending tunnel.\<close>
definition sr_add :: "nat \<Rightarrow> server_run \<Rightarrow> server_run" where
  "sr_add i st =
     (let (t, a) = sr_pending st ! i
      in sr_on_pool a (AddTunnel t) (st\<lparr>sr_pending := take i (sr_pending st) @ drop (Suc i) (sr_pending st)\<rparr>))"

definition sr_end :: "nat \<Rightarrow> Tunnel \<Rightarrow> server_run \<Rightarrow> server_run" where
  "sr_end a t st = sr_on_pool a (RemoveTunnel t) st"

text \<open>\<open>removePeerFunc\<close> cancels the context of the peer, and with it those of its pools.\<close>
definition sr_cancel :: "Peer \<Rightarrow> Peer" where
  "sr_cancel p = p\<lparr>prCtxDone := True, prTunnelPool := (prTunnelPool p)\<lparr>tpCtxDone := True\<rparr>,
     prConnectionPool := stopRelay (prConnectionPool p)\<rparr>"

text \<open>The \<open>i\<close>-th countdown of a peer runs out.\<close>
definition sr_fire :: "nat \<Rightarrow> nat \<Rightarrow> server_run \<Rightarrow> server_run" where
  "sr_fire a i st =
     (let p = sr_peers st ! a in
      case tpManager (prTunnelPool p) of
        ServerM sm \<Rightarrow>
          if i < length (countdowns sm) \<and> countdowns sm ! i = Counting
          then st\<lparr>sr_peers := (sr_peers st)[a :=
                 sr_cancel (p\<lparr>prTunnelPool := (prTunnelPool p)\<lparr>tpManager := ServerM (countdown_fires i sm)\<rparr>\<rparr>)]\<rparr>
          else st
      | ClientM cm \<Rightarrow> st)"

text \<open>The goroutine that waits for the peer's context and then removes it from the map.\<close>
definition sr_remove :: "nat \<Rightarrow> server_run \<Rightarrow> server_run" where
  "sr_remove a st = st\<lparr>sr_map := (sr_map st)(prPeerID (sr_peers st ! a) := None), sr_removed := a # sr_removed st\<rparr>"

inductive sr_step :: "pool_config \<Rightarrow> server_run \<Rightarrow> server_run \<Rightarrow> bool" for cfg where
  step_accept: "sr_step cfg st (sr_accept cfg tid conn st)"
| step_add: "i < length (sr_pending st) \<Longrightarrow> sr_step cfg st (sr_add i st)"
| step_end: "a < length (sr_peers st) \<Longrightarrow> sr_step cfg st (sr_end a t st)"
| step_fire: "a < length (sr_peers st) \<Longrightarrow> sr_step cfg st (sr_fire a i st)"
| step_remove: "a < length (sr_peers st) \<Longrightarrow> prCtxDone (sr_peers st ! a) \<Longrightarrow> a \<notin> set (sr_removed st)
    \<Longrightarrow> sr_step cfg st (sr_remove a st)"

definition sr_init :: "server_run \<Rightarrow> bool" where
  "sr_init st \<longleftrightarrow> (\<exists>g. st = sr_start g)"

section \<open>The invariant\<close>

text \<open>A peer's tunnels carry its ID and are filed under their own; its countdowns are those of its pool.\<close>
definition peer_ok :: "Peer \<Rightarrow> bool" where
  "peer_ok p \<longleftrightarrow> (\<forall>g. sp_inv (prTunnelPool p, g))
     \<and> (\<forall>tid t. tunnelMapping (prTunnelPool p) tid = Some t \<longrightarrow> peerID t = prPeerID p \<and> tunnelID t = tid)"

text \<open>
  A peer is in the map exactly until the goroutine that waits for its end has removed it, and that
  happens only after its context was cancelled.
\<close>
definition sr_inv :: "server_run \<Rightarrow> bool" where
  "sr_inv st \<longleftrightarrow>
     (\<forall>a<length (sr_peers st). peer_ok (sr_peers st ! a)
        \<and> (if a \<in> set (sr_removed st) then prCtxDone (sr_peers st ! a)
           else sr_map st (prPeerID (sr_peers st ! a)) = Some a))
   \<and> (\<forall>pid a. sr_map st pid = Some a \<longrightarrow> a < length (sr_peers st) \<and> a \<notin> set (sr_removed st) \<and> prPeerID (sr_peers st ! a) = pid)
   \<and> (\<forall>(t, a)\<in>set (sr_pending st). a < length (sr_peers st) \<and> peerID t = prPeerID (sr_peers st ! a))
   \<and> set (sr_removed st) \<subseteq> {..<length (sr_peers st)}"

lemma sr_invI:
  assumes "\<And>a. a < length (sr_peers st) \<Longrightarrow> peer_ok (sr_peers st ! a)
      \<and> (if a \<in> set (sr_removed st) then prCtxDone (sr_peers st ! a) else sr_map st (prPeerID (sr_peers st ! a)) = Some a)"
    and "\<And>pid a. sr_map st pid = Some a \<Longrightarrow> a < length (sr_peers st) \<and> a \<notin> set (sr_removed st) \<and> prPeerID (sr_peers st ! a) = pid"
    and "\<And>t a. (t, a) \<in> set (sr_pending st) \<Longrightarrow> a < length (sr_peers st) \<and> peerID t = prPeerID (sr_peers st ! a)"
    and "set (sr_removed st) \<subseteq> {..<length (sr_peers st)}"
  shows "sr_inv st"
  using assms by (auto simp: sr_inv_def)

lemma sr_invD:
  assumes "sr_inv st"
  shows "a < length (sr_peers st) \<Longrightarrow> peer_ok (sr_peers st ! a)"
    "a < length (sr_peers st) \<Longrightarrow> a \<in> set (sr_removed st) \<Longrightarrow> prCtxDone (sr_peers st ! a)"
    "a < length (sr_peers st) \<Longrightarrow> a \<notin> set (sr_removed st) \<Longrightarrow> sr_map st (prPeerID (sr_peers st ! a)) = Some a"
    "sr_map st pid = Some a \<Longrightarrow> a < length (sr_peers st) \<and> a \<notin> set (sr_removed st) \<and> prPeerID (sr_peers st ! a) = pid"
    "(t, a) \<in> set (sr_pending st) \<Longrightarrow> a < length (sr_peers st) \<and> peerID t = prPeerID (sr_peers st ! a)"
    "set (sr_removed st) \<subseteq> {..<length (sr_peers st)}"
  using assms by (auto simp: sr_inv_def)

text \<open>A change of one peer that keeps its ID and its health.\<close>
lemma sr_inv_update:
  assumes "sr_inv st" "a < length (sr_peers st)" "peer_ok p" "prPeerID p = prPeerID (sr_peers st ! a)"
    and "prCtxDone (sr_peers st ! a) \<longrightarrow> prCtxDone p" "set pend \<subseteq> set (sr_pending st)"
  shows "sr_inv (st\<lparr>sr_pending := pend, sr_peers := (sr_peers st)[a := p], sr_stats := g\<rparr>)"
  using assms sr_invD [OF assms(1)] by (intro sr_invI) (auto simp: nth_list_update)

lemma sp_inv_stats: "sp_inv (tp, g) \<longleftrightarrow> sp_inv (tp, g')"
  by (simp add: sp_inv_def tp_invar_def)

lemma sp_inv_ctx: "sp_inv (tp\<lparr>tpCtxDone := b\<rparr>, g) \<longleftrightarrow> sp_inv (tp, g)"
  by (simp add: sp_inv_def tp_invar_def GetTunnelMappingLen_def)

text \<open>A step of the pool keeps the peer healthy if the tunnels it adds carry the peer's ID.\<close>
lemma peer_ok_pool:
  assumes "peer_ok p" "sp_step (prTunnelPool p, g) (tp, g')"
    and "\<And>tid t. tunnelMapping tp tid = Some t \<Longrightarrow> tunnelMapping (prTunnelPool p) tid = Some t \<or> peerID t = prPeerID p \<and> tunnelID t = tid"
    and "prTunnelPool p' = tp" "prPeerID p' = prPeerID p"
  shows "peer_ok p'"
proof -
  have "sp_inv (tp, g')" using assms(1) by (intro sp_inv_step [OF _ assms(2)]) (simp add: peer_ok_def)
  then have "\<forall>g. sp_inv (tp, g)" using sp_inv_stats by blast
  moreover have "\<forall>tid t. tunnelMapping tp tid = Some t \<longrightarrow> peerID t = prPeerID p \<and> tunnelID t = tid"
    using assms(1,3) unfolding peer_ok_def by blast
  ultimately show ?thesis unfolding peer_ok_def assms(4,5) by blast
qed

lemma peer_ok_New: "peer_ok (NewServerPeerWithID cfg pid)"
proof -
  have "sp_inv (NewTunnelPool cfg pid (ServerM NewServerManager), g)" for g
    by (rule sp_inv_init) (auto simp: sp_init_def)
  then show ?thesis by (simp add: peer_ok_def NewServerPeerWithID_def) (simp add: NewTunnelPool_def)
qed

lemma sr_inv_add:
  assumes "sr_inv st" "i < length (sr_pending st)"
  shows "sr_inv (sr_add i st)"
proof -
  obtain t a where ta: "sr_pending st ! i = (t, a)" by fastforce
  then have mem: "(t, a) \<in> set (sr_pending st)" using assms(2) by (metis nth_mem)
  note a = sr_invD(5) [OF assms(1) mem]
  let ?p = "sr_peers st ! a" and ?pend = "take i (sr_pending st) @ drop (Suc i) (sr_pending st)"
  obtain tp g where f: "AddTunnel t (prTunnelPool ?p, sr_stats st) = (tp, g)" by fastforce
  have m: "tunnelMapping tp = (tunnelMapping (prTunnelPool ?p))(tunnelID t \<mapsto> t)"
    using mapping_AddTunnel [of t "(prTunnelPool ?p, sr_stats st)"] by (simp add: f)
  have "sp_step (prTunnelPool ?p, sr_stats st) (tp, g)" using sp_add [of "(prTunnelPool ?p, sr_stats st)" t] by (simp add: f)
  then have "peer_ok (?p\<lparr>prTunnelPool := tp\<rparr>)"
    by (rule peer_ok_pool [OF sr_invD(1) [OF assms(1) conjunct1 [OF a]]]) (use a in \<open>auto simp: m split: if_splits\<close>)
  from sr_inv_update [OF assms(1) _ this, of a ?pend g] a show ?thesis
    by (simp add: sr_add_def ta sr_on_pool_def f Let_def set_take_subset set_drop_subset)
qed

lemma sr_inv_end:
  assumes "sr_inv st" "a < length (sr_peers st)"
  shows "sr_inv (sr_end a t st)"
proof -
  let ?p = "sr_peers st ! a"
  have ok: "peer_ok ?p" using sr_invD(1) assms by blast
  obtain tp g where f: "RemoveTunnel t (prTunnelPool ?p, sr_stats st) = (tp, g)" by fastforce
  have "tp_invar (prTunnelPool ?p, sr_stats st)" using ok by (auto simp: peer_ok_def sp_inv_def)
  from mapping_RemoveTunnel [OF this, of t] have m: "tunnelMapping tp = (tunnelMapping (prTunnelPool ?p))(tunnelID t := None)"
    by (simp add: f)
  have "sp_step (prTunnelPool ?p, sr_stats st) (tp, g)" using sp_remove [of "(prTunnelPool ?p, sr_stats st)" t] by (simp add: f)
  then have "peer_ok (?p\<lparr>prTunnelPool := tp\<rparr>)"
    by (rule peer_ok_pool [OF ok]) (auto simp: m split: if_splits)
  from sr_inv_update [OF assms(1,2) this, of "sr_pending st" g] show ?thesis
    by (simp add: sr_end_def sr_on_pool_def f Let_def)
qed

lemma sr_inv_fire:
  assumes "sr_inv st" "a < length (sr_peers st)"
  shows "sr_inv (sr_fire a i st)"
proof (cases "sr_fire a i st = st")
  case False
  let ?p = "sr_peers st ! a"
  have ok: "peer_ok ?p" using sr_invD(1) assms by blast
  obtain sm where sm: "tpManager (prTunnelPool ?p) = ServerM sm" "i < length (countdowns sm)" "countdowns sm ! i = Counting"
    using False by (auto simp: sr_fire_def Let_def split: Manager.splits if_splits)
  let ?q = "?p\<lparr>prTunnelPool := (prTunnelPool ?p)\<lparr>tpManager := ServerM (countdown_fires i sm)\<rparr>\<rparr>"
  have "peer_ok ?q"
    by (rule peer_ok_pool [OF ok sp_fire [OF sm(1), of "sr_stats st" i]]) simp_all
  then have "peer_ok (sr_cancel ?q)" by (simp add: peer_ok_def sr_cancel_def sp_inv_ctx)
  from sr_inv_update [OF assms(1,2) this, of "sr_pending st" "sr_stats st"] sm show ?thesis
    by (simp add: sr_fire_def Let_def) (simp add: sr_cancel_def)
qed (use assms in simp)

lemma sr_inv_remove:
  assumes "sr_inv st" "a < length (sr_peers st)" "prCtxDone (sr_peers st ! a)" "a \<notin> set (sr_removed st)"
  shows "sr_inv (sr_remove a st)"
proof -
  have a: "sr_map st (prPeerID (sr_peers st ! a)) = Some a" using sr_invD(3) assms by blast
  have "b = a" if "b < length (sr_peers st)" "b \<notin> set (sr_removed st)" "prPeerID (sr_peers st ! b) = prPeerID (sr_peers st ! a)" for b
    using sr_invD(3) [OF assms(1) that(1,2)] that(3) a by simp
  then have "sr_map st (prPeerID (sr_peers st ! b)) = Some b \<and> prPeerID (sr_peers st ! b) \<noteq> prPeerID (sr_peers st ! a)"
    if "b < length (sr_peers st)" "b \<notin> set (sr_removed st)" "b \<noteq> a" for b
    using sr_invD(3) [OF assms(1) that(1,2)] that by blast
  note others = this
  show ?thesis
  proof (rule sr_invI, goal_cases)
    case (1 b)
    then show ?case using sr_invD(1,2) [OF assms(1), of b] others [of b] assms(3) by (auto simp: sr_remove_def)
  next
    case (2 pid b)
    then show ?case using sr_invD(4) [OF assms(1), of pid b] by (auto simp: sr_remove_def split: if_splits)
  next
    case (3 t b)
    then show ?case using sr_invD(5) [OF assms(1), of t b] by (simp add: sr_remove_def)
  next
    case 4
    then show ?case using sr_invD(6) [OF assms(1)] assms(2) by (simp add: sr_remove_def)
  qed
qed

lemma sr_inv_lookup:
  assumes "sr_inv st"
  shows "sr_inv (sr_lookup cfg t st)"
proof (cases "sr_map st (peerID t)")
  case (Some a)
  with assms sr_invD [OF assms] show ?thesis by (intro sr_invI) (auto simp: sr_lookup_def)
next
  case None
  have fresh: "a \<in> set (sr_removed st)" if "a < length (sr_peers st)" "prPeerID (sr_peers st ! a) = peerID t" for a
    using sr_invD(3) [OF assms that(1)] that(2) None by auto
  have "length (sr_peers st) \<notin> set (sr_removed st)" using sr_invD(6) [OF assms] by auto
  with None sr_invD [OF assms] fresh show ?thesis
    by (intro sr_invI) (auto simp: sr_lookup_def nth_append less_Suc_eq peer_ok_New split: if_splits)
qed

lemma sr_inv_step:
  assumes "sr_inv st" "sr_step cfg st st'"
  shows "sr_inv st'"
  using assms(2)
proof cases
  case (step_accept tid conn)
  with assms(1) sr_inv_lookup show ?thesis by (simp add: sr_accept_def split: prod.split option.split)
qed (use assms(1) in \<open>simp_all add: sr_inv_add sr_inv_end sr_inv_fire sr_inv_remove\<close>)

interpretation server_run: invariant_system sr_init "sr_step cfg" sr_inv for cfg
proof unfold_locales
  show "sr_inv s" if "sr_init s" for s using that by (auto simp: sr_init_def sr_start_def sr_inv_def)
qed (rule sr_inv_step)

section \<open>The group in one step\<close>

text \<open>The group of \<open>Peer\<close>, whose operations are single steps, as a view of this state.\<close>
definition sr_group :: "server_run \<Rightarrow> PeerGroup" where
  "sr_group st = \<lparr>peerMapping = (\<lambda>pid. map_option (\<lambda>a. sr_peers st ! a) (sr_map st pid))\<rparr>"

text \<open>Without a step of another thread in between, both halves of \<open>AddTunnel\<close> are the operation of the group.\<close>
lemma sr_AddTunnel_refines:
  assumes "sr_inv st" "st' = sr_add (length (sr_pending st)) (sr_lookup cfg t st)"
  shows "(sr_group st', sr_stats st') = pg_AddTunnel cfg t (sr_group st, sr_stats st)" "sr_pending st' = sr_pending st"
proof -
  define a where "a = (case sr_map st (peerID t) of Some a \<Rightarrow> a | None \<Rightarrow> length (sr_peers st))"
  define p where "p = (case peerMapping (sr_group st) (peerID t) of Some p \<Rightarrow> p | None \<Rightarrow> NewServerPeerWithID cfg (peerID t))"
  let ?st1 = "sr_lookup cfg t st"
  obtain tp g where f: "AddTunnel t (prTunnelPool p, sr_stats st) = (tp, g)" by fastforce
  have 1: "sr_pending ?st1 = sr_pending st @ [(t, a)]" "sr_stats ?st1 = sr_stats st" "a < length (sr_peers ?st1)"
    "sr_peers ?st1 ! a = p" "sr_map ?st1 = (sr_map st)(peerID t \<mapsto> a)" "prPeerID p = peerID t"
    using sr_invD(4) [OF assms(1), of "peerID t"]
    by (auto simp: sr_lookup_def a_def p_def sr_group_def nth_append split: option.split)
  have other: "b \<noteq> a \<and> sr_peers ?st1 ! b = sr_peers st ! b" if "sr_map st pid = Some b" "pid \<noteq> peerID t" for pid b
    using sr_invD(4) [OF assms(1) that(1)] that sr_invD(4) [OF assms(1), of "peerID t" a]
    by (auto simp: sr_lookup_def a_def nth_append split: option.splits)
  have st': "st' = ?st1\<lparr>sr_pending := sr_pending st, sr_peers := (sr_peers ?st1)[a := p\<lparr>prTunnelPool := tp\<rparr>], sr_stats := g\<rparr>"
    using 1 f by (simp add: assms(2) sr_add_def sr_on_pool_def Let_def)
  have "peerMapping (sr_group st') = (peerMapping (sr_group st))(peerID t \<mapsto> p\<lparr>prTunnelPool := tp\<rparr>)"
  proof
    fix pid
    show "peerMapping (sr_group st') pid = ((peerMapping (sr_group st))(peerID t \<mapsto> p\<lparr>prTunnelPool := tp\<rparr>)) pid"
      using 1(3,5) other [of pid] by (cases "sr_map st pid") (auto simp: sr_group_def st')
  qed
  then show "(sr_group st', sr_stats st') = pg_AddTunnel cfg t (sr_group st, sr_stats st)"
    using 1(6) f by (simp add: pg_AddTunnel_def p_def [symmetric] storePeer_def Let_def) (simp add: st' sr_group_def)
  show "sr_pending st' = sr_pending st" by (simp add: st')
qed

section \<open>Properties\<close>

text \<open>
  C8. In every reachable state of a server: a peer that has not been cancelled is in the map under
  its own ID, so there is at most one for each ID and every new tunnel of that client finds it; the
  map leads only to peers with the right ID; each tunnel is in the pool of the peer whose ID it
  announced, under its own ID; and a countdown runs only while the pool of its peer has no tunnel.
\<close>
theorem server_peers_consistent:
  assumes "reach sr_init (sr_step cfg) st" and "a < length (sr_peers st)"
  shows "(\<not> prCtxDone (sr_peers st ! a) \<longrightarrow> sr_map st (prPeerID (sr_peers st ! a)) = Some a)
    \<and> (\<forall>pid. sr_map st pid = Some a \<longrightarrow> prPeerID (sr_peers st ! a) = pid)
    \<and> (\<forall>tid t. tunnelMapping (prTunnelPool (sr_peers st ! a)) tid = Some t \<longrightarrow>
         peerID t = prPeerID (sr_peers st ! a) \<and> tunnelID t = tid)
    \<and> (\<exists>sm. tpManager (prTunnelPool (sr_peers st ! a)) = ServerM sm
         \<and> (\<forall>i<length (countdowns sm). countdowns sm ! i = Counting \<longrightarrow>
              tunnelMapping (prTunnelPool (sr_peers st ! a)) = Map.empty))"
proof -
  have inv: "sr_inv st" using assms(1) by (rule server_run.reach_I)
  have ok: "peer_ok (sr_peers st ! a)" using sr_invD(1) [OF inv assms(2)] .
  then obtain sm where sm: "tpManager (prTunnelPool (sr_peers st ! a)) = ServerM sm"
    "sm_inv (GetTunnelMappingLen (prTunnelPool (sr_peers st ! a))) sm" by (auto simp: peer_ok_def sp_inv_def)
  then have "tunnelMapping (prTunnelPool (sr_peers st ! a)) = Map.empty"
    if "i < length (countdowns sm)" "countdowns sm ! i = Counting" for i
    using that by (auto simp: sm_inv_def GetTunnelMappingLen_def)
  with sm(1) ok show ?thesis
    using sr_invD(2,3) [OF inv assms(2)] sr_invD(4) [OF inv] unfolding peer_ok_def by blast
qed


text \<open>A client connects, its tunnel ends, and a second tunnel has been accepted but not yet added.\<close>
definition sample_tunnel :: "u32 \<Rightarrow> Tunnel" where
  "sample_tunnel tid = snd (NewPassiveTunnel tid (fresh_tun [5, 0, 0, 0]))"

lemma sample_tunnel_New:
  "NewPassiveTunnel tid (fresh_tun [5, 0, 0, 0]) = (None, sample_tunnel tid)"
  "peerID (sample_tunnel tid) = 5" "tunnelID (sample_tunnel tid) = tid" "IsClientMode (sample_tunnel tid) = False"
  by (simp_all add: sample_tunnel_def NewPassiveTunnel_def passiveExchangePeerID_def recvPeerID_def newTunnelWithID_def
      fresh_tun_def ReadFull_def sendPeerID_def t_write_def sink_write_def)

definition sample_config :: pool_config where
  "sample_config = \<lparr>tpSendQueueSize = 64, tpRecvQueueSize = 64\<rparr>"

definition sample_run :: server_run where
  "sample_run =
     (let st1 = sr_add 0 (sr_accept sample_config 11 (fresh_tun [5, 0, 0, 0]) (sr_start (InitStats 10)))
      in sr_accept sample_config 12 (fresh_tun [5, 0, 0, 0]) (sr_end 0 (sample_tunnel 11) st1))"

lemma sample_run_state:
  "sr_pending sample_run = [(sample_tunnel 12, 0)] \<and> length (sr_peers sample_run) = 1 \<and> sr_removed sample_run = []
   \<and> (\<exists>sm. tpManager (prTunnelPool (sr_peers sample_run ! 0)) = ServerM sm \<and> countdowns sm = [Counting])"
  by (simp add: sample_run_def Let_def sr_accept_def sr_lookup_def sr_start_def sample_tunnel_New sr_add_def sr_end_def
      sr_on_pool_def AddTunnel_def RemoveTunnel_def NewServerPeerWithID_def NewTunnelPool_def Notify_def
      GetTunnelMappingLen_def server_Notify_def NewServerManager_def cancelCountDown_def case_prod_beta)

lemma sample_run_reach: "reach sr_init (sr_step sample_config) sample_run"
proof -
  let ?s0 = "sr_start (InitStats 10)"
  let ?s1 = "sr_accept sample_config 11 (fresh_tun [5, 0, 0, 0]) ?s0"
  let ?s2 = "sr_add 0 ?s1"
  have "reach sr_init (sr_step sample_config) ?s0" by (rule reach_init) (auto simp: sr_init_def)
  then have "reach sr_init (sr_step sample_config) ?s1" by (rule reach_step) (rule step_accept)
  then have "reach sr_init (sr_step sample_config) ?s2"
    by (rule reach_step) (rule step_add, simp add: sr_accept_def sample_tunnel_New sr_lookup_def sr_start_def)
  then have "reach sr_init (sr_step sample_config) (sr_end 0 (sample_tunnel 11) ?s2)"
    by (rule reach_step) (rule step_end, simp add: sr_accept_def sample_tunnel_New sr_lookup_def sr_start_def sr_add_def
        sr_on_pool_def case_prod_beta Let_def)
  then show ?thesis
    unfolding sample_run_def Let_def by (rule reach_step) (rule step_accept)
qed

theorem server_peers_consistent_witness:
  "\<exists>sm. tpManager (prTunnelPool (sr_peers sample_run ! 0)) = ServerM sm \<and> countdowns sm = [Counting]
     \<and> tunnelMapping (prTunnelPool (sr_peers sample_run ! 0)) = Map.empty"
proof -
  have len: "0 < length (sr_peers sample_run)" using sample_run_state by simp
  obtain sm where sm: "tpManager (prTunnelPool (sr_peers sample_run ! 0)) = ServerM sm" "countdowns sm = [Counting]"
    using sample_run_state by blast
  obtain sm' where "tpManager (prTunnelPool (sr_peers sample_run ! 0)) = ServerM sm'"
    "\<forall>i<length (countdowns sm'). countdowns sm' ! i = Counting \<longrightarrow>
       tunnelMapping (prTunnelPool (sr_peers sample_run ! 0)) = Map.empty"
    using server_peers_consistent [OF sample_run_reach len] by blast
  with sm show ?thesis by simp
qed

text \<open>
  C18. A tunnel can be lost to a peer that is being removed: if the countdown of a peer runs out
  after a thread has looked the peer up for a new tunnel and before it adds the tunnel, then the tunnel
  ends up in the pool of a peer that is cancelled and no longer in the map. The tunnel itself is
  not closed and goes on answering, but the relay that would take its blocks has ended, and further
  tunnels of the same client go to a new peer.
\<close>
theorem tunnel_stranded:
  assumes "reach sr_init (sr_step cfg) st" and "i < length (sr_pending st)" "sr_pending st ! i = (t, a)"
    and "tpManager (prTunnelPool (sr_peers st ! a)) = ServerM sm" "k < length (countdowns sm)" "countdowns sm ! k = Counting"
    and "a \<notin> set (sr_removed st)" and "st' = sr_add i (sr_remove a (sr_fire a k st))"
  shows "reach sr_init (sr_step cfg) st' \<and> tunnelMapping (prTunnelPool (sr_peers st' ! a)) (tunnelID t) = Some t
    \<and> prCtxDone (sr_peers st' ! a) \<and> cpCtxDone (prConnectionPool (sr_peers st' ! a)) \<and> sr_map st' (peerID t) = None"
proof -
  have inv: "sr_inv st" using assms(1) by (rule server_run.reach_I)
  have "(t, a) \<in> set (sr_pending st)" using assms(2,3) by (metis nth_mem)
  note a = sr_invD(5) [OF inv this]
  let ?p = "sr_cancel ((sr_peers st ! a)\<lparr>prTunnelPool := (prTunnelPool (sr_peers st ! a))\<lparr>tpManager := ServerM (countdown_fires k sm)\<rparr>\<rparr>)"
  let ?st1 = "sr_fire a k st" and ?st2 = "sr_remove a (sr_fire a k st)"
  have 1: "?st1 = st\<lparr>sr_peers := (sr_peers st)[a := ?p]\<rparr>" using assms(4-6) by (simp add: sr_fire_def Let_def)
  have dn: "prCtxDone ?p" "cpCtxDone (prConnectionPool ?p)" "prPeerID ?p = peerID t"
    using a by (simp_all add: sr_cancel_def stopRelay_def)
  have "reach sr_init (sr_step cfg) ?st1" using assms(1) a by (intro reach_step [OF assms(1)] step_fire) simp
  then have "reach sr_init (sr_step cfg) ?st2"
    by (rule reach_step) (rule step_remove, use a assms(7) dn in \<open>simp_all add: 1\<close>)
  then have "reach sr_init (sr_step cfg) st'"
    unfolding assms(8) by (rule reach_step) (rule step_add, use assms(2) in \<open>simp add: sr_remove_def 1\<close>)
  moreover obtain tp g where f: "AddTunnel t (prTunnelPool ?p, sr_stats st) = (tp, g)" by fastforce
  have "st' = ?st2\<lparr>sr_pending := take i (sr_pending st) @ drop (Suc i) (sr_pending st),
      sr_peers := (sr_peers st)[a := ?p\<lparr>prTunnelPool := tp\<rparr>], sr_stats := g\<rparr>"
    using assms(3) f a by (simp add: assms(8) sr_add_def sr_on_pool_def sr_remove_def 1 Let_def)
  moreover have "tunnelMapping tp (tunnelID t) = Some t"
    using mapping_AddTunnel [of t "(prTunnelPool ?p, sr_stats st)"] by (simp add: f)
  ultimately show ?thesis using a dn by (simp add: sr_remove_def 1)
qed

theorem tunnel_stranded_witness:
  "\<exists>st'. reach sr_init (sr_step sample_config) st'
     \<and> tunnelMapping (prTunnelPool (sr_peers st' ! 0)) 12 = Some (sample_tunnel 12) \<and> prCtxDone (sr_peers st' ! 0)
     \<and> sr_map st' 5 = None"
proof -
  obtain sm where "tpManager (prTunnelPool (sr_peers sample_run ! 0)) = ServerM sm" "countdowns sm = [Counting]"
    using sample_run_state by blast
  with tunnel_stranded [OF sample_run_reach, of 0 "sample_tunnel 12" 0 sm 0] sample_run_state show ?thesis
    by (auto simp: sample_tunnel_New)
qed

end
