(* ===== verification/NetAddr.thy ===== *)
theory NetAddr
  imports Prelude
begin

text \<open>
  The parts of Go's \<open>net\<close>, \<open>strconv\<close> and \<open>strings\<close> packages that the command line and the
  SOCKS5 server use on addresses. A Go string is a sequence of bytes and a HOL \<open>char\<close> is a byte,
  so strings are kept as they are.
\<close>

section \<open>Bytes, digits\<close>

definition byte_char :: "byte \<Rightarrow> char" where
  "byte_char b = char_of (unat b)"

definition char_byte :: "char \<Rightarrow> byte" where
  "char_byte c = of_nat (of_char c)"

definition to_string :: "byte list \<Rightarrow> string" where
  "to_string bs = map byte_char bs"

definition of_string :: "string \<Rightarrow> byte list" where
  "of_string cs = map char_byte cs"

lemma char_byte_char [simp]: "char_byte (byte_char b) = b"
proof -
  have "unat b < 256" using unsigned_less [of b] by simp
  then show ?thesis by (simp add: char_byte_def byte_char_def of_char_of)
qed

lemma byte_char_byte [simp]: "byte_char (char_byte c) = c"
proof -
  have "of_char c < (256 :: nat)" by simp
  then have "unat (of_nat (of_char c) :: byte) = of_char c" by (simp add: unat_of_nat take_bit_nat_eq_self)
  then show ?thesis by (simp add: char_byte_def byte_char_def)
qed

lemma to_of_string [simp]: "to_string (of_string cs) = cs" "of_string (to_string bs) = bs"
  by (simp_all add: to_string_def of_string_def comp_def)

lemma to_string_inject [simp]: "to_string xs = to_string ys \<longleftrightarrow> xs = ys"
  by (metis to_of_string(2))

lemma length_to_string [simp]: "length (to_string bs) = length bs" "length (of_string cs) = length cs"
  by (simp_all add: to_string_def of_string_def)

definition digit :: "nat \<Rightarrow> char" where
  "digit n = (if n < 10 then char_of (48 + n) else char_of (87 + n))"

text \<open>Decimal (\<open>%d\<close>) and lower-case hexadecimal without leading zeros.\<close>
fun digits_in :: "nat \<Rightarrow> nat \<Rightarrow> string" where
  "digits_in base n = (if n < base \<or> base < 2 then [digit n] else digits_in base (n div base) @ [digit (n mod base)])"

declare digits_in.simps [simp del]

definition itoa :: "nat \<Rightarrow> string" where
  "itoa n = digits_in 10 n"

definition hex :: "nat \<Rightarrow> string" where
  "hex n = digits_in 16 n"

lemma digits_in_nonempty: "digits_in base n \<noteq> []"
  by (subst digits_in.simps) simp

lemma of_char_digit: "n < 16 \<Longrightarrow> (of_char (digit n) :: nat) = (if n < 10 then 48 + n else 87 + n)"
  by (simp add: digit_def of_char_of)

lemma digits_in_chars:
  assumes "2 \<le> base" "base \<le> 16" "c \<in> set (digits_in base n)"
  shows "\<exists>m<base. c = digit m"
  using assms
proof (induction base n rule: digits_in.induct)
  case (1 base n)
  show ?case
  proof (cases "n < base")
    case True
    with "1.prems" show ?thesis by (auto simp: digits_in.simps [of base n])
  next
    case False
    then have "c \<in> set (digits_in base (n div base)) \<or> c = digit (n mod base)"
      using "1.prems" by (auto simp: digits_in.simps [of base n])
    then show ?thesis
    proof
      assume "c = digit (n mod base)"
      moreover have "n mod base < base" using "1.prems"(1) by simp
      ultimately show ?thesis by blast
    qed (use 1 False in simp)
  qed
qed

text \<open>No digit is a separator.\<close>
lemma digit_not_sep:
  assumes "n < 16"
  shows "digit n \<noteq> CHR '':''" "digit n \<noteq> CHR ''['' " "digit n \<noteq> CHR '']''" "digit n \<noteq> CHR ''.''"
proof -
  have "(of_char (digit n) :: nat) \<notin> {58, 91, 93, 46}" using of_char_digit [OF assms] assms by auto
  then show "digit n \<noteq> CHR '':''" "digit n \<noteq> CHR ''[''" "digit n \<noteq> CHR '']''" "digit n \<noteq> CHR ''.''"
    by auto
qed

lemma itoa_not_sep: "CHR '':'' \<notin> set (itoa n)" "CHR ''['' \<notin> set (itoa n)" "CHR '']'' \<notin> set (itoa n)"
proof -
  have "\<exists>m<10. c = digit m" if "c \<in> set (itoa n)" for c
    using digits_in_chars [of 10 c n] that by (simp add: itoa_def)
  moreover have "m < 16" if "m < 10" for m :: nat using that by simp
  ultimately show "CHR '':'' \<notin> set (itoa n)" "CHR ''['' \<notin> set (itoa n)" "CHR '']'' \<notin> set (itoa n)"
    using digit_not_sep by metis+
qed

text \<open>The text form of an address (\<open>net.IP.String\<close>): four bytes in decimal.\<close>
definition ipv4_string :: "byte list \<Rightarrow> string" where
  "ipv4_string ip = itoa (unat (ip ! 0)) @ ''.'' @ itoa (unat (ip ! 1)) @ ''.'' @ itoa (unat (ip ! 2)) @ ''.'' @ itoa (unat (ip ! 3))"

section \<open>Searching\<close>

text \<open>\<open>IndexByte\<close> and \<open>LastIndexByte\<close>.\<close>
fun index_of :: "char \<Rightarrow> string \<Rightarrow> nat option" where
  "index_of c [] = None"
| "index_of c (x # xs) = (if x = c then Some 0 else map_option Suc (index_of c xs))"

definition last_index_of :: "char \<Rightarrow> string \<Rightarrow> nat option" where
  "last_index_of c s = map_option (\<lambda>i. length s - 1 - i) (index_of c (rev s))"

lemma index_of_None: "index_of c s = None \<longleftrightarrow> c \<notin> set s"
  by (induction s) auto

lemma index_of_Some: "index_of c s = Some i \<Longrightarrow> \<exists>p q. s = p @ c # q \<and> length p = i \<and> c \<notin> set p"
proof (induction s arbitrary: i)
  case (Cons x s)
  show ?case
  proof (cases "x = c")
    case True
    with Cons.prems show ?thesis by (intro exI [of _ "[]"] exI [of _ s]) auto
  next
    case False
    then obtain j where "index_of c s = Some j" "i = Suc j" using Cons.prems by auto
    with Cons.IH obtain p q where "s = p @ c # q" "length p = j" "c \<notin> set p" by blast
    with False \<open>i = Suc j\<close> show ?thesis by (intro exI [of _ "x # p"] exI [of _ q]) auto
  qed
qed simp

lemma index_of_append: "c \<notin> set p \<Longrightarrow> index_of c (p @ c # q) = Some (length p)"
  by (induction p) auto

lemma last_index_of_append:
  assumes "c \<notin> set q"
  shows "last_index_of c (p @ c # q) = Some (length p)"
proof -
  have "index_of c (rev q @ c # rev p) = Some (length q)" using assms index_of_append [of c "rev q" "rev p"] by simp
  then show ?thesis by (simp add: last_index_of_def)
qed

lemma last_index_of_None: "last_index_of c s = None \<longleftrightarrow> c \<notin> set s"
  by (simp add: last_index_of_def index_of_None)

section \<open>net.SplitHostPort\<close>

definition missingPort :: go_error where "missingPort = ErrMsg ''missing port in address''"
definition tooManyColons :: go_error where "tooManyColons = ErrMsg ''too many colons in address''"

definition SplitHostPort :: "string \<Rightarrow> (string \<times> string) result" where
  "SplitHostPort hp =
     (case last_index_of CHR '':'' hp of
        None \<Rightarrow> Inl missingPort
      | Some i \<Rightarrow>
          (let brackets =
             (if hp ! 0 = CHR ''[''
              then (case index_of CHR '']'' hp of
                      None \<Rightarrow> Inl (ErrMsg ''missing closing bracket in address'')
                    | Some end1 \<Rightarrow>
                        if end1 + 1 = length hp then Inl missingPort
                        else if end1 + 1 = i then Inr (take (end1 - 1) (drop 1 hp), 1, end1 + 1)
                        else if hp ! (end1 + 1) = CHR '':'' then Inl tooManyColons
                        else Inl missingPort)
              else if CHR '':'' \<in> set (take i hp) then Inl tooManyColons
              else Inr (take i hp, 0, 0))
           in case brackets of
                Inl e \<Rightarrow> Inl e
              | Inr (host, j, k) \<Rightarrow>
                  if CHR ''['' \<in> set (drop j hp) then Inl (ErrMsg ''unexpected opening bracket in address'')
                  else if CHR '']'' \<in> set (drop k hp) then Inl (ErrMsg ''unexpected closing bracket in address'')
                  else Inr (host, drop (i + 1) hp)))"

text \<open>A host without colons or brackets is found again; one with a colon is refused.\<close>
lemma SplitHostPort_plain:
  assumes "CHR '':'' \<notin> set host" "CHR ''['' \<notin> set host" "CHR '']'' \<notin> set host"
    and "CHR '':'' \<notin> set port" "CHR ''['' \<notin> set port" "CHR '']'' \<notin> set port"
  shows "SplitHostPort (host @ CHR '':'' # port) = Inr (host, port)"
proof -
  have "(host @ CHR '':'' # port) ! 0 \<noteq> CHR ''[''" using assms(2) by (cases host) auto
  with assms show ?thesis by (simp add: SplitHostPort_def last_index_of_append Let_def)
qed

lemma SplitHostPort_colons:
  assumes "CHR '':'' \<in> set host" "host ! 0 \<noteq> CHR ''[''" "CHR '':'' \<notin> set port"
  shows "SplitHostPort (host @ CHR '':'' # port) = Inl tooManyColons"
proof -
  have "(host @ CHR '':'' # port) ! 0 \<noteq> CHR ''[''" using assms(1,2) by (cases host) auto
  with assms show ?thesis by (simp add: SplitHostPort_def last_index_of_append Let_def)
qed

end
