(* ===== verification/Socks5.thy ===== *)
theory Socks5
  imports NetAddr SecureStream Peer Session
begin

text \<open>
  The client's front end, \<open>client/client.go\<close>: the SOCKS5 handshake with optional password
  authentication, the request, and the connection that is dialled for it, on which \<open>biRelay\<close>
  (in \<open>Session\<close>) then runs.
  The application's TCP connection is the bytes it will still send and a sink for the answers.
  URL parsing is a parameter (\<open>net/url\<close>).
\<close>

section \<open>Constants\<close>

definition Socks5Version :: u8 where [simp]: "Socks5Version = 5"
definition Socks5AuthNone :: u8 where [simp]: "Socks5AuthNone = 0"
definition Socks5AuthPassword :: u8 where [simp]: "Socks5AuthPassword = 2"
definition Socks5AuthNoAcceptable :: u8 where [simp]: "Socks5AuthNoAcceptable = 0xFF"
definition Socks5CmdConnect :: u8 where [simp]: "Socks5CmdConnect = 1"
definition Socks5AddrTypeIPv4 :: u8 where [simp]: "Socks5AddrTypeIPv4 = 1"
definition Socks5AddrTypeDomain :: u8 where [simp]: "Socks5AddrTypeDomain = 3"
definition Socks5AddrTypeIPv6 :: u8 where [simp]: "Socks5AddrTypeIPv6 = 4"
definition Socks5ReplySuccess :: u8 where [simp]: "Socks5ReplySuccess = 0"
definition Socks5ReplyCommandNotSupported :: u8 where [simp]: "Socks5ReplyCommandNotSupported = 7"
definition Socks5ReplyAddressTypeNotSupported :: u8 where [simp]: "Socks5ReplyAddressTypeNotSupported = 8"
definition Socks5AuthPasswordVer :: u8 where [simp]: "Socks5AuthPasswordVer = 1"
definition Socks5AuthStatusSuccess :: u8 where [simp]: "Socks5AuthStatusSuccess = 0"
definition Socks5AuthStatusFailure :: u8 where [simp]: "Socks5AuthStatusFailure = 1"

section \<open>Handshake\<close>

record Socks5Auth =
  Username :: string
  Password :: string

text \<open>\<open>io.ReadFull\<close> on the application's connection; a failed read has consumed what was there.\<close>
definition app_read :: "nat \<Rightarrow> net_conn \<Rightarrow> byte list result \<times> net_conn" where
  "app_read n c =
     (case ReadFull n (cin c) of Inl e \<Rightarrow> (Inl e, c\<lparr>cin := []\<rparr>) | Inr (xs, rest) \<Rightarrow> (Inr xs, c\<lparr>cin := rest\<rparr>))"

definition app_write :: "byte list \<Rightarrow> net_conn \<Rightarrow> go_error option \<times> net_conn" where
  "app_write b c = (let ((_, e), s) = sink_write b (cout c) in (e, c\<lparr>cout := s\<rparr>))"

definition performPasswordAuth :: "Socks5Auth option \<Rightarrow> net_conn \<Rightarrow> go_error option \<times> net_conn" where
  "performPasswordAuth auth c =
     (case auth of
        None \<Rightarrow> (Some (ErrMsg ''auth info is nil''), c)
      | Some a \<Rightarrow>
          (case app_read 2 c of
             (Inl e, c1) \<Rightarrow> (Some e, c1)
           | (Inr hdr, c1) \<Rightarrow>
               if hdr ! 0 \<noteq> Socks5AuthPasswordVer then (Some (ErrMsg ''unsupported auth version''), c1)
               else (case app_read (unat (hdr ! 1)) c1 of
                       (Inl e, c2) \<Rightarrow> (Some e, c2)
                     | (Inr user, c2) \<Rightarrow>
                         (case app_read 1 c2 of
                            (Inl e, c3) \<Rightarrow> (Some e, c3)
                          | (Inr plen, c3) \<Rightarrow>
                              (case app_read (unat (plen ! 0)) c3 of
                                 (Inl e, c4) \<Rightarrow> (Some e, c4)
                               | (Inr pass, c4) \<Rightarrow>
                                   if to_string user = Username a \<and> to_string pass = Password a
                                   then (None, snd (app_write [Socks5AuthPasswordVer, Socks5AuthStatusSuccess] c4))
                                   else (Some (ErrMsg ''invalid username or password''),
                                         snd (app_write [Socks5AuthPasswordVer, Socks5AuthStatusFailure] c4)))))))"

definition socks5Handshake :: "Socks5Auth option \<Rightarrow> net_conn \<Rightarrow> go_error option \<times> net_conn" where
  "socks5Handshake auth c =
     (case app_read 2 c of
        (Inl e, c1) \<Rightarrow> (Some e, c1)
      | (Inr hdr, c1) \<Rightarrow>
          if hdr ! 0 \<noteq> Socks5Version then (Some (ErrMsg ''unsupported SOCKS version''), c1)
          else (case app_read (unat (hdr ! 1)) c1 of
                  (Inl e, c2) \<Rightarrow> (Some e, c2)
                | (Inr methods, c2) \<Rightarrow>
                    if auth \<noteq> None
                    then (if Socks5AuthPassword \<in> set methods
                          then performPasswordAuth auth (snd (app_write [Socks5Version, Socks5AuthPassword] c2))
                          else (Some (ErrMsg ''client does not support password authentication''),
                                snd (app_write [Socks5Version, Socks5AuthNoAcceptable] c2)))
                    else (if Socks5AuthNone \<in> set methods
                          then (None, snd (app_write [Socks5Version, Socks5AuthNone] c2))
                          else (Some (ErrMsg ''client does not support no authentication''),
                                snd (app_write [Socks5Version, Socks5AuthNoAcceptable] c2)))))"

section \<open>Request\<close>

definition hextets :: "byte list \<Rightarrow> nat list" where
  "hextets ip = map (\<lambda>i. unat (ip ! (2 * i)) * 256 + unat (ip ! (2 * i + 1))) [0..<8]"

text \<open>The first longest run of at least two zero groups, as start and end.\<close>
definition zero_run :: "nat list \<Rightarrow> nat \<Rightarrow> nat" where
  "zero_run hs i = length (takeWhile (\<lambda>h. h = 0) (drop i hs))"

definition longest_zero_run :: "nat list \<Rightarrow> (nat \<times> nat) option" where
  "longest_zero_run hs =
     fold (\<lambda>i best. let l = zero_run hs i in
             if 2 \<le> l \<and> (case best of None \<Rightarrow> True | Some (s, e) \<Rightarrow> e - s < l) then Some (i, i + l) else best)
       [0..<8] None"

fun join_colon :: "string list \<Rightarrow> string" where
  "join_colon [] = []"
| "join_colon [x] = x"
| "join_colon (x # xs) = x @ '':'' @ join_colon xs"

definition ipv6_string :: "byte list \<Rightarrow> string" where
  "ipv6_string ip =
     (let hs = hextets ip in
      case longest_zero_run hs of
        None \<Rightarrow> join_colon (map hex hs)
      | Some (s, e) \<Rightarrow> join_colon (map hex (take s hs)) @ ''::'' @ join_colon (map hex (drop e hs)))"

text \<open>An IPv4 address in IPv6 form is printed as IPv4.\<close>
definition ip16_string :: "byte list \<Rightarrow> string" where
  "ip16_string ip =
     (if take 12 ip = replicate 10 0 @ [0xFF, 0xFF] then ipv4_string (drop 12 ip) else ipv6_string ip)"

definition sendSocks5Reply :: "u8 \<Rightarrow> net_conn \<Rightarrow> go_error option \<times> net_conn" where
  "sendSocks5Reply reply c = app_write [Socks5Version, reply, 0, Socks5AddrTypeIPv4, 0, 0, 0, 0, 0, 0] c"

text \<open>The host of the request, by address type.\<close>
definition read_host :: "u8 \<Rightarrow> net_conn \<Rightarrow> string result \<times> net_conn" where
  "read_host atyp c =
     (if atyp = Socks5AddrTypeIPv4
      then (case app_read 4 c of (Inl e, c1) \<Rightarrow> (Inl e, c1) | (Inr ip, c1) \<Rightarrow> (Inr (ipv4_string ip), c1))
      else if atyp = Socks5AddrTypeDomain
      then (case app_read 1 c of
              (Inl e, c1) \<Rightarrow> (Inl e, c1)
            | (Inr n, c1) \<Rightarrow>
                (case app_read (unat (n ! 0)) c1 of
                   (Inl e, c2) \<Rightarrow> (Inl e, c2) | (Inr domain, c2) \<Rightarrow> (Inr (to_string domain), c2)))
      else if atyp = Socks5AddrTypeIPv6
      then (case app_read 16 c of (Inl e, c1) \<Rightarrow> (Inl e, c1) | (Inr ip, c1) \<Rightarrow> (Inr (ip16_string ip), c1))
      else (Inl (ErrMsg ''unsupported address type''), snd (sendSocks5Reply Socks5ReplyAddressTypeNotSupported c)))"

definition socks5ProcessRequest :: "net_conn \<Rightarrow> string result \<times> net_conn" where
  "socks5ProcessRequest c =
     (case app_read 4 c of
        (Inl e, c1) \<Rightarrow> (Inl e, c1)
      | (Inr buf, c1) \<Rightarrow>
          if buf ! 0 \<noteq> Socks5Version then (Inl (ErrMsg ''unsupported SOCKS version''), c1)
          else if buf ! 1 \<noteq> Socks5CmdConnect
          then (Inl (ErrMsg ''unsupported command''), snd (sendSocks5Reply Socks5ReplyCommandNotSupported c1))
          else (case read_host (buf ! 3) c1 of
                  (Inl e, c2) \<Rightarrow> (Inl e, c2)
                | (Inr host, c2) \<Rightarrow>
                    (case app_read 2 c2 of
                       (Inl e, c3) \<Rightarrow> (Inl e, c3)
                     | (Inr pb, c3) \<Rightarrow>
                         (let port = (push_bit 8 (unat (pb ! 0)) OR unat (pb ! 1));
                              target = host @ '':'' @ itoa port
                          in case sendSocks5Reply Socks5ReplySuccess c3 of
                               (Some e, c4) \<Rightarrow> (Inl e, c4)
                             | (None, c4) \<Rightarrow> (Inr target, c4)))))"

section \<open>Serving\<close>

text \<open>
  \<open>parseSocks5URL\<close>; \<open>url_Parse\<close> gives the host and, if present, the user and password of a URL.
\<close>
definition parseSocks5URL ::
  "(string \<Rightarrow> (string \<times> (string \<times> string) option) result) \<Rightarrow> string \<Rightarrow> (string \<times> string \<times> string \<times> bool) result" where
  "parseSocks5URL url_Parse addr =
     (if take 9 addr \<noteq> ''socks5://'' then Inr (addr, '''', '''', False)
      else case url_Parse addr of
        Inl e \<Rightarrow> Inl e
      | Inr (host, None) \<Rightarrow> Inr (host, '''', '''', False)
      | Inr (host, Some (user, pass)) \<Rightarrow> Inr (host, user, pass, True))"

text \<open>The authentication a connection accepted by \<open>ServeForwardSocks5\<close> is asked for.\<close>
definition auth_info :: "string \<times> string \<times> string \<times> bool \<Rightarrow> Socks5Auth option" where
  "auth_info p = (let (listenAddr, username, password, requireAuth) = p
     in if requireAuth then Some \<lparr>Username = username, Password = password\<rparr> else None)"

text \<open>The first two stages of \<open>handleSocks5Client\<close>: the target that is then dialled.\<close>
definition socks5_target :: "Socks5Auth option \<Rightarrow> net_conn \<Rightarrow> string result \<times> net_conn" where
  "socks5_target auth c =
     (case socks5Handshake auth c of (Some e, c1) \<Rightarrow> (Inl e, c1) | (None, c1) \<Rightarrow> socks5ProcessRequest c1)"

text \<open>The session that \<open>biRelay\<close> runs for an application that has passed both stages.\<close>
definition handleSocks5Client ::
  "conn_config \<Rightarrow> i64 \<Rightarrow> u32 \<Rightarrow> Socks5Auth option \<Rightarrow> net_conn \<Rightarrow> Peer \<Rightarrow> stats_pair
    \<Rightarrow> (go_error + session) \<times> net_conn \<times> Peer \<times> stats_pair" where
  "handleSocks5Client cfg now cid auth c p g =
     (case socks5_target auth c of
        (Inl e, c1) \<Rightarrow> (Inl e, c1, p, g)
      | (Inr target, c1) \<Rightarrow>
          (let (conn, p1, g1) = Dial cfg now cid (of_string target) p g in (Inr (start_session conn), c1, p1, g1)))"

section \<open>Lemmas\<close>

lemma app_read_Inr:
  "app_read n c = (Inr xs, c') \<longleftrightarrow> length xs = n \<and> cin c = xs @ cin c' \<and> c' = c\<lparr>cin := cin c'\<rparr>"
proof
  assume "app_read n c = (Inr xs, c')"
  then obtain rest where r: "ReadFull n (cin c) = Inr (xs, rest)" "c' = c\<lparr>cin := rest\<rparr>"
    by (auto simp: app_read_def split: sum.splits)
  from ReadFull_InrD [OF r(1)] r(2) show "length xs = n \<and> cin c = xs @ cin c' \<and> c' = c\<lparr>cin := cin c'\<rparr>"
    by simp
next
  assume a: "length xs = n \<and> cin c = xs @ cin c' \<and> c' = c\<lparr>cin := cin c'\<rparr>"
  then have "ReadFull n (cin c) = Inr (xs, cin c')" by simp
  with a show "app_read n c = (Inr xs, c')" by (simp add: app_read_def)
qed

lemma app_read_ok: "length xs = n \<Longrightarrow> cin c = xs @ rest \<Longrightarrow> app_read n c = (Inr xs, c\<lparr>cin := rest\<rparr>)"
  by (simp add: app_read_Inr)

lemma cin_app_write [simp]: "cin (snd (app_write b c)) = cin c"
  by (simp add: app_write_def case_prod_beta Let_def)

lemma app_write_ok:
  assumes "sscript (cout c) = []"
  shows "app_write b c = (None, c\<lparr>cout := (cout c)\<lparr>slog := slog (cout c) @ b\<rparr>\<rparr>)"
  using assms by (simp add: app_write_def sink_write_def)

text \<open>The port, high byte first.\<close>
lemma be16: "push_bit 8 (unat (hi :: byte)) OR unat (lo :: byte) = unat hi * 256 + unat lo"
proof -
  have "take_bit 8 (unat lo) = unat lo" using unat_byte_less [of lo] by (simp add: take_bit_nat_eq_self)
  then have "bit (unat lo) n \<Longrightarrow> n < 8" for n by (metis bit_take_bit_iff)
  then have "push_bit 8 (unat hi) + unat lo = push_bit 8 (unat hi) OR unat lo"
    by (intro disjunctive_add) (auto simp: bit_push_bit_iff_nat not_le)
  then show ?thesis by (simp add: push_bit_eq_mult)
qed

lemma two_bytes: "length xs = 2 \<longleftrightarrow> (\<exists>a b. xs = [a, b])" "length xs = Suc 0 \<longleftrightarrow> (\<exists>a. xs = [a])"
  by (auto simp: numeral_2_eq_2 length_Suc_conv)

text \<open>Password authentication succeeds exactly on the right credentials.\<close>
lemma performPasswordAuth_iff:
  "fst (performPasswordAuth (Some a) c) = None \<longleftrightarrow>
    (\<exists>k user m pass rest. cin c = [1, k] @ user @ [m] @ pass @ rest \<and> unat k = length user \<and> unat m = length pass
       \<and> to_string user = Username a \<and> to_string pass = Password a)"
  (is "?L \<longleftrightarrow> ?R")
proof
  assume ?L
  then obtain hdr c1 user c2 plen c3 pass c4 where
    "app_read 2 c = (Inr hdr, c1)" "hdr ! 0 = 1" "app_read (unat (hdr ! 1)) c1 = (Inr user, c2)"
    "app_read 1 c2 = (Inr plen, c3)" "app_read (unat (plen ! 0)) c3 = (Inr pass, c4)"
    "to_string user = Username a" "to_string pass = Password a"
    by (auto simp: performPasswordAuth_def split: prod.splits sum.splits if_splits)
  then obtain k m where "cin c = [1, k] @ user @ [m] @ pass @ cin c4" "unat k = length user" "unat m = length pass"
    "to_string user = Username a" "to_string pass = Password a"
    by (auto simp: app_read_Inr two_bytes)
  then show ?R by blast
next
  assume ?R
  then obtain k user m pass rest where r: "cin c = [1, k] @ user @ [m] @ pass @ rest"
    "unat k = length user" "unat m = length pass" "to_string user = Username a" "to_string pass = Password a"
    by blast
  have "app_read 2 c = (Inr [1, k], c\<lparr>cin := user @ [m] @ pass @ rest\<rparr>)"
    using r(1) by (intro app_read_ok) simp_all
  moreover have "app_read (unat k) (c\<lparr>cin := user @ [m] @ pass @ rest\<rparr>) = (Inr user, c\<lparr>cin := [m] @ pass @ rest\<rparr>)"
    using r(2) by (simp add: app_read_ok)
  moreover have "app_read 1 (c\<lparr>cin := [m] @ pass @ rest\<rparr>) = (Inr [m], c\<lparr>cin := pass @ rest\<rparr>)"
    by (simp add: app_read_Inr)
  moreover have "app_read (unat m) (c\<lparr>cin := pass @ rest\<rparr>) = (Inr pass, c\<lparr>cin := rest\<rparr>)"
    using r(3) by (simp add: app_read_ok)
  ultimately show ?L using r(4,5) by (simp add: performPasswordAuth_def)
qed

lemma join_colon_has: "2 \<le> length xs \<Longrightarrow> CHR '':'' \<in> set (join_colon xs)"
  by (cases xs rule: join_colon.cases) auto

lemma hd_join_colon: "xs \<noteq> [] \<Longrightarrow> hd xs \<noteq> [] \<Longrightarrow> join_colon xs \<noteq> [] \<and> hd (join_colon xs) = hd (hd xs)"
  by (cases xs rule: join_colon.cases) auto

lemma hex_hd: "hex n \<noteq> [] \<and> hd (hex n) \<noteq> CHR ''[''"
proof -
  have ne: "hex n \<noteq> []" by (simp add: hex_def digits_in_nonempty)
  then have "hd (hex n) \<in> set (hex n)" by simp
  then obtain m where "m < 16" "hd (hex n) = digit m" using digits_in_chars [of 16 "hd (hex n)" n] by (auto simp: hex_def)
  with digit_not_sep ne show ?thesis by simp
qed

text \<open>An IPv6 text has a colon and does not start with a bracket.\<close>
lemma ipv6_string_colon: "CHR '':'' \<in> set (ipv6_string ip) \<and> ipv6_string ip ! 0 \<noteq> CHR ''[''"
proof (cases "longest_zero_run (hextets ip)")
  case None
  have l: "length (hextets ip) = 8" by (simp add: hextets_def)
  then have ne: "hextets ip \<noteq> []" by auto
  then have "hd (join_colon (map hex (hextets ip))) \<noteq> CHR ''['' \<and> join_colon (map hex (hextets ip)) \<noteq> []"
    using hd_join_colon [of "map hex (hextets ip)"] hex_hd by (simp add: hd_map)
  moreover from this have "join_colon (map hex (hextets ip)) ! 0 = hd (join_colon (map hex (hextets ip)))"
    by (simp add: hd_conv_nth)
  ultimately show ?thesis
    using None l join_colon_has [of "map hex (hextets ip)"] by (simp add: ipv6_string_def)
next
  case (Some se)
  obtain s e where se: "se = (s, e)" by (cases se)
  show ?thesis
  proof (cases "take s (hextets ip) = []")
    case False
    then have "hd (join_colon (map hex (take s (hextets ip)))) \<noteq> CHR ''[''" "join_colon (map hex (take s (hextets ip))) \<noteq> []"
      using hd_join_colon [of "map hex (take s (hextets ip))"] hex_hd by (simp_all add: hd_map)
    with Some se show ?thesis by (simp add: ipv6_string_def hd_conv_nth nth_append Let_def)
  next
    case True
    then have "join_colon (map hex (take s (hextets ip))) = []" by (simp only: list.map join_colon.simps)
    with Some se show ?thesis by (simp add: ipv6_string_def Let_def)
  qed
qed

section \<open>Properties\<close>

text \<open>
  C14. With a password configured, nobody gets past the handshake without it: the handshake
  succeeds exactly when the client offers password authentication and then sends the configured
  user name and password, in the format of the protocol.
\<close>
theorem socks5_auth_iff:
  "fst (socks5Handshake (Some a) c) = None \<longleftrightarrow>
    (\<exists>n methods k user m pass rest.
       cin c = [5, n] @ methods @ [1, k] @ user @ [m] @ pass @ rest
     \<and> unat n = length methods \<and> 2 \<in> set methods \<and> unat k = length user \<and> unat m = length pass
     \<and> to_string user = Username a \<and> to_string pass = Password a)"
  (is "?L \<longleftrightarrow> ?R")
proof
  assume ?L
  then obtain hdr c1 methods c2 where h:
    "app_read 2 c = (Inr hdr, c1)" "hdr ! 0 = 5" "app_read (unat (hdr ! 1)) c1 = (Inr methods, c2)" "2 \<in> set methods"
    "fst (performPasswordAuth (Some a) (snd (app_write [5, 2] c2))) = None"
    by (auto simp: socks5Handshake_def split: prod.splits sum.splits if_splits)
  from h(5) obtain k user m pass rest where p: "cin c2 = [1, k] @ user @ [m] @ pass @ rest"
    "unat k = length user" "unat m = length pass" "to_string user = Username a" "to_string pass = Password a"
    unfolding performPasswordAuth_iff cin_app_write by blast
  from h(1-3) obtain n where "cin c = [5, n] @ methods @ cin c2" "unat n = length methods"
    by (auto simp: app_read_Inr two_bytes)
  then have "cin c = [5, n] @ methods @ [1, k] @ user @ [m] @ pass @ rest" using p(1) by simp
  with p(2-5) h(4) \<open>unat n = length methods\<close> show ?R by blast
next
  assume ?R
  then obtain n methods k user m pass rest where r:
    "cin c = [5, n] @ methods @ [1, k] @ user @ [m] @ pass @ rest" "unat n = length methods" "2 \<in> set methods"
    "unat k = length user" "unat m = length pass" "to_string user = Username a" "to_string pass = Password a"
    by blast
  let ?rest = "[1, k] @ user @ [m] @ pass @ rest"
  have "app_read 2 c = (Inr [5, n], c\<lparr>cin := methods @ ?rest\<rparr>)"
    using r(1) by (intro app_read_ok) simp_all
  moreover have "app_read (unat n) (c\<lparr>cin := methods @ ?rest\<rparr>) = (Inr methods, c\<lparr>cin := ?rest\<rparr>)"
    using r(2) by (simp add: app_read_ok)
  moreover have "fst (performPasswordAuth (Some a) (snd (app_write [5, 2] (c\<lparr>cin := ?rest\<rparr>)))) = None"
    unfolding performPasswordAuth_iff cin_app_write using r(4-7) by auto
  ultimately show ?L using r(3) by (simp add: socks5Handshake_def)
qed

text \<open>
  C34. A connect request for a host name is understood as sent: whatever the name and the port, the
  target is the name and the port in decimal, the success reply is sent, and the bytes that
  follow the request stay unread. A name without colons and brackets gives a target that splits
  into that name and port again.
\<close>
theorem socks5_domain_request:
  assumes "cin c = [5, 1, rsv, 3, n] @ name @ [hi, lo] @ rest" "unat n = length name" "sscript (cout c) = []"
  shows "\<exists>c'. socks5ProcessRequest c
      = (Inr (to_string name @ '':'' @ itoa (unat hi * 256 + unat lo)), c')
    \<and> cin c' = rest \<and> slog (cout c') = slog (cout c) @ [5, 0, 0, 1, 0, 0, 0, 0, 0, 0]
    \<and> (set (to_string name) \<inter> {CHR '':'', CHR ''['', CHR '']''} = {} \<longrightarrow>
        SplitHostPort (to_string name @ '':'' @ itoa (unat hi * 256 + unat lo))
        = Inr (to_string name, itoa (unat hi * 256 + unat lo)))"
proof -
  let ?c1 = "c\<lparr>cin := [n] @ name @ [hi, lo] @ rest\<rparr>"
  have r: "app_read 4 c = (Inr [5, 1, rsv, 3], ?c1)"
    using assms(1) by (intro app_read_ok) simp_all
  have "app_read 1 ?c1 = (Inr [n], c\<lparr>cin := name @ [hi, lo] @ rest\<rparr>)" by (simp add: app_read_Inr)
  moreover have "app_read (unat n) (c\<lparr>cin := name @ [hi, lo] @ rest\<rparr>) = (Inr name, c\<lparr>cin := [hi, lo] @ rest\<rparr>)"
    using assms(2) by (simp add: app_read_ok)
  ultimately have h: "read_host 3 ?c1 = (Inr (to_string name), c\<lparr>cin := [hi, lo] @ rest\<rparr>)"
    by (simp add: read_host_def)
  have p: "app_read 2 (c\<lparr>cin := [hi, lo] @ rest\<rparr>) = (Inr [hi, lo], c\<lparr>cin := rest\<rparr>)" by (simp add: app_read_Inr)
  show ?thesis
    using r h p assms(3) SplitHostPort_plain [of "to_string name" "itoa (unat hi * 256 + unat lo)"] itoa_not_sep
    by (auto simp: socks5ProcessRequest_def sendSocks5Reply_def app_write_ok be16 Let_def)
qed

theorem socks5_domain_request_witness:
  "\<exists>c'. socks5ProcessRequest \<lparr>cin = [5, 1, 0, 3, 2] @ [97, 98] @ [1, 187] @ [7], cout = \<lparr>slog = [], sscript = []\<rparr>\<rparr>
     = (Inr (to_string [97, 98] @ '':'' @ itoa 443), c') \<and> cin c' = [7]"
  using socks5_domain_request [of "\<lparr>cin = [5, 1, 0, 3, 2] @ [97, 98] @ [1, 187] @ [7], cout = \<lparr>slog = [], sscript = []\<rparr>\<rparr>"
      0 2 "[97, 98]" 1 187 "[7]"]
  by auto



text \<open>The text of the loopback address, as a check of the formatting.\<close>
lemma ipv6_loopback: "ip16_string (replicate 15 0 @ [1]) = ''::1''"
  by code_simp

text \<open>Without a configured password the URL form decides: no user part, no authentication.\<close>
lemma auth_info_none:
  "take 9 addr \<noteq> ''socks5://'' \<Longrightarrow> map_sum id auth_info (parseSocks5URL url_Parse addr) = Inr None"
  by (simp add: parseSocks5URL_def auth_info_def)

end
