(* ===== verification/NetIP.thy ===== *)
theory NetIP
  imports NetAddr
begin

text \<open>
  The parts of Go's \<open>net\<close> and \<open>net/netip\<close> packages that the access control list of the status
  server uses: parsing of addresses and of networks in CIDR notation, and membership. Addresses are
  lists of 4 or 16 bytes, in network order. The error texts are not modelled.
\<close>

section \<open>Parsing addresses (netip.ParseAddr)\<close>

definition dec_val :: "char \<Rightarrow> nat option" where
  "dec_val c = (let v = of_char c in if 48 \<le> v \<and> v \<le> 57 then Some (v - 48) else None)"

definition hex_val :: "char \<Rightarrow> nat option" where
  "hex_val c = (let v = of_char c in
     if 48 \<le> v \<and> v \<le> 57 then Some (v - 48)
     else if 97 \<le> v \<and> v \<le> 102 then Some (v - 87)
     else if 65 \<le> v \<and> v \<le> 70 then Some (v - 55) else None)"

text \<open>
  \<open>parseIPv4Fields\<close>: the value and number of digits of the current field, and the fields before
  it. A dot needs a digit before it and a character after it.
\<close>
fun v4_fields :: "nat \<Rightarrow> nat \<Rightarrow> byte list \<Rightarrow> string \<Rightarrow> byte list option" where
  "v4_fields val digLen fs [] = (if length fs < 3 then None else Some (fs @ [of_nat val]))"
| "v4_fields val digLen fs (c # cs) =
     (case dec_val c of
        Some d \<Rightarrow>
          if digLen = 1 \<and> val = 0 then None
          else if val * 10 + d > 255 then None
          else v4_fields (val * 10 + d) (Suc digLen) fs cs
      | None \<Rightarrow>
          if c = CHR ''.''
          then (if digLen = 0 \<or> cs = [] then None
                else if length fs = 3 then None
                else v4_fields 0 0 (fs @ [of_nat val]) cs)
          else None)"

definition parseIPv4 :: "string \<Rightarrow> byte list option" where
  "parseIPv4 s = v4_fields 0 0 [] s"

text \<open>One group of hexadecimal digits: the number of digits, the value, the rest of the string.\<close>
fun hex_run :: "nat \<Rightarrow> nat \<Rightarrow> string \<Rightarrow> (nat \<times> nat \<times> string) option" where
  "hex_run off acc [] = Some (off, acc, [])"
| "hex_run off acc (c # cs) =
     (case hex_val c of
        None \<Rightarrow> Some (off, acc, c # cs)
      | Some d \<Rightarrow>
          if off > 3 \<or> acc * 16 + d > 65535 then None else hex_run (Suc off) (acc * 16 + d) cs)"

text \<open>The loop of \<open>parseIPv6\<close>, at most eight groups: the bytes so far and the place of the ellipsis.\<close>
fun v6_groups :: "nat \<Rightarrow> nat option \<Rightarrow> byte list \<Rightarrow> string \<Rightarrow> (byte list \<times> nat option \<times> string) option" where
  "v6_groups 0 ellipsis ip s = Some (ip, ellipsis, s)"
| "v6_groups (Suc k) ellipsis ip s =
     (case hex_run 0 0 s of
        None \<Rightarrow> None
      | Some (off, acc, s1) \<Rightarrow>
          if off = 0 then None
          else if s1 \<noteq> [] \<and> hd s1 = CHR ''.''
          then (if ellipsis = None \<and> length ip \<noteq> 12 then None
                else if length ip + 4 > 16 then None
                else map_option (\<lambda>f. (ip @ f, ellipsis, [])) (v4_fields 0 0 [] s))
          else (let ip1 = ip @ [of_nat (acc div 256), of_nat (acc mod 256)] in
                case s1 of
                  [] \<Rightarrow> Some (ip1, ellipsis, [])
                | c # s2 \<Rightarrow>
                    if c \<noteq> CHR '':'' \<or> s2 = [] then None
                    else if hd s2 = CHR '':''
                    then (if ellipsis \<noteq> None then None
                          else if tl s2 = [] then Some (ip1, Some (length ip1), [])
                          else v6_groups k (Some (length ip1)) ip1 (tl s2))
                    else v6_groups k ellipsis ip1 s2))"

text \<open>\<open>parseIPv6\<close>: the sixteen bytes and the zone.\<close>
definition parseIPv6 :: "string \<Rightarrow> (byte list \<times> string) option" where
  "parseIPv6 inp =
     (let (s, zone, zone_ok) =
            (case index_of CHR ''%'' inp of
               None \<Rightarrow> (inp, [], True) | Some i \<Rightarrow> (take i inp, drop (Suc i) inp, drop (Suc i) inp \<noteq> []));
          lead = (take 2 s = ''::'');
          s1 = (if lead then drop 2 s else s)
      in if \<not> zone_ok then None
         else if lead \<and> s1 = [] then Some (replicate 16 0, zone)
         else case v6_groups 8 (if lead then Some 0 else None) [] s1 of
                None \<Rightarrow> None
              | Some (ip, ellipsis, rest) \<Rightarrow>
                  if rest \<noteq> [] then None
                  else if length ip < 16
                  then (case ellipsis of
                          None \<Rightarrow> None
                        | Some e \<Rightarrow> Some (take e ip @ replicate (16 - length ip) 0 @ drop e ip, zone))
                  else if ellipsis \<noteq> None then None
                  else Some (ip, zone))"

datatype addr = AddrV4 "byte list" | AddrV6 "byte list" string

text \<open>The first separator decides which form is parsed.\<close>
definition ParseAddr :: "string \<Rightarrow> addr option" where
  "ParseAddr s =
     (case dropWhile (\<lambda>c. c \<noteq> CHR ''.'' \<and> c \<noteq> CHR '':'' \<and> c \<noteq> CHR ''%'') s of
        [] \<Rightarrow> None
      | c # _ \<Rightarrow>
          if c = CHR ''.'' then map_option AddrV4 (parseIPv4 s)
          else if c = CHR '':'' then map_option (\<lambda>(ip, zone). AddrV6 ip zone) (parseIPv6 s)
          else None)"

fun Zone :: "addr \<Rightarrow> string" where
  "Zone (AddrV4 ip) = []"
| "Zone (AddrV6 ip zone) = zone"

fun BitLen :: "addr \<Rightarrow> nat" where
  "BitLen (AddrV4 ip) = 32"
| "BitLen (AddrV6 ip zone) = 128"

definition v4InV6Prefix :: "byte list" where
  "v4InV6Prefix = replicate 10 0 @ [0xFF, 0xFF]"

fun As16 :: "addr \<Rightarrow> byte list" where
  "As16 (AddrV4 ip) = v4InV6Prefix @ ip"
| "As16 (AddrV6 ip zone) = ip"

section \<open>Addresses and networks (net.ParseIP, net.ParseCIDR, IPNet.Contains)\<close>

definition ParseIP :: "string \<Rightarrow> byte list option" where
  "ParseIP s = (case ParseAddr s of None \<Rightarrow> None | Some a \<Rightarrow> if Zone a \<noteq> [] then None else Some (As16 a))"

definition To4 :: "byte list \<Rightarrow> byte list option" where
  "To4 ip = (if length ip = 4 then Some ip
             else if length ip = 16 \<and> take 12 ip = v4InV6Prefix then Some (drop 12 ip) else None)"

fun CIDRMask :: "nat \<Rightarrow> nat \<Rightarrow> byte list" where
  "CIDRMask 0 n = []"
| "CIDRMask (Suc l) n =
     (if n \<ge> 8 then 0xFF # CIDRMask l (n - 8) else NOT (drop_bit n 0xFF) # CIDRMask l 0)"

definition masked :: "byte list \<Rightarrow> byte list \<Rightarrow> byte list" where
  "masked ip m = map2 (AND) ip m"

text \<open>\<open>IP.Mask\<close>; \<open>None\<close> is the nil address.\<close>
definition Mask :: "byte list \<Rightarrow> byte list \<Rightarrow> byte list option" where
  "Mask m ip =
     (let m1 = (if length m = 16 \<and> length ip = 4 \<and> take 12 m = replicate 12 0xFF then drop 12 m else m);
          ip1 = (if length m1 = 4 \<and> length ip = 16 \<and> take 12 ip = v4InV6Prefix then drop 12 ip else ip)
      in if length ip1 \<noteq> length m1 then None else Some (masked ip1 m1))"

record IPNet =
  netIP :: "byte list option"
  netMask :: "byte list"

text \<open>The decimal number at the start of a string: its value, its length, whether it is one.\<close>
fun dtoi :: "nat \<Rightarrow> nat \<Rightarrow> string \<Rightarrow> nat \<times> nat \<times> bool" where
  "dtoi n i [] = (n, i, i \<noteq> 0)"
| "dtoi n i (c # cs) =
     (case dec_val c of
        None \<Rightarrow> (n, i, i \<noteq> 0)
      | Some d \<Rightarrow> if n * 10 + d \<ge> 0xFFFFFF then (0xFFFFFF, i, False) else dtoi (n * 10 + d) (Suc i) cs)"

definition ParseCIDR :: "string \<Rightarrow> IPNet option" where
  "ParseCIDR s =
     (case index_of CHR ''/'' s of
        None \<Rightarrow> None
      | Some k \<Rightarrow>
          (case ParseAddr (take k s) of
             None \<Rightarrow> None
           | Some a \<Rightarrow>
               (let msk = drop (Suc k) s; (n, i, ok) = dtoi 0 0 msk
                in if Zone a \<noteq> [] \<or> \<not> ok \<or> i \<noteq> length msk \<or> n > BitLen a then None
                   else (let m = CIDRMask (BitLen a div 8) n
                         in Some \<lparr>netIP = Mask m (As16 a), netMask = m\<rparr>))))"

definition networkNumberAndMask :: "IPNet \<Rightarrow> (byte list \<times> byte list) option" where
  "networkNumberAndMask n =
     (case netIP n of
        None \<Rightarrow> None
      | Some ip0 \<Rightarrow>
          (let ip = (case To4 ip0 of Some x \<Rightarrow> x | None \<Rightarrow> ip0); m = netMask n
           in if To4 ip0 = None \<and> length ip0 \<noteq> 16 then None
              else if length m = 4 then (if length ip \<noteq> 4 then None else Some (ip, m))
              else if length m = 16 then Some (ip, if length ip = 4 then drop 12 m else m)
              else None))"

definition Contains :: "IPNet \<Rightarrow> byte list \<Rightarrow> bool" where
  "Contains n ip0 =
     (let ip = (case To4 ip0 of Some x \<Rightarrow> x | None \<Rightarrow> ip0)
      in case networkNumberAndMask n of
           None \<Rightarrow> False
         | Some (nn, m) \<Rightarrow> length ip = length nn \<and> masked nn m = masked ip m)"

section \<open>Printed addresses are parsed back\<close>

lemma dec_val_digit [simp]: "d < 10 \<Longrightarrow> dec_val (digit d) = Some d"
  using of_char_digit [of d] by (simp add: dec_val_def Let_def)

lemma itoa_chars: "c \<in> set (itoa n) \<Longrightarrow> \<exists>d<10. c = digit d"
  using digits_in_chars [of 10 c n] by (simp add: itoa_def)

lemma itoa_no_sep:
  assumes "c \<in> set (itoa n)"
  shows "c \<noteq> CHR ''.''" "c \<noteq> CHR '':''" "c \<noteq> CHR ''%''" "c \<noteq> CHR ''/''" "c \<noteq> CHR ''[''" "c \<noteq> CHR '']''"
    "c \<noteq> CHR '',''"
proof -
  obtain d where d: "d < 10" "c = digit d" using itoa_chars [OF assms] by blast
  then have "(of_char c :: nat) \<notin> {46, 58, 37, 47, 91, 93, 44}" using of_char_digit [of d] by auto
  then show "c \<noteq> CHR ''.''" "c \<noteq> CHR '':''" "c \<noteq> CHR ''%''" "c \<noteq> CHR ''/''" "c \<noteq> CHR ''[''" "c \<noteq> CHR '']''"
    "c \<noteq> CHR '',''"
    by auto
qed

text \<open>A decimal number is its leading digits followed by its last digit.\<close>
lemma itoa_step: "itoa n = (if n < 10 then [digit n] else itoa (n div 10) @ [digit (n mod 10)])"
  unfolding itoa_def by (subst digits_in.simps) simp

lemma v4_fields_itoa:
  assumes "n \<le> 255"
  shows "v4_fields 0 0 fs (itoa n @ s) = v4_fields n (length (itoa n)) fs s"
  using assms
proof (induction n arbitrary: s rule: less_induct)
  case (less n)
  show ?case
  proof (cases "n < 10")
    case True
    then show ?thesis by (simp add: itoa_step [of n])
  next
    case False
    let ?q = "n div 10" and ?r = "n mod 10"
    have "v4_fields 0 0 fs (itoa n @ s) = v4_fields ?q (length (itoa ?q)) fs (digit ?r # s)"
      using False less.IH [of ?q "digit ?r # s"] less.prems by (simp add: itoa_step [of n])
    moreover have "0 < ?q" "?q * 10 + ?r = n" using False by (simp_all add: div_greater_zero_iff)
    ultimately show ?thesis using False less.prems by (simp add: itoa_step [of n])
  qed
qed

lemma itoa_nonempty [simp]: "itoa n \<noteq> []"
  by (simp add: itoa_def digits_in_nonempty)

lemma v4_fields_dot:
  assumes "n \<le> 255" "s \<noteq> []" "length fs < 3"
  shows "v4_fields 0 0 fs (itoa n @ CHR ''.'' # s) = v4_fields 0 0 (fs @ [of_nat n]) s"
  using assms by (simp add: v4_fields_itoa dec_val_def)

lemma unat_byte_le: "unat (b :: byte) \<le> 255"
proof -
  have "unat b < 256" using unsigned_less [of b] by simp
  then show ?thesis by simp
qed

lemma length4:
  assumes "length xs = 4"
  obtains a b c d where "xs = [a, b, c, d]"
  using assms by (auto simp: numeral_eq_Suc length_Suc_conv)

lemma parseIPv4_string:
  assumes "length ip = 4"
  shows "parseIPv4 (ipv4_string ip) = Some ip"
proof -
  obtain a b c d where "ip = [a, b, c, d]" using assms by (rule length4)
  then show ?thesis
    using v4_fields_itoa [of "unat d" "[a, b, c]" "[]"]
    by (simp add: parseIPv4_def ipv4_string_def v4_fields_dot unat_byte_le)
qed

lemma ParseAddr_ipv4:
  assumes "length ip = 4"
  shows "ParseAddr (ipv4_string ip) = Some (AddrV4 ip)"
proof -
  let ?P = "\<lambda>c. c \<noteq> CHR ''.'' \<and> c \<noteq> CHR '':'' \<and> c \<noteq> CHR ''%''"
  have "\<exists>s. dropWhile ?P (ipv4_string ip) = CHR ''.'' # s"
    unfolding ipv4_string_def by (subst dropWhile_append2) (auto dest: itoa_no_sep)
  with parseIPv4_string [OF assms] show ?thesis by (auto simp: ParseAddr_def)
qed

lemma ipv4_string_chars:
  assumes "c \<in> set (ipv4_string ip)"
  shows "c \<noteq> CHR '':''" "c \<noteq> CHR ''/''" "c \<noteq> CHR ''[''" "c \<noteq> CHR '']''" "c \<noteq> CHR '',''"
  using assms by (auto simp: ipv4_string_def dest: itoa_no_sep)

lemma dtoi_itoa:
  assumes "n < 0xFFFFFF"
  shows "dtoi 0 0 (itoa n @ s) = dtoi n (length (itoa n)) s"
  using assms
proof (induction n arbitrary: s rule: less_induct)
  case (less n)
  show ?case
  proof (cases "n < 10")
    case True
    then show ?thesis by (simp add: itoa_step [of n])
  next
    case False
    let ?q = "n div 10" and ?r = "n mod 10"
    have "dtoi 0 0 (itoa n @ s) = dtoi ?q (length (itoa ?q)) (digit ?r # s)"
      using False less.IH [of ?q "digit ?r # s"] less.prems by (simp add: itoa_step [of n])
    moreover have "?q * 10 + ?r = n" by simp
    ultimately show ?thesis using False less.prems by (simp add: itoa_step [of n])
  qed
qed

section \<open>Masks and prefixes\<close>

lemma length_CIDRMask: "length (CIDRMask l n) = l"
  by (induction l n rule: CIDRMask.induct) simp_all

lemma masked_twice: "masked (masked x m) m = masked x m"
  unfolding masked_def
proof (induction x arbitrary: m)
  case (Cons b x)
  then show ?case by (cases m) (simp_all add: and.assoc)
qed simp

text \<open>The bits of an address, most significant first.\<close>
definition addr_bits :: "byte list \<Rightarrow> bool list" where
  "addr_bits ip = concat (map (\<lambda>b. map (\<lambda>i. bit b (7 - i)) [0..<8]) ip)"

lemma byte_bits_eq: "(\<forall>i<8. bit (a :: byte) (7 - i) = bit b (7 - i)) \<longleftrightarrow> a = b"
proof
  assume *: "\<forall>i<8. bit a (7 - i) = bit b (7 - i)"
  show "a = b"
  proof (rule bit_word_eqI)
    fix n :: nat assume "n < LENGTH(8)"
    then have "7 - n < 8" "7 - (7 - n) = n" by simp_all
    with * show "bit a n = bit b n" by metis
  qed
qed simp

lemma byte_ff: "(0xFF :: byte) = mask 8"
  by (simp add: mask_eq_exp_minus_1)

lemma byte_mask_eq:
  assumes "n < 8"
  shows "(a :: byte) AND NOT (drop_bit n 0xFF) = b AND NOT (drop_bit n 0xFF)
    \<longleftrightarrow> (\<forall>i<n. bit a (7 - i) = bit b (7 - i))"
proof -
  have bits: "bit (NOT (drop_bit n (0xFF :: byte))) i \<longleftrightarrow> 8 - n \<le> i" if "i < 8" for i
    unfolding byte_ff using that assms by (auto simp: bit_simps)
  have "a AND NOT (drop_bit n 0xFF) = b AND NOT (drop_bit n 0xFF)
      \<longleftrightarrow> (\<forall>i<8. 8 - n \<le> i \<longrightarrow> bit a i = bit b i)"
    (is "?l = ?r \<longleftrightarrow> ?Q")
  proof
    assume "?l = ?r"
    then have same: "bit ?l i = bit ?r i" for i by (simp only:)
    show ?Q
    proof (intro allI impI)
      fix i :: nat assume "i < 8" "8 - n \<le> i"
      with same [of i] bits [of i] show "bit a i = bit b i" unfolding bit_and_iff by blast
    qed
  next
    assume ?Q
    then show "?l = ?r" by (intro bit_word_eqI) (auto simp: bit_and_iff bits)
  qed
  also have "\<dots> \<longleftrightarrow> (\<forall>i<n. bit a (7 - i) = bit b (7 - i))"
  proof
    assume *: "\<forall>i<n. bit a (7 - i) = bit b (7 - i)"
    show "\<forall>i<8. 8 - n \<le> i \<longrightarrow> bit a i = bit b i"
    proof (intro allI impI)
      fix i :: nat assume "i < 8" "8 - n \<le> i"
      then have "7 - i < n" "7 - (7 - i) = i" by simp_all
      with * show "bit a i = bit b i" by metis
    qed
  qed (use assms in auto)
  finally show ?thesis .
qed

lemma take_bits_byte:
  "n \<le> 8 \<Longrightarrow> take n (map (\<lambda>i. bit (a :: byte) (7 - i)) [0..<8]) = take n (map (\<lambda>i. bit b (7 - i)) [0..<8])
     \<longleftrightarrow> (\<forall>i<n. bit a (7 - i) = bit b (7 - i))"
  by (auto simp: list_eq_iff_nth_eq)

text \<open>Equality under a mask of \<open>n\<close> ones is agreement on the first \<open>n\<close> bits.\<close>
lemma masked_eq_prefix:
  assumes "length x = length y"
  shows "masked x (CIDRMask (length x) n) = masked y (CIDRMask (length y) n)
    \<longleftrightarrow> take n (addr_bits x) = take n (addr_bits y)"
  using assms
proof (induction x y arbitrary: n rule: list_induct2)
  case (Cons a x b y)
  let ?A = "map (\<lambda>i. bit a (7 - i)) [0..<8]" and ?B = "map (\<lambda>i. bit b (7 - i)) [0..<8]"
  have bits: "addr_bits (a # x) = ?A @ addr_bits x" "addr_bits (b # y) = ?B @ addr_bits y"
    by (simp_all add: addr_bits_def)
  show ?case
  proof (cases "8 \<le> n")
    case True
    have "?A = ?B \<longleftrightarrow> a = b" using take_bits_byte [of 8 a b] byte_bits_eq [of a b] by simp
    moreover have "c AND 0xFF = c" for c :: byte
      by (rule bit_word_eqI) (simp add: byte_ff bit_simps)
    ultimately show ?thesis
      using True Cons.IH [of "n - 8"] unfolding bits by (auto simp: masked_def Cons.hyps)
  next
    case False
    then have "take n (?A @ addr_bits x) = take n (?B @ addr_bits y) \<longleftrightarrow> take n ?A = take n ?B" by simp
    also have "\<dots> \<longleftrightarrow> (\<forall>i<n. bit a (7 - i) = bit b (7 - i))" using False by (intro take_bits_byte) simp
    finally show ?thesis
      using False Cons.IH [of 0] byte_mask_eq [of n a b] unfolding bits by (auto simp: masked_def Cons.hyps)
  qed
qed (simp add: masked_def addr_bits_def)

section \<open>Reading decimal numbers\<close>

fun dec_digits :: "nat \<Rightarrow> string \<Rightarrow> nat option" where
  "dec_digits n [] = Some n"
| "dec_digits n (c # cs) = (case dec_val c of None \<Rightarrow> None | Some d \<Rightarrow> dec_digits (n * 10 + d) cs)"

lemma dec_digits_append: "dec_digits n (xs @ ys) = (case dec_digits n xs of None \<Rightarrow> None | Some k \<Rightarrow> dec_digits k ys)"
  by (induction n xs rule: dec_digits.induct) (auto split: option.split)

lemma dec_digits_itoa: "dec_digits 0 (itoa n) = Some n"
proof (induction n rule: less_induct)
  case (less n)
  show ?case
  proof (cases "n < 10")
    case False
    with less [of "n div 10"] show ?thesis by (subst itoa_step) (simp add: dec_digits_append)
  qed (simp add: itoa_step [of n])
qed

end
