(* ===== verification/TimeText.thy ===== *)
theory TimeText
  imports NetIP
begin

text \<open>
  The text of a time stamp, \<open>time.Unix(0, ns).Format(\"2006-01-02 15:04:05.999999\")\<close> of Go's \<open>time\<close> package,
  which the methods \<open>GetLastActiveStr\<close> use: date and time of day in the local time zone, and the
  microseconds without trailing zeros. The zone is an argument, its offset from UTC in seconds.
  Reading the text back gives the time to the microsecond.
\<close>

section \<open>The calendar\<close>

definition leap :: "nat \<Rightarrow> bool" where
  "leap y \<longleftrightarrow> 4 dvd y \<and> (\<not> 100 dvd y \<or> 400 dvd y)"

definition month_lengths :: "nat \<Rightarrow> nat list" where
  "month_lengths y = [31, if leap y then 29 else 28, 31, 30, 31, 30, 31, 31, 30, 31, 30, 31]"

definition year_days :: "nat \<Rightarrow> nat" where
  "year_days y = (if leap y then 366 else 365)"

text \<open>The year that holds the \<open>d\<close>-th day from the beginning of year \<open>y\<close>, and the day in it.\<close>
fun year_of :: "nat \<Rightarrow> nat \<Rightarrow> nat \<times> nat" where
  "year_of y d = (if d < year_days y \<or> year_days y = 0 then (y, d) else year_of (Suc y) (d - year_days y))"

declare year_of.simps [simp del]

text \<open>The month, counted from one, and the day in it.\<close>
fun month_of :: "nat list \<Rightarrow> nat \<Rightarrow> nat \<times> nat" where
  "month_of [] d = (1, Suc d)"
| "month_of (m # ms) d = (if d < m then (1, Suc d) else (let (mo, da) = month_of ms (d - m) in (Suc mo, da)))"

text \<open>Every time stamp of 64 bits is after the beginning of this year, and so many days before 1970.\<close>
definition base_year :: nat where "base_year = 1600"
definition base_days :: int where "base_days = 135140"

definition days_before :: "nat \<Rightarrow> nat" where
  "days_before y = (\<Sum>i\<leftarrow>[base_year..<y]. year_days i)"

section \<open>Formatting\<close>

text \<open>A number with at least \<open>w\<close> digits.\<close>
definition appendInt :: "nat \<Rightarrow> nat \<Rightarrow> string" where
  "appendInt w n = replicate (w - length (itoa n)) CHR ''0'' @ itoa n"

definition trim_zeros :: "string \<Rightarrow> string" where
  "trim_zeros s = rev (dropWhile (\<lambda>c. c = CHR ''0'') (rev s))"

text \<open>The layout \<open>.999999\<close>.\<close>
definition frac_text :: "nat \<Rightarrow> string" where
  "frac_text us = (if us = 0 then [] else CHR ''.'' # trim_zeros (appendInt 6 us))"

definition format_time :: "int \<Rightarrow> int \<Rightarrow> string" where
  "format_time zone ns =
     (let us = (ns + zone * 1000000000) div 1000;
          secs = us div 1000000; day = secs div 86400; sod = nat (secs mod 86400);
          (y, yd) = year_of base_year (nat (day + base_days)); (mo, da) = month_of (month_lengths y) yd
      in appendInt 4 y @ ''-'' @ appendInt 2 mo @ ''-'' @ appendInt 2 da @ '' ''
         @ appendInt 2 (sod div 3600) @ '':'' @ appendInt 2 (sod mod 3600 div 60) @ '':'' @ appendInt 2 (sod mod 60)
         @ frac_text (nat (us mod 1000000)))"

section \<open>The calendar is right\<close>

lemma year_days_pos [simp]: "0 < year_days y" "year_days y \<noteq> 0"
  by (simp_all add: year_days_def)

lemma sum_month_lengths: "sum_list (month_lengths y) = year_days y"
  by (simp add: month_lengths_def year_days_def)

lemma days_before_Suc: "base_year \<le> y \<Longrightarrow> days_before (Suc y) = days_before y + year_days y"
  by (simp add: days_before_def)

lemma year_of_correct:
  "base_year \<le> y \<Longrightarrow> year_of y d = (y', d') \<Longrightarrow> y \<le> y' \<and> d' < year_days y' \<and> days_before y' + d' = days_before y + d"
proof (induction y d rule: year_of.induct)
  case (1 y d)
  show ?case
  proof (cases "d < year_days y")
    case True
    with "1.prems" show ?thesis by (simp add: year_of.simps [of y d])
  next
    case False
    with "1.prems" "1.IH" show ?thesis by (simp add: year_of.simps [of y d] days_before_Suc)
  qed
qed

lemma month_of_correct:
  "d < sum_list ms \<Longrightarrow> month_of ms d = (mo, da) \<Longrightarrow>
     1 \<le> mo \<and> mo \<le> length ms \<and> 1 \<le> da \<and> da \<le> ms ! (mo - 1) \<and> sum_list (take (mo - 1) ms) + (da - 1) = d"
proof (induction ms d arbitrary: mo da rule: month_of.induct)
  case (2 m ms d)
  show ?case
  proof (cases "d < m")
    case False
    obtain mo1 da1 where r: "month_of ms (d - m) = (mo1, da1)" by fastforce
    with False "2.prems" have "mo = Suc mo1" "da = da1" by simp_all
    moreover have "d - m < sum_list ms" using False "2.prems"(1) by simp
    note "2.IH" [OF False this r]
    ultimately show ?thesis using False by (cases mo1) auto
  qed (use "2.prems" in auto)
qed simp

lemma days_before_bound: "base_year \<le> y \<Longrightarrow> 365 * (y - base_year) \<le> days_before y"
proof (induction y rule: nat_induct_at_least)
  case (Suc y)
  have "365 \<le> year_days y" by (simp add: year_days_def)
  with Suc show ?case by (simp add: days_before_Suc Suc_diff_le)
qed (simp add: days_before_def)

section \<open>Reading the text back\<close>

text \<open>The microseconds since 1970 that a text of this layout stands for, in its own zone.\<close>
definition read_time :: "string \<Rightarrow> int option" where
  "read_time s =
     (case (dec_digits 0 (take 4 s), dec_digits 0 (take 2 (drop 5 s)), dec_digits 0 (take 2 (drop 8 s)),
            dec_digits 0 (take 2 (drop 11 s)), dec_digits 0 (take 2 (drop 14 s)), dec_digits 0 (take 2 (drop 17 s)),
            dec_digits 0 (take 6 (drop 20 s @ replicate 6 CHR ''0''))) of
        (Some y, Some mo, Some da, Some h, Some mi, Some se, Some us) \<Rightarrow>
          Some (((int (days_before y + sum_list (take (mo - 1) (month_lengths y)) + (da - 1)) - base_days) * 86400
                 + int (h * 3600 + mi * 60 + se)) * 1000000 + int us)
      | _ \<Rightarrow> None)"

lemma length_itoa: "n < 10 ^ w \<Longrightarrow> 0 < w \<Longrightarrow> length (itoa n) \<le> w"
proof (induction w arbitrary: n)
  case (Suc w)
  show ?case
  proof (cases "n < 10")
    case False
    then have "n div 10 < 10 ^ w" "0 < w" using Suc.prems(1) by (auto intro: gr0I simp: less_mult_imp_div_less)
    with Suc.IH False show ?thesis by (subst itoa_step) simp
  qed (simp add: itoa_step [of n])
qed simp

lemma length_appendInt: "n < 10 ^ w \<Longrightarrow> 0 < w \<Longrightarrow> length (appendInt w n) = w"
  using length_itoa by (simp add: appendInt_def)

lemma dec_digits_zeros: "dec_digits 0 (replicate k CHR ''0'' @ s) = dec_digits 0 s"
  by (induction k) (simp_all add: dec_val_def)

lemma dec_digits_appendInt [simp]: "dec_digits 0 (appendInt w n) = Some n"
  by (simp add: appendInt_def dec_digits_zeros dec_digits_itoa)

lemma trim_zeros_pad: "trim_zeros s @ replicate (length s - length (trim_zeros s)) CHR ''0'' = s"
proof -
  let ?z = "takeWhile (\<lambda>c. c = CHR ''0'') (rev s)"
  have z: "replicate (length ?z) CHR ''0'' = ?z" by (rule replicate_length_same) (blast dest: set_takeWhileD)
  have "rev s = ?z @ dropWhile (\<lambda>c. c = CHR ''0'') (rev s)" by simp
  then have s: "s = trim_zeros s @ rev ?z" unfolding trim_zeros_def by (metis rev_append rev_rev_ident)
  have "length s = length (trim_zeros s) + length ?z" by (subst s) simp
  moreover have "rev ?z = replicate (length ?z) CHR ''0''" by (subst z [symmetric]) simp
  ultimately show ?thesis using s by simp
qed

lemma frac_text_read:
  assumes "us < 1000000"
  shows "take 6 (drop 1 (frac_text us) @ replicate 6 CHR ''0'') = appendInt 6 us"
proof (cases "us = 0")
  case True
  have "itoa 0 = ''0''" by code_simp
  with True show ?thesis by (simp add: frac_text_def appendInt_def eval_nat_numeral)
next
  case False
  let ?s = "appendInt 6 us" and ?t = "trim_zeros (appendInt 6 us)"
  have len: "length ?s = 6" using assms by (intro length_appendInt) simp_all
  then have "length ?t \<le> 6" by (metis length_dropWhile_le length_rev trim_zeros_def)
  then have "take 6 (?t @ replicate 6 CHR ''0'') = ?t @ replicate (6 - length ?t) CHR ''0''" by simp
  then show ?thesis using False trim_zeros_pad [of ?s] len by (simp add: frac_text_def)
qed

text \<open>The fields of the text, each at its place.\<close>
lemma read_fields:
  assumes "length y = 4" "length mo = 2" "length da = 2" "length h = 2" "length mi = 2" "length se = 2"
    and "s = y @ ''-'' @ mo @ ''-'' @ da @ '' '' @ h @ '':'' @ mi @ '':'' @ se @ fr"
  shows "take 4 s = y" "take 2 (drop 5 s) = mo" "take 2 (drop 8 s) = da" "take 2 (drop 11 s) = h"
    "take 2 (drop 14 s) = mi" "take 2 (drop 17 s) = se" "drop 20 s = drop 1 fr"
  using assms(1-6) unfolding assms(7) by simp_all

lemma days_before_base: "days_before base_year = 0"
  by (simp add: days_before_def)

text \<open>The date of a day, with fields that fit their places.\<close>
lemma date_correct:
  assumes "d < 241906" "year_of base_year d = (y, yd)" "month_of (month_lengths y) yd = (mo, da)"
  shows "y < 10000" "mo < 100" "da < 100" "days_before y + sum_list (take (mo - 1) (month_lengths y)) + (da - 1) = d"
proof -
  note yc = year_of_correct [OF order_refl assms(2)]
  have "yd < sum_list (month_lengths y)" using yc by (simp add: sum_month_lengths)
  note mc = month_of_correct [OF this assms(3)]
  have "365 * (y - base_year) \<le> d" using yc days_before_bound [of y] by (simp add: days_before_def)
  then show "y < 10000" using assms(1) by (simp add: base_year_def)
  show "mo < 100" using mc by (simp add: month_lengths_def)
  have "month_lengths y ! (mo - 1) \<in> set (month_lengths y)" using mc by (intro nth_mem) linarith
  then show "da < 100" using mc by (auto simp: month_lengths_def split: if_splits)
  show "days_before y + sum_list (take (mo - 1) (month_lengths y)) + (da - 1) = d"
    using yc mc days_before_base by linarith
qed

text \<open>
  The text of a time stamp stands for it: reading it back gives the local time in microseconds, for every
  64-bit number of nanoseconds and every zone.
\<close>
lemma format_time_read:
  assumes "- (2 ^ 63) \<le> ns" "ns < 2 ^ 63" "\<bar>zone\<bar> \<le> 86400"
  shows "read_time (format_time zone ns) = Some ((ns + zone * 1000000000) div 1000)"
proof -
  define us where "us = (ns + zone * 1000000000) div 1000"
  define secs day sod where "secs = us div 1000000" and "day = secs div 86400" and "sod = nat (secs mod 86400)"
  have "- 9223458436854776 \<le> us" "us < 9223458436854776" using assms by (simp_all add: us_def)
  then have day: "0 \<le> day + base_days" "nat (day + base_days) < 241906" by (simp_all add: day_def secs_def base_days_def)
  obtain y yd mo da where date: "year_of base_year (nat (day + base_days)) = (y, yd)" "month_of (month_lengths y) yd = (mo, da)"
    by (metis prod.collapse)
  note d = date_correct [OF day(2) date]
  have "sod < 86400" by (simp add: sod_def nat_less_iff)
  then have "sod div 3600 < 100" "sod mod 3600 div 60 < 100" "sod mod 60 < 100" by simp_all
  with d have len: "length (appendInt 4 y) = 4" "length (appendInt 2 mo) = 2" "length (appendInt 2 da) = 2"
    "length (appendInt 2 (sod div 3600)) = 2" "length (appendInt 2 (sod mod 3600 div 60)) = 2" "length (appendInt 2 (sod mod 60)) = 2"
    by (simp_all add: length_appendInt)
  have form: "format_time zone ns = appendInt 4 y @ ''-'' @ appendInt 2 mo @ ''-'' @ appendInt 2 da @ '' ''
      @ appendInt 2 (sod div 3600) @ '':'' @ appendInt 2 (sod mod 3600 div 60) @ '':'' @ appendInt 2 (sod mod 60)
      @ frac_text (nat (us mod 1000000))"
    unfolding format_time_def Let_def us_def [symmetric] secs_def [symmetric] day_def [symmetric] sod_def [symmetric]
    by (simp add: date)
  have "nat (us mod 1000000) < 1000000" by (simp add: nat_less_iff)
  note read = read_fields [OF len form] frac_text_read [OF this]
  have days: "int (days_before y + sum_list (take (mo - 1) (month_lengths y)) + (da - 1)) = day + base_days"
    using d(4) day(1) by simp
  have "sod mod 3600 div 60 * 60 + sod mod 60 = sod mod 3600"
    using div_mult_mod_eq [of "sod mod 3600" 60] by (simp add: mod_mod_cancel)
  then have "sod div 3600 * 3600 + sod mod 3600 div 60 * 60 + sod mod 60 = sod" using div_mult_mod_eq [of sod 3600] by linarith
  then have "int (sod div 3600 * 3600 + sod mod 3600 div 60 * 60 + sod mod 60) = secs mod 86400" by (simp add: sod_def)
  then have "read_time (format_time zone ns) = Some ((day * 86400 + secs mod 86400) * 1000000 + us mod 1000000)"
    unfolding read_time_def read dec_digits_appendInt option.case prod.case days by simp
  also have "(day * 86400 + secs mod 86400) * 1000000 + us mod 1000000 = us" by (simp add: day_def secs_def)
  finally show ?thesis by (simp add: us_def)
qed

text \<open>The calendar is tied to the real one by the number of days before 1970.\<close>
lemma days_before_1970: "int (days_before 1970) = base_days"
  by (simp add: days_before_def base_year_def base_days_def upt_rec_numeral year_days_def leap_def)

end
