(* ===== verification/Logger.thy ===== *)
theory Logger
  imports Prelude
begin

text \<open>
  The logger, \<open>logger/logger.go\<close> (and \<open>logger/logger_win.go\<close>, which has the same methods and no
  syslog). The output of a logger is the list of lines it has written, with the places they go to.
  The methods that take a format are given the formatted text; as the tag has no format verbs, tag
  and formatted text are simply put together. Connections to the syslog daemon are numbered in the
  order they are opened.
\<close>

section \<open>State and operations\<close>

definition LogLevelOff :: int where "LogLevelOff = 0"
definition LogLevelFatal :: int where "LogLevelFatal = 1"
definition LogLevelError :: int where "LogLevelError = 2"
definition LogLevelWarn :: int where "LogLevelWarn = 3"
definition LogLevelInfo :: int where "LogLevelInfo = 4"
definition LogLevelInfoA :: int where "LogLevelInfoA = 5"
definition LogLevelDebug :: int where "LogLevelDebug = 6"

lemmas LogLevel_defs = LogLevelOff_def LogLevelFatal_def LogLevelError_def LogLevelWarn_def
  LogLevelInfo_def LogLevelInfoA_def LogLevelDebug_def

datatype log_sink = Stdout | Syslog nat

record log_line =
  line_sinks :: "log_sink list"
  line_text :: string

record Logger =
  lg_prefix :: string
  lg_sinks :: "log_sink list"
  lg_level :: int

text \<open>The package variables: the settings, the last syslog writer, and which ones are open.\<close>
record log_globals =
  LEVEL :: int
  UseSyslog :: bool
  syslogWriter :: "nat option"
  opened :: nat
  open_writers :: "nat set"

definition init_globals :: log_globals where
  "init_globals = \<lparr>LEVEL = LogLevelOff, UseSyslog = True, syslogWriter = None, opened = 0, open_writers = {}\<rparr>"

text \<open>When the syslog daemon cannot be reached, \<open>log.Fatal\<close> ends the process.\<close>
definition NewLogger :: "bool \<Rightarrow> string \<Rightarrow> log_globals \<Rightarrow> (Logger \<times> log_globals) outcome" where
  "NewLogger reachable pfx g =
     (if UseSyslog g
      then (if \<not> reachable then Panic
            else Ret (\<lparr>lg_prefix = pfx, lg_sinks = [Stdout, Syslog (opened g)], lg_level = LEVEL g\<rparr>,
                      g\<lparr>syslogWriter := Some (opened g), opened := Suc (opened g),
                        open_writers := insert (opened g) (open_writers g)\<rparr>))
      else Ret (\<lparr>lg_prefix = pfx, lg_sinks = [Stdout], lg_level = LEVEL g\<rparr>, g))"

definition CloseSyslog :: "log_globals \<Rightarrow> log_globals" where
  "CloseSyslog g =
     (case syslogWriter g of None \<Rightarrow> g | Some w \<Rightarrow> g\<lparr>open_writers := open_writers g - {w}\<rparr>)"

text \<open>On Windows there is only the standard output.\<close>
definition win_NewLogger :: "string \<Rightarrow> log_globals \<Rightarrow> Logger" where
  "win_NewLogger pfx g = \<lparr>lg_prefix = pfx, lg_sinks = [Stdout], lg_level = LEVEL g\<rparr>"

definition win_CloseSyslog :: "log_globals \<Rightarrow> log_globals" where
  "win_CloseSyslog g = g"

text \<open>\<open>Println\<close> and \<open>Printf\<close> of the underlying logger (the date that it adds is left out).\<close>
definition emit :: "Logger \<Rightarrow> string \<Rightarrow> log_line list \<Rightarrow> log_line list" where
  "emit l v out = out @ [\<lparr>line_sinks = lg_sinks l, line_text = lg_prefix l @ v\<rparr>]"

definition Logln :: "Logger \<Rightarrow> string \<Rightarrow> log_line list \<Rightarrow> log_line list" where
  "Logln l v out = emit l v out"

definition Logf :: "Logger \<Rightarrow> string \<Rightarrow> log_line list \<Rightarrow> log_line list" where
  "Logf l v out = emit l v out"

definition Debugln :: "Logger \<Rightarrow> string \<Rightarrow> log_line list \<Rightarrow> log_line list" where
  "Debugln l v out = (if lg_level l \<ge> LogLevelDebug then emit l (''[Debug] '' @ v) out else out)"

definition Debugf :: "Logger \<Rightarrow> string \<Rightarrow> log_line list \<Rightarrow> log_line list" where
  "Debugf l v out = (if lg_level l \<ge> LogLevelDebug then emit l (''[Debug] '' @ v) out else out)"

definition InfoAln :: "Logger \<Rightarrow> string \<Rightarrow> log_line list \<Rightarrow> log_line list" where
  "InfoAln l v out = (if lg_level l \<ge> LogLevelInfoA then emit l (''[Info] '' @ v) out else out)"

definition InfoAf :: "Logger \<Rightarrow> string \<Rightarrow> log_line list \<Rightarrow> log_line list" where
  "InfoAf l v out = (if lg_level l \<ge> LogLevelInfoA then emit l (''[Info] '' @ v) out else out)"

definition Infoln :: "Logger \<Rightarrow> string \<Rightarrow> log_line list \<Rightarrow> log_line list" where
  "Infoln l v out = (if lg_level l \<ge> LogLevelInfo then emit l (''[Info] '' @ v) out else out)"

definition Infof :: "Logger \<Rightarrow> string \<Rightarrow> log_line list \<Rightarrow> log_line list" where
  "Infof l v out = (if lg_level l \<ge> LogLevelInfo then emit l (''[Info] '' @ v) out else out)"

definition Warnln :: "Logger \<Rightarrow> string \<Rightarrow> log_line list \<Rightarrow> log_line list" where
  "Warnln l v out = (if lg_level l \<ge> LogLevelWarn then emit l (''[Warn] '' @ v) out else out)"

definition Warnf :: "Logger \<Rightarrow> string \<Rightarrow> log_line list \<Rightarrow> log_line list" where
  "Warnf l v out = (if lg_level l \<ge> LogLevelWarn then emit l (''[Warn] '' @ v) out else out)"

definition Errorln :: "Logger \<Rightarrow> string \<Rightarrow> log_line list \<Rightarrow> log_line list" where
  "Errorln l v out = (if lg_level l \<ge> LogLevelError then emit l (''[Error] '' @ v) out else out)"

definition Errorf :: "Logger \<Rightarrow> string \<Rightarrow> log_line list \<Rightarrow> log_line list" where
  "Errorf l v out = (if lg_level l \<ge> LogLevelError then emit l (''[Error] '' @ v) out else out)"

definition Fatalln :: "Logger \<Rightarrow> string \<Rightarrow> log_line list \<Rightarrow> log_line list" where
  "Fatalln l v out = (if lg_level l \<ge> LogLevelFatal then emit l (''[Fatal] '' @ v) out else out)"

definition Fatalf :: "Logger \<Rightarrow> string \<Rightarrow> log_line list \<Rightarrow> log_line list" where
  "Fatalf l v out = (if lg_level l \<ge> LogLevelFatal then emit l (''[Fatal] '' @ v) out else out)"

section \<open>Levels\<close>

text \<open>The contract of a logging method: it writes its tag and text from some level on.\<close>
locale levelled =
  fixes log :: "Logger \<Rightarrow> string \<Rightarrow> log_line list \<Rightarrow> log_line list"
    and threshold :: int and tag :: string
  assumes log_out: "log l v out = (if threshold \<le> lg_level l then emit l (tag @ v) out else out)"
begin

lemma log_silent: "lg_level l < threshold \<Longrightarrow> log l v out = out"
  by (simp add: log_out)

lemma log_appends: "\<exists>new. log l v out = out @ new \<and> length new \<le> 1"
  by (simp add: log_out emit_def)

text \<open>A more verbose logger writes at least what a less verbose one writes.\<close>
lemma log_mono:
  assumes "lg_level l \<le> k" "subseq out out'"
  shows "subseq (log l v out) (log (l\<lparr>lg_level := k\<rparr>) v out')"
  using assms by (auto simp: log_out emit_def intro: list_emb_append_mono list_emb_prefix)

end

interpretation debugln: levelled Debugln LogLevelDebug "''[Debug] ''" by unfold_locales (simp add: Debugln_def)
interpretation debugf: levelled Debugf LogLevelDebug "''[Debug] ''" by unfold_locales (simp add: Debugf_def)
interpretation infoaln: levelled InfoAln LogLevelInfoA "''[Info] ''" by unfold_locales (simp add: InfoAln_def)
interpretation infoaf: levelled InfoAf LogLevelInfoA "''[Info] ''" by unfold_locales (simp add: InfoAf_def)
interpretation infoln: levelled Infoln LogLevelInfo "''[Info] ''" by unfold_locales (simp add: Infoln_def)
interpretation infof: levelled Infof LogLevelInfo "''[Info] ''" by unfold_locales (simp add: Infof_def)
interpretation warnln: levelled Warnln LogLevelWarn "''[Warn] ''" by unfold_locales (simp add: Warnln_def)
interpretation warnf: levelled Warnf LogLevelWarn "''[Warn] ''" by unfold_locales (simp add: Warnf_def)
interpretation errorln: levelled Errorln LogLevelError "''[Error] ''" by unfold_locales (simp add: Errorln_def)
interpretation errorf: levelled Errorf LogLevelError "''[Error] ''" by unfold_locales (simp add: Errorf_def)
interpretation fatalln: levelled Fatalln LogLevelFatal "''[Fatal] ''" by unfold_locales (simp add: Fatalln_def)
interpretation fatalf: levelled Fatalf LogLevelFatal "''[Fatal] ''" by unfold_locales (simp add: Fatalf_def)

lemmas logs_mono = debugln.log_mono debugf.log_mono infoaln.log_mono infoaf.log_mono infoln.log_mono
  infof.log_mono warnln.log_mono warnf.log_mono errorln.log_mono errorf.log_mono fatalln.log_mono fatalf.log_mono

text \<open>Any program of calls on a logger.\<close>
datatype log_method = MLog | MDebug | MInfoA | MInfo | MWarn | MError | MFatal

fun log_call :: "log_method \<times> bool \<times> string \<Rightarrow> Logger \<Rightarrow> log_line list \<Rightarrow> log_line list" where
  "log_call (MLog, ln, v) l out = (if ln then Logln l v out else Logf l v out)"
| "log_call (MDebug, ln, v) l out = (if ln then Debugln l v out else Debugf l v out)"
| "log_call (MInfoA, ln, v) l out = (if ln then InfoAln l v out else InfoAf l v out)"
| "log_call (MInfo, ln, v) l out = (if ln then Infoln l v out else Infof l v out)"
| "log_call (MWarn, ln, v) l out = (if ln then Warnln l v out else Warnf l v out)"
| "log_call (MError, ln, v) l out = (if ln then Errorln l v out else Errorf l v out)"
| "log_call (MFatal, ln, v) l out = (if ln then Fatalln l v out else Fatalf l v out)"

definition log_run :: "(log_method \<times> bool \<times> string) list \<Rightarrow> Logger \<Rightarrow> log_line list" where
  "log_run cs l = fold (\<lambda>c. log_call c l) cs []"

lemma log_call_mono:
  assumes "lg_level l \<le> k" "subseq out out'"
  shows "subseq (log_call c l out) (log_call c (l\<lparr>lg_level := k\<rparr>) out')"
proof -
  obtain m ln v where "c = (m, ln, v)" by (cases c)
  then show ?thesis
    using logs_mono [OF assms] assms(2)
    by (cases m) (simp_all add: Logln_def Logf_def emit_def list_emb_append_mono)
qed

text \<open>From which level on a call writes (\<open>None\<close>: always), and with which tag.\<close>
fun method_spec :: "log_method \<Rightarrow> int option \<times> string" where
  "method_spec MLog = (None, [])"
| "method_spec MDebug = (Some 6, ''[Debug] '')"
| "method_spec MInfoA = (Some 5, ''[Info] '')"
| "method_spec MInfo = (Some 4, ''[Info] '')"
| "method_spec MWarn = (Some 3, ''[Warn] '')"
| "method_spec MError = (Some 2, ''[Error] '')"
| "method_spec MFatal = (Some 1, ''[Fatal] '')"

definition passes :: "int \<Rightarrow> log_method \<times> bool \<times> string \<Rightarrow> bool" where
  "passes k c = (case fst (method_spec (fst c)) of None \<Rightarrow> True | Some t \<Rightarrow> t \<le> k)"

definition rendered :: "Logger \<Rightarrow> log_method \<times> bool \<times> string \<Rightarrow> log_line" where
  "rendered l c = \<lparr>line_sinks = lg_sinks l, line_text = lg_prefix l @ snd (method_spec (fst c)) @ snd (snd c)\<rparr>"

lemmas logs_out = debugln.log_out debugf.log_out infoaln.log_out infoaf.log_out infoln.log_out
  infof.log_out warnln.log_out warnf.log_out errorln.log_out errorf.log_out fatalln.log_out fatalf.log_out

lemma log_call_spec: "log_call c l out = (if passes (lg_level l) c then out @ [rendered l c] else out)"
proof -
  obtain m ln v where "c = (m, ln, v)" by (cases c)
  then show ?thesis
    by (cases m) (simp_all add: logs_out Logln_def Logf_def emit_def passes_def rendered_def LogLevel_defs)
qed

lemma log_fold_spec: "fold (\<lambda>c. log_call c l) cs out = out @ map (rendered l) (filter (passes (lg_level l)) cs)"
  by (induction cs arbitrary: out) (simp_all add: log_call_spec)

lemma log_run_mono:
  assumes "lg_level l \<le> k"
  shows "subseq (log_run cs l) (log_run cs (l\<lparr>lg_level := k\<rparr>))"
proof -
  have "subseq (fold (\<lambda>c. log_call c l) cs out) (fold (\<lambda>c. log_call c (l\<lparr>lg_level := k\<rparr>)) cs out')"
    if "subseq out out'" for out out'
    using that by (induction cs arbitrary: out out') (simp_all add: log_call_mono [OF assms])
  then show ?thesis by (simp add: log_run_def)
qed

section \<open>Syslog connections\<close>

fun new_loggers :: "nat \<Rightarrow> string \<Rightarrow> log_globals \<Rightarrow> log_globals outcome" where
  "new_loggers 0 pfx g = Ret g"
| "new_loggers (Suc n) pfx g =
     (case NewLogger True pfx g of Panic \<Rightarrow> Panic | Ret (l, g1) \<Rightarrow> new_loggers n pfx g1)"

lemma new_loggers_open:
  assumes "UseSyslog g" "open_writers g = {..<opened g}"
  shows "\<exists>g'. new_loggers n pfx g = Ret g' \<and> opened g' = opened g + n \<and> open_writers g' = {..<opened g + n}
    \<and> (syslogWriter g' = (if n = 0 then syslogWriter g else Some (opened g + n - 1)))"
  using assms
proof (induction n arbitrary: g)
  case (Suc n)
  let ?g1 = "g\<lparr>syslogWriter := Some (opened g), opened := Suc (opened g), open_writers := insert (opened g) (open_writers g)\<rparr>"
  have "insert (opened g) {..<opened g} = {..<Suc (opened g)}" by auto
  with Suc.IH [of ?g1] Suc.prems show ?case by (auto simp: NewLogger_def)
qed simp

section \<open>Properties\<close>

text \<open>
  A logger writes exactly the calls its level lets through, in their order and with their tags,
  and \<open>Logln\<close> and \<open>Logf\<close> always; a logger with a higher level writes at least the same lines in
  the same order.
\<close>
lemma log_levels:
  assumes "lg_level l \<le> k"
  shows "log_run cs l = map (rendered l) (filter (passes (lg_level l)) cs)
    \<and> subseq (log_run cs l) (log_run cs (l\<lparr>lg_level := k\<rparr>))"
  using log_run_mono [OF assms, of cs] log_fold_spec [of l cs "[]"] by (simp add: log_run_def)

lemma log_levels_witness:
  "map line_text (log_run [(MDebug, True, ''a''), (MError, False, ''b''), (MLog, True, ''c'')]
      \<lparr>lg_prefix = ''p'', lg_sinks = [Stdout], lg_level = 4\<rparr>) = [''p[Error] b'', ''pc'']"
  using log_levels [of "\<lparr>lg_prefix = ''p'', lg_sinks = [Stdout], lg_level = 4\<rparr>" 4
      "[(MDebug, True, ''a''), (MError, False, ''b''), (MLog, True, ''c'')]"]
  by (simp add: passes_def rendered_def)

text \<open>
  Syslog connections are leaked: every logger that is created opens one, and at the end only
  the last of them is closed. After \<open>n\<close> loggers, \<open>n - 1\<close> connections stay open.
\<close>
lemma syslog_leak:
  "\<exists>g. new_loggers (Suc n) pfx init_globals = Ret g \<and> open_writers (CloseSyslog g) = {..<n}"
proof -
  have "UseSyslog init_globals" "open_writers init_globals = {..<opened init_globals}"
    by (simp_all add: init_globals_def)
  from new_loggers_open [OF this, of "Suc n" pfx] obtain g where g: "new_loggers (Suc n) pfx init_globals = Ret g"
    "open_writers g = {..<Suc n}" "syslogWriter g = Some n"
    by (auto simp: init_globals_def)
  moreover have "{..<Suc n} - {n} = {..<n}" by auto
  ultimately show ?thesis by (simp add: CloseSyslog_def)
qed

end
