(* ===== verification/LoggerWin.thy ===== *)
theory LoggerWin
  imports Logger
begin

text \<open>
  The logger of the Windows build, \<open>logger/logger_win.go\<close>: the same methods over the standard output
  alone. Its \<open>NewLogger\<close> and \<open>CloseSyslog\<close> are in \<open>Logger\<close>. Both builds are shown to write the same
  lines when syslog is off.
\<close>

section \<open>Methods\<close>

definition win_Logln :: "Logger \<Rightarrow> string \<Rightarrow> log_line list \<Rightarrow> log_line list" where
  "win_Logln l v out = emit l v out"

definition win_Logf :: "Logger \<Rightarrow> string \<Rightarrow> log_line list \<Rightarrow> log_line list" where
  "win_Logf l v out = emit l v out"

definition win_Debugln :: "Logger \<Rightarrow> string \<Rightarrow> log_line list \<Rightarrow> log_line list" where
  "win_Debugln l v out = (if lg_level l \<ge> LogLevelDebug then emit l (''[Debug] '' @ v) out else out)"

definition win_Debugf :: "Logger \<Rightarrow> string \<Rightarrow> log_line list \<Rightarrow> log_line list" where
  "win_Debugf l v out = (if lg_level l \<ge> LogLevelDebug then emit l (''[Debug] '' @ v) out else out)"

definition win_InfoAln :: "Logger \<Rightarrow> string \<Rightarrow> log_line list \<Rightarrow> log_line list" where
  "win_InfoAln l v out = (if lg_level l \<ge> LogLevelInfoA then emit l (''[Info] '' @ v) out else out)"

definition win_InfoAf :: "Logger \<Rightarrow> string \<Rightarrow> log_line list \<Rightarrow> log_line list" where
  "win_InfoAf l v out = (if lg_level l \<ge> LogLevelInfoA then emit l (''[Info] '' @ v) out else out)"

definition win_Infoln :: "Logger \<Rightarrow> string \<Rightarrow> log_line list \<Rightarrow> log_line list" where
  "win_Infoln l v out = (if lg_level l \<ge> LogLevelInfo then emit l (''[Info] '' @ v) out else out)"

definition win_Infof :: "Logger \<Rightarrow> string \<Rightarrow> log_line list \<Rightarrow> log_line list" where
  "win_Infof l v out = (if lg_level l \<ge> LogLevelInfo then emit l (''[Info] '' @ v) out else out)"

definition win_Warnln :: "Logger \<Rightarrow> string \<Rightarrow> log_line list \<Rightarrow> log_line list" where
  "win_Warnln l v out = (if lg_level l \<ge> LogLevelWarn then emit l (''[Warn] '' @ v) out else out)"

definition win_Warnf :: "Logger \<Rightarrow> string \<Rightarrow> log_line list \<Rightarrow> log_line list" where
  "win_Warnf l v out = (if lg_level l \<ge> LogLevelWarn then emit l (''[Warn] '' @ v) out else out)"

definition win_Errorln :: "Logger \<Rightarrow> string \<Rightarrow> log_line list \<Rightarrow> log_line list" where
  "win_Errorln l v out = (if lg_level l \<ge> LogLevelError then emit l (''[Error] '' @ v) out else out)"

definition win_Errorf :: "Logger \<Rightarrow> string \<Rightarrow> log_line list \<Rightarrow> log_line list" where
  "win_Errorf l v out = (if lg_level l \<ge> LogLevelError then emit l (''[Error] '' @ v) out else out)"

definition win_Fatalln :: "Logger \<Rightarrow> string \<Rightarrow> log_line list \<Rightarrow> log_line list" where
  "win_Fatalln l v out = (if lg_level l \<ge> LogLevelFatal then emit l (''[Fatal] '' @ v) out else out)"

definition win_Fatalf :: "Logger \<Rightarrow> string \<Rightarrow> log_line list \<Rightarrow> log_line list" where
  "win_Fatalf l v out = (if lg_level l \<ge> LogLevelFatal then emit l (''[Fatal] '' @ v) out else out)"

interpretation win_debugln: levelled win_Debugln LogLevelDebug "''[Debug] ''" by unfold_locales (simp add: win_Debugln_def)
interpretation win_debugf: levelled win_Debugf LogLevelDebug "''[Debug] ''" by unfold_locales (simp add: win_Debugf_def)
interpretation win_infoaln: levelled win_InfoAln LogLevelInfoA "''[Info] ''" by unfold_locales (simp add: win_InfoAln_def)
interpretation win_infoaf: levelled win_InfoAf LogLevelInfoA "''[Info] ''" by unfold_locales (simp add: win_InfoAf_def)
interpretation win_infoln: levelled win_Infoln LogLevelInfo "''[Info] ''" by unfold_locales (simp add: win_Infoln_def)
interpretation win_infof: levelled win_Infof LogLevelInfo "''[Info] ''" by unfold_locales (simp add: win_Infof_def)
interpretation win_warnln: levelled win_Warnln LogLevelWarn "''[Warn] ''" by unfold_locales (simp add: win_Warnln_def)
interpretation win_warnf: levelled win_Warnf LogLevelWarn "''[Warn] ''" by unfold_locales (simp add: win_Warnf_def)
interpretation win_errorln: levelled win_Errorln LogLevelError "''[Error] ''" by unfold_locales (simp add: win_Errorln_def)
interpretation win_errorf: levelled win_Errorf LogLevelError "''[Error] ''" by unfold_locales (simp add: win_Errorf_def)
interpretation win_fatalln: levelled win_Fatalln LogLevelFatal "''[Fatal] ''" by unfold_locales (simp add: win_Fatalln_def)
interpretation win_fatalf: levelled win_Fatalf LogLevelFatal "''[Fatal] ''" by unfold_locales (simp add: win_Fatalf_def)

lemmas win_logs_out = win_debugln.log_out
  win_debugf.log_out
  win_infoaln.log_out
  win_infoaf.log_out
  win_infoln.log_out
  win_infof.log_out
  win_warnln.log_out
  win_warnf.log_out
  win_errorln.log_out
  win_errorf.log_out
  win_fatalln.log_out
  win_fatalf.log_out

section \<open>Both builds\<close>

fun win_log_call :: "log_method \<times> bool \<times> string \<Rightarrow> Logger \<Rightarrow> log_line list \<Rightarrow> log_line list" where
  "win_log_call (MLog, ln, v) l out = (if ln then win_Logln l v out else win_Logf l v out)"
| "win_log_call (MDebug, ln, v) l out = (if ln then win_Debugln l v out else win_Debugf l v out)"
| "win_log_call (MInfoA, ln, v) l out = (if ln then win_InfoAln l v out else win_InfoAf l v out)"
| "win_log_call (MInfo, ln, v) l out = (if ln then win_Infoln l v out else win_Infof l v out)"
| "win_log_call (MWarn, ln, v) l out = (if ln then win_Warnln l v out else win_Warnf l v out)"
| "win_log_call (MError, ln, v) l out = (if ln then win_Errorln l v out else win_Errorf l v out)"
| "win_log_call (MFatal, ln, v) l out = (if ln then win_Fatalln l v out else win_Fatalf l v out)"

lemma win_log_call_same: "win_log_call c l = log_call c l"
proof
  fix out
  obtain m ln v where "c = (m, ln, v)" by (cases c)
  then show "win_log_call c l out = log_call c l out"
    by (cases m) (simp_all add: logs_out win_logs_out Logln_def Logf_def win_Logln_def win_Logf_def)
qed

text \<open>
  With syslog off, a program of logging calls writes the same lines to the same places in both
  builds, and neither changes the package's variables.
\<close>
lemma win_logger_equivalent:
  assumes "\<not> UseSyslog g"
  shows "\<exists>l. NewLogger reachable pfx g = Ret (l, g) \<and> win_NewLogger pfx g = l
    \<and> fold (\<lambda>c. win_log_call c (win_NewLogger pfx g)) cs [] = log_run cs l"
  using assms by (simp add: NewLogger_def win_NewLogger_def log_run_def win_log_call_same)

end
