(* ===== verification/Config.thy ===== *)
theory Config
  imports NetAddr
begin

text \<open>
  The configuration of the command, \<open>cmd/rabbit.go\<close>: its string helpers, the configuration record
  with its defaults, the merging of defaults, YAML file and command line, and the validation. The
  YAML library is a parameter that turns file content and a configuration into a configuration or
  an error; the file system is given by the files that exist and what reading them returns. The
  \<open>flag\<close> package is represented by its result: for each flag the value given on the command line,
  if any. Strings are taken as ASCII.
\<close>

section \<open>String helpers\<close>

text \<open>The standard functions \<open>strings.Index\<close>, \<open>strings.Split\<close>, \<open>strings.TrimSpace\<close>, \<open>strings.ToLower\<close>.\<close>
fun str_index :: "string \<Rightarrow> string \<Rightarrow> nat option" where
  "str_index sub [] = (if sub = [] then Some 0 else None)"
| "str_index sub (c # cs) = (if prefix sub (c # cs) then Some 0 else map_option Suc (str_index sub cs))"

lemma str_index_Some: "str_index sub s = Some i \<Longrightarrow> i + length sub \<le> length s"
proof (induction s arbitrary: i)
  case (Cons c cs)
  then show ?case
    by (auto split: if_splits dest: prefix_length_le)
qed (auto split: if_splits)

function str_split :: "string \<Rightarrow> string \<Rightarrow> string list" where
  "str_split sep s =
     (if sep = [] then map (\<lambda>c. [c]) s
      else case str_index sep s of
        None \<Rightarrow> [s]
      | Some m \<Rightarrow> take m s # str_split sep (drop (m + length sep) s))"
  by pat_completeness auto
termination
proof (relation "measure (\<lambda>(sep, s). length s)", goal_cases)
  case (2 sep s m)
  then have "m + length sep \<le> length s" "sep \<noteq> []" by (simp_all add: str_index_Some)
  then show ?case by (cases sep) auto
qed simp

declare str_split.simps [simp del]

definition ascii_space :: "char \<Rightarrow> bool" where
  "ascii_space c \<longleftrightarrow> (of_char c :: nat) \<in> {9, 10, 11, 12, 13, 32}"

definition TrimSpace :: "string \<Rightarrow> string" where
  "TrimSpace s = rev (dropWhile ascii_space (rev (dropWhile ascii_space s)))"

definition ToLower :: "string \<Rightarrow> string" where
  "ToLower s = map (\<lambda>c. let v = of_char c in if 65 \<le> v \<and> v \<le> (90 :: nat) then char_of (v + 32) else c) s"

text \<open>The loop over the parts keeps the ones that are not blank.\<close>
definition splitAndTrim :: "string \<Rightarrow> string \<Rightarrow> string list" where
  "splitAndTrim s sep =
     (if s = [] then []
      else fold (\<lambda>p acc. let trimmed = TrimSpace p in if trimmed \<noteq> [] then acc @ [trimmed] else acc)
             (str_split sep s) [])"

text \<open>The inner loop of \<open>find\<close>.\<close>
function match_at :: "string \<Rightarrow> string \<Rightarrow> nat \<Rightarrow> nat \<Rightarrow> bool" where
  "match_at s sub i j =
     (if j < length sub then (if s ! (i + j) \<noteq> sub ! j then False else match_at s sub i (Suc j)) else True)"
  by pat_completeness auto
termination by (relation "measure (\<lambda>(s, sub, i, j). length sub - j)") auto

function find_loop :: "string \<Rightarrow> string \<Rightarrow> nat \<Rightarrow> int" where
  "find_loop s sub i =
     (if int i \<le> int (length s) - int (length sub)
      then (if match_at s sub i 0 then int i else find_loop s sub (Suc i))
      else -1)"
  by pat_completeness auto
termination by (relation "measure (\<lambda>(s, sub, i). Suc (length s) - i)") auto

declare match_at.simps [simp del] find_loop.simps [simp del]

definition find_str :: "string \<Rightarrow> string \<Rightarrow> int" where
  "find_str s sub = find_loop s sub 0"

text \<open>\<open>split\<close> ends only for a separator that is not empty; not returning is \<open>None\<close>.\<close>
partial_function (option) split_loop :: "string \<Rightarrow> string \<Rightarrow> nat \<Rightarrow> string list \<Rightarrow> string list option" where
  "split_loop s sep idx result =
     (let i = find_str (drop idx s) sep
      in if i = -1 then Some (result @ [drop idx s])
         else split_loop s sep (idx + nat i + length sep) (result @ [take (nat i) (drop idx s)]))"

definition split_str :: "string \<Rightarrow> string \<Rightarrow> string list option" where
  "split_str s sep = split_loop s sep 0 []"

definition trim_char :: "char \<Rightarrow> bool" where
  "trim_char c \<longleftrightarrow> c = CHR '' '' \<or> c = char_of (9 :: nat) \<or> c = char_of (10 :: nat) \<or> c = char_of (13 :: nat)"

function trim_start :: "string \<Rightarrow> nat \<Rightarrow> nat" where
  "trim_start s start = (if start < length s \<and> trim_char (s ! start) then trim_start s (Suc start) else start)"
  by pat_completeness auto
termination by (relation "measure (\<lambda>(s, start). length s - start)") auto

fun trim_end :: "string \<Rightarrow> nat \<Rightarrow> nat \<Rightarrow> nat" where
  "trim_end s start 0 = 0"
| "trim_end s start (Suc e) = (if start < Suc e \<and> trim_char (s ! e) then trim_end s start e else Suc e)"

declare trim_start.simps [simp del]

definition trimSpace :: "string \<Rightarrow> string" where
  "trimSpace s = (let start = trim_start s 0; e = trim_end s start (length s)
                  in take (e - start) (drop start s))"

section \<open>Configuration\<close>

record Config =
  cfg_Mode :: string
  cfg_mode :: int
  cfg_AppName :: string
  cfg_Verbose :: int
  cfg_RabbitAddr :: "string list"
  cfg_Password :: string
  cfg_AEADCipher :: string
  cfg_Listen :: string
  cfg_Dest :: string
  cfg_TunnelN :: int
  cfg_AuthKey :: string
  cfg_TLSCertFile :: string
  cfg_TLSKeyFile :: string
  cfg_Insecure :: bool
  cfg_UseSyslog :: bool
  cfg_RetryFailedAddr :: bool
  cfg_MemProf :: string
  cfg_StatusServer :: string
  cfg_StatusACL :: string
  cfg_PingIntervalSec :: int
  cfg_DialTimeoutSec :: int
  cfg_RecvTimeoutSec :: int
  cfg_PacketWaitTimeoutSec :: int
  cfg_ReconnectDelaySec :: int
  cfg_OutboundBlockTimeoutSec :: int
  cfg_MaxRetries :: int
  cfg_OrderedRecvQueueSize :: int
  cfg_SendQueueSize :: int
  cfg_RecvQueueSize :: int
  cfg_OutboundRecvBufferSize :: int

definition ClientMode :: int where "ClientMode = 0"
definition ServerMode :: int where "ServerMode = 1"
definition DefaultPassword :: string where "DefaultPassword = ''PASSWORD''"

definition NewDefaultConfig :: Config where
  "NewDefaultConfig =
     \<lparr>cfg_Mode = ''client'', cfg_mode = 0, cfg_AppName = ''rabbit-mtcp'', cfg_Verbose = 4,
      cfg_RabbitAddr = [''ws://127.0.0.1:443/tunnel''], cfg_Password = ''PASSWORD'',
      cfg_AEADCipher = ''CHACHA20-IETF-POLY1305'', cfg_Listen = ''127.0.0.1:1080'', cfg_Dest = '''',
      cfg_TunnelN = 4, cfg_AuthKey = '''', cfg_TLSCertFile = '''', cfg_TLSKeyFile = '''', cfg_Insecure = False,
      cfg_UseSyslog = True, cfg_RetryFailedAddr = True, cfg_MemProf = '''', cfg_StatusServer = '''',
      cfg_StatusACL = '''', cfg_PingIntervalSec = 30, cfg_DialTimeoutSec = 6, cfg_RecvTimeoutSec = 20,
      cfg_PacketWaitTimeoutSec = 8, cfg_ReconnectDelaySec = 5, cfg_OutboundBlockTimeoutSec = 3,
      cfg_MaxRetries = 3, cfg_OrderedRecvQueueSize = 32, cfg_SendQueueSize = 32, cfg_RecvQueueSize = 32,
      cfg_OutboundRecvBufferSize = 32 * 1024\<rparr>"

text \<open>The flags of the command line: \<open>None\<close> when a flag was not given.\<close>
record Flags =
  fl_c :: "string option"
  fl_mode :: "string option"
  fl_appname :: "string option"
  fl_verbose :: "int option"
  fl_rabbit_addr :: "string option"
  fl_aead_cipher :: "string option"
  fl_password :: "string option"
  fl_listen :: "string option"
  fl_dest :: "string option"
  fl_tunnelN :: "int option"
  fl_use_syslog :: "bool option"
  fl_retry_failed :: "bool option"
  fl_mem_prof :: "string option"
  fl_status_server :: "string option"
  fl_status_acl :: "string option"
  fl_ping_interval :: "int option"
  fl_dial_timeout :: "int option"
  fl_recv_timeout :: "int option"
  fl_packet_timeout :: "int option"
  fl_reconnect_delay :: "int option"
  fl_outbound_timeout :: "int option"
  fl_max_retries :: "int option"
  fl_order_rqueue_size :: "int option"
  fl_squeue_size :: "int option"
  fl_rqueue_size :: "int option"
  fl_buffer_size :: "int option"
  fl_version :: "bool option"
  fl_v :: "bool option"

text \<open>The surroundings: home directory, files that exist, what reading gives, and the YAML library.\<close>
record env =
  homeDir :: string
  Stat :: "string \<Rightarrow> bool"
  ReadFile :: "string \<Rightarrow> byte list result"
  Unmarshal :: "byte list \<Rightarrow> Config \<Rightarrow> Config result"

definition configFilePath :: "env \<Rightarrow> Flags \<Rightarrow> string" where
  "configFilePath e fl =
     (let arg = (case fl_c fl of None \<Rightarrow> [] | Some s \<Rightarrow> s)
      in if arg = []
         then (case filter (Stat e) [''config.yaml'', homeDir e @ ''/.rabbit/config.yaml'', ''/etc/rabbit/config.yaml''] of
                 [] \<Rightarrow> [] | p # _ \<Rightarrow> p)
         else arg)"

definition read_config :: "env \<Rightarrow> string \<Rightarrow> Config \<Rightarrow> Config result" where
  "read_config e path cfg =
     (if path = [] then Inr cfg
      else case ReadFile e path of
        Inl err \<Rightarrow> Inl err
      | Inr content \<Rightarrow> Unmarshal e content cfg)"

text \<open>One \<open>if flagsSeen[...]\<close> of the source.\<close>
definition override :: "'v option \<Rightarrow> ('v \<Rightarrow> Config \<Rightarrow> Config) \<Rightarrow> Config \<Rightarrow> Config" where
  "override seen set_field cfg = (case seen of None \<Rightarrow> cfg | Some v \<Rightarrow> set_field v cfg)"

definition apply_flags :: "Flags \<Rightarrow> Config \<Rightarrow> Config" where
  "apply_flags fl c0 =
     (let c1 = override (fl_mode fl) (\<lambda>v c. c\<lparr>cfg_Mode := ToLower v\<rparr>) c0;
          c2 = c1\<lparr>cfg_Mode := ToLower (cfg_Mode c1)\<rparr>;
          c3 = override (fl_verbose fl) (\<lambda>v c. c\<lparr>cfg_Verbose := v\<rparr>) c2;
          c4 = override (fl_appname fl) (\<lambda>v c. c\<lparr>cfg_AppName := v\<rparr>) c3;
          c5 = override (fl_rabbit_addr fl) (\<lambda>v c. c\<lparr>cfg_RabbitAddr := splitAndTrim v '',''\<rparr>) c4;
          c6 = override (fl_password fl) (\<lambda>v c. c\<lparr>cfg_Password := v\<rparr>) c5;
          c7 = override (fl_aead_cipher fl) (\<lambda>v c. c\<lparr>cfg_AEADCipher := v\<rparr>) c6;
          c8 = override (fl_listen fl) (\<lambda>v c. c\<lparr>cfg_Listen := v\<rparr>) c7;
          c9 = override (fl_dest fl) (\<lambda>v c. c\<lparr>cfg_Dest := v\<rparr>) c8;
          c10 = override (fl_tunnelN fl) (\<lambda>v c. c\<lparr>cfg_TunnelN := v\<rparr>) c9;
          c11 = override (fl_mem_prof fl) (\<lambda>v c. c\<lparr>cfg_MemProf := v\<rparr>) c10;
          c12 = override (fl_retry_failed fl) (\<lambda>v c. c\<lparr>cfg_RetryFailedAddr := v\<rparr>) c11;
          c13 = override (fl_status_server fl) (\<lambda>v c. c\<lparr>cfg_StatusServer := v\<rparr>) c12;
          c14 = override (fl_status_acl fl) (\<lambda>v c. c\<lparr>cfg_StatusACL := v\<rparr>) c13;
          c15 = override (fl_ping_interval fl) (\<lambda>v c. c\<lparr>cfg_PingIntervalSec := v\<rparr>) c14;
          c16 = override (fl_dial_timeout fl) (\<lambda>v c. c\<lparr>cfg_DialTimeoutSec := v\<rparr>) c15;
          c17 = override (fl_recv_timeout fl) (\<lambda>v c. c\<lparr>cfg_RecvTimeoutSec := v\<rparr>) c16;
          c18 = override (fl_packet_timeout fl) (\<lambda>v c. c\<lparr>cfg_PacketWaitTimeoutSec := v\<rparr>) c17;
          c19 = override (fl_reconnect_delay fl) (\<lambda>v c. c\<lparr>cfg_ReconnectDelaySec := v\<rparr>) c18;
          c20 = override (fl_outbound_timeout fl) (\<lambda>v c. c\<lparr>cfg_OutboundBlockTimeoutSec := v\<rparr>) c19;
          c21 = override (fl_max_retries fl) (\<lambda>v c. c\<lparr>cfg_MaxRetries := v\<rparr>) c20;
          c22 = override (fl_order_rqueue_size fl) (\<lambda>v c. c\<lparr>cfg_OrderedRecvQueueSize := v\<rparr>) c21;
          c23 = override (fl_squeue_size fl) (\<lambda>v c. c\<lparr>cfg_SendQueueSize := v\<rparr>) c22;
          c24 = override (fl_rqueue_size fl) (\<lambda>v c. c\<lparr>cfg_RecvQueueSize := v\<rparr>) c23
      in override (fl_buffer_size fl) (\<lambda>v c. c\<lparr>cfg_OutboundRecvBufferSize := v\<rparr>) c24)"

text \<open>\<open>Inr None\<close>: only the version was asked for.\<close>
definition LoadConfig :: "env \<Rightarrow> Flags \<Rightarrow> Config option result" where
  "LoadConfig e fl =
     (if fl_version fl = Some True \<or> fl_v fl = Some True then Inr None
      else case read_config e (configFilePath e fl) NewDefaultConfig of
        Inl err \<Rightarrow> Inl err
      | Inr cfg \<Rightarrow> Inr (Some (apply_flags fl cfg)))"

text \<open>The variables of the other packages that the configuration sets.\<close>
record settings =
  set_OrderedRecvQueueSize :: int
  set_conn_RecvQueueSize :: int
  set_OutboundRecvBuffer :: int
  set_OutboundBlockTimeoutSec :: int
  set_PacketWaitTimeoutSec :: int
  set_conn_DialTimeoutSec :: int
  set_tp_DialTimeoutSec :: int
  set_ReconnectDelaySec :: int
  set_MaxRetries :: int
  set_TunnelBlockTimeoutSec :: int
  set_ErrorWaitSec :: int
  set_PingInterval :: int
  set_tp_RecvQueueSize :: int
  set_TunnelRecvTimeoutSec :: int

definition apply_settings :: "Config \<Rightarrow> settings" where
  "apply_settings cfg =
     \<lparr>set_OrderedRecvQueueSize = cfg_OrderedRecvQueueSize cfg, set_conn_RecvQueueSize = cfg_RecvQueueSize cfg,
      set_OutboundRecvBuffer = cfg_OutboundRecvBufferSize cfg,
      set_OutboundBlockTimeoutSec = cfg_OutboundBlockTimeoutSec cfg,
      set_PacketWaitTimeoutSec = cfg_PacketWaitTimeoutSec cfg, set_conn_DialTimeoutSec = cfg_DialTimeoutSec cfg,
      set_tp_DialTimeoutSec = cfg_DialTimeoutSec cfg, set_ReconnectDelaySec = cfg_ReconnectDelaySec cfg,
      set_MaxRetries = cfg_MaxRetries cfg, set_TunnelBlockTimeoutSec = cfg_OutboundBlockTimeoutSec cfg,
      set_ErrorWaitSec = cfg_ReconnectDelaySec cfg, set_PingInterval = cfg_PingIntervalSec cfg,
      set_tp_RecvQueueSize = cfg_RecvQueueSize cfg, set_TunnelRecvTimeoutSec = cfg_RecvTimeoutSec cfg\<rparr>"

text \<open>The checks of \<open>parseFlags\<close>, in order; the checks of the client mode do not return early.\<close>
definition check_config :: "Config \<Rightarrow> bool \<times> Config" where
  "check_config cfg0 =
     (if cfg_Mode cfg0 \<notin> {''c'', ''client'', ''s'', ''server''} then (False, cfg0)
      else (let cfg = cfg0\<lparr>cfg_mode := if cfg_Mode cfg0 \<in> {''c'', ''client''} then ClientMode else ServerMode\<rparr>
            in if cfg_Password cfg = [] then (False, cfg)
               else if cfg_Password cfg = DefaultPassword then (False, cfg)
               else if cfg_mode cfg = ClientMode
               then (cfg_Listen cfg \<noteq> []
                     \<and> \<not> (\<not> prefix ''socks5://'' (cfg_Listen cfg) \<and> cfg_Dest cfg = [])
                     \<and> cfg_TunnelN cfg \<noteq> 0, cfg)
               else (True, cfg)))"

datatype startup = Exits nat | Parsed bool Config settings

definition parseFlags :: "env \<Rightarrow> Flags \<Rightarrow> startup" where
  "parseFlags e fl =
     (case LoadConfig e fl of
        Inl err \<Rightarrow> Exits 1
      | Inr None \<Rightarrow> Exits 0
      | Inr (Some cfg) \<Rightarrow> (case check_config cfg of (pass, cfg') \<Rightarrow> Parsed pass cfg' (apply_settings cfg)))"

section \<open>The helpers agree with the standard functions\<close>

lemma match_at_iff:
  assumes "i + length sub \<le> length s" "j \<le> length sub"
  shows "match_at s sub i j \<longleftrightarrow> drop j sub = take (length sub - j) (drop (i + j) s)"
  using assms(2)
proof (induction "length sub - j" arbitrary: j)
  case 0
  then show ?case by (simp add: match_at.simps)
next
  case (Suc k)
  then have j: "j < length sub" by simp
  have "drop j sub = sub ! j # drop (Suc j) sub" using j by (rule Cons_nth_drop_Suc [symmetric])
  moreover have "take (length sub - j) (drop (i + j) s) = s ! (i + j) # take (length sub - Suc j) (drop (i + Suc j) s)"
    using j assms(1) by (simp add: Cons_nth_drop_Suc [symmetric] Suc_diff_Suc [symmetric])
  moreover have "match_at s sub i (Suc j) \<longleftrightarrow> drop (Suc j) sub = take (length sub - Suc j) (drop (i + Suc j) s)"
    using Suc j by (intro Suc.hyps(1)) auto
  ultimately show ?case using j by (subst match_at.simps) auto
qed

lemma prefix_take: "prefix xs ys \<longleftrightarrow> xs = take (length xs) ys"
  by (metis append_eq_conv_conj append_take_drop_id prefix_def)

lemma str_index_short: "length s < length sub \<Longrightarrow> str_index sub s = None"
  by (metis add_leE leD not_None_eq str_index_Some)

lemma find_loop_index:
  assumes "i \<le> length s"
  shows "find_loop s sub i = (case str_index sub (drop i s) of None \<Rightarrow> -1 | Some k \<Rightarrow> int (i + k))"
  using assms
proof (induction "length s - i" arbitrary: i)
  case 0
  then show ?case by (cases sub) (simp_all add: find_loop.simps match_at.simps)
next
  case (Suc n)
  then have i: "drop i s = s ! i # drop (Suc i) s" by (simp add: Cons_nth_drop_Suc)
  have IH: "find_loop s sub (Suc i) = (case str_index sub (drop (Suc i) s) of None \<Rightarrow> -1 | Some k \<Rightarrow> int (Suc i + k))"
    using Suc by (intro Suc.hyps(1)) auto
  show ?case
  proof (cases "i + length sub \<le> length s")
    case True
    then have "match_at s sub i 0 \<longleftrightarrow> prefix sub (drop i s)"
      using match_at_iff [OF True, of 0] by (simp add: prefix_take)
    with True IH show ?thesis
      by (subst find_loop.simps) (auto simp: i split: option.split)
  next
    case False
    then have "str_index sub (drop i s) = None" using Suc.prems by (intro str_index_short) simp
    with False show ?thesis by (subst find_loop.simps) simp
  qed
qed

lemma find_str_index: "find_str s sub = (case str_index sub s of None \<Rightarrow> -1 | Some k \<Rightarrow> int k)"
  using find_loop_index [of 0 s sub] by (simp add: find_str_def split: option.split)

lemma split_loop_split:
  assumes "sep \<noteq> []" "idx \<le> length s"
  shows "split_loop s sep idx result = Some (result @ str_split sep (drop idx s))"
  using assms(2)
proof (induction "length s - idx" arbitrary: idx result rule: less_induct)
  case less
  show ?case
  proof (cases "str_index sep (drop idx s)")
    case None
    then show ?thesis
      using assms(1) by (subst split_loop.simps) (simp add: find_str_index str_split.simps [of sep "drop idx s"])
  next
    case (Some m)
    have m: "m + length sep \<le> length s - idx" using str_index_Some [OF Some] by simp
    let ?idx = "idx + m + length sep"
    have "split_loop s sep ?idx (result @ [take m (drop idx s)])
        = Some ((result @ [take m (drop idx s)]) @ str_split sep (drop ?idx s))"
      using m less.prems assms(1) by (intro less.hyps) (auto simp: neq_Nil_conv)
    with Some show ?thesis
      using assms(1) by (subst split_loop.simps)
        (simp add: find_str_index str_split.simps [of sep "drop idx s"] ac_simps)
  qed
qed

text \<open>With an empty separator every iteration finds it at once and does not move on.\<close>
lemma split_loop_empty: "split_loop s [] idx result = None"
proof (rule ccontr)
  have "sep \<noteq> []" if "split_loop s sep idx result = Some r" for s sep idx result r
  proof (rule split_loop.raw_induct [where P = "\<lambda>s sep idx result r. sep \<noteq> []", OF _ that])
    fix f :: "string \<Rightarrow> string \<Rightarrow> nat \<Rightarrow> string list \<Rightarrow> string list option" and s sep idx result r
    assume IH: "\<And>s sep idx result r. f s sep idx result = Some r \<Longrightarrow> sep \<noteq> []"
      and body: "(let i = find_str (drop idx s) sep in if i = -1 then Some (result @ [drop idx s])
          else f s sep (idx + nat i + length sep) (result @ [take (nat i) (drop idx s)])) = Some r"
    show "sep \<noteq> []"
    proof
      assume "sep = []"
      moreover have "str_index [] (drop idx s) = Some 0" by (cases "drop idx s") simp_all
      ultimately have "f s [] idx (result @ [[]]) = Some r" using body by (simp add: find_str_index)
      from IH [OF this] show False by simp
    qed
  qed
  moreover assume "split_loop s [] idx result \<noteq> None"
  ultimately show False by blast
qed

fun join_str :: "string \<Rightarrow> string list \<Rightarrow> string" where
  "join_str sep [] = []"
| "join_str sep [p] = p"
| "join_str sep (p # ps) = p @ sep @ join_str sep ps"

lemma str_index_at: "str_index sub s = Some i \<Longrightarrow> take (length sub) (drop i s) = sub"
proof (induction s arbitrary: i)
  case (Cons c cs)
  then show ?case by (auto split: if_splits simp: prefix_take)
qed (auto split: if_splits)

text \<open>No occurrence lies before the first one.\<close>
lemma str_index_first: "str_index sub s = Some m \<Longrightarrow> sub \<noteq> [] \<Longrightarrow> str_index sub (take m s) = None"
proof (induction s arbitrary: m)
  case (Cons c cs)
  show ?case
  proof (cases "prefix sub (c # cs)")
    case True
    with Cons.prems show ?thesis by simp
  next
    case False
    then obtain k where k: "str_index sub cs = Some k" "m = Suc k" using Cons.prems(1) by auto
    have "\<not> prefix sub (c # take k cs)"
      using False by (metis prefix_order.trans take_Suc_Cons take_is_prefix)
    with Cons.IH [OF k(1) Cons.prems(2)] k(2) show ?thesis by simp
  qed
qed (auto split: if_splits)

lemma str_split_nonempty: "sep \<noteq> [] \<Longrightarrow> str_split sep s \<noteq> []"
  by (subst str_split.simps) (simp split: option.split)

lemma str_split_join:
  assumes "sep \<noteq> []"
  shows "join_str sep (str_split sep s) = s \<and> (\<forall>p\<in>set (str_split sep s). str_index sep p = None)"
  using assms
proof (induction sep s rule: str_split.induct)
  case (1 sep s)
  show ?case
  proof (cases "str_index sep s")
    case None
    with "1.prems" show ?thesis by (simp add: str_split.simps [of sep s])
  next
    case (Some m)
    let ?rest = "drop (m + length sep) s"
    have IH: "join_str sep (str_split sep ?rest) = ?rest" "\<forall>p\<in>set (str_split sep ?rest). str_index sep p = None"
      using "1.IH" [OF _ Some] "1.prems" by simp_all
    have "take m s @ sep @ ?rest = s"
      using str_index_at [OF Some] by (metis add.commute append_take_drop_id drop_drop)
    moreover obtain q qs where "str_split sep ?rest = q # qs"
      using str_split_nonempty [OF "1.prems"] by (meson neq_Nil_conv)
    ultimately show ?thesis
      using IH Some "1.prems" str_index_first [OF Some "1.prems"] by (simp add: str_split.simps [of sep s])
  qed
qed

text \<open>The two loops of \<open>trimSpace\<close> drop the blanks at both ends.\<close>
lemma trim_start_takeWhile:
  "start \<le> length s \<Longrightarrow> trim_start s start = start + length (takeWhile trim_char (drop start s))"
proof (induction s start rule: trim_start.induct)
  case (1 s start)
  show ?case
  proof (cases "start < length s \<and> trim_char (s ! start)")
    case True
    then have "drop start s = s ! start # drop (Suc start) s" by (simp add: Cons_nth_drop_Suc)
    with True 1 show ?thesis by (simp add: trim_start.simps [of s start])
  next
    case False
    then have "takeWhile trim_char (drop start s) = []"
      using "1.prems" by (cases "start < length s") (auto simp: Cons_nth_drop_Suc [symmetric])
    with False show ?thesis by (auto simp: trim_start.simps [of s start])
  qed
qed

lemma trim_end_dropWhile:
  assumes "start \<le> e" "e \<le> length s"
  shows "take (trim_end s start e - start) (drop start s)
    = rev (dropWhile trim_char (rev (take (e - start) (drop start s))))"
  using assms
proof (induction s start e rule: trim_end.induct)
  case (2 s start e)
  show ?case
  proof (cases "start < Suc e")
    case True
    then have "take (Suc e - start) (drop start s) = take (e - start) (drop start s) @ [s ! e]"
      using "2.prems" by (simp add: Suc_diff_le take_Suc_conv_app_nth)
    with True 2 show ?thesis by (cases "trim_char (s ! e)") (auto simp: Suc_diff_le take_Suc_conv_app_nth)
  next
    case False
    with "2.prems"(1) have "start = Suc e" by simp
    then show ?thesis by simp
  qed
qed simp

lemma trimSpace_strips: "trimSpace s = rev (dropWhile trim_char (rev (dropWhile trim_char s)))"
proof -
  have "trim_start s 0 = length (takeWhile trim_char s)" using trim_start_takeWhile [of 0 s] by simp
  moreover have "drop (length (takeWhile trim_char s)) s = dropWhile trim_char s"
    by (simp add: dropWhile_eq_drop)
  moreover have "length (takeWhile trim_char s) \<le> length s" by (rule length_takeWhile_le)
  moreover have "take (length s - length (takeWhile trim_char s)) (dropWhile trim_char s) = dropWhile trim_char s"
    by (simp add: dropWhile_eq_drop)
  ultimately show ?thesis
    using trim_end_dropWhile [of "trim_start s 0" "length s" s] by (simp add: trimSpace_def Let_def)
qed

lemma splitAndTrim_eq: "splitAndTrim s sep = (if s = [] then [] else filter (\<lambda>p. p \<noteq> []) (map TrimSpace (str_split sep s)))"
proof -
  have "fold (\<lambda>p acc. let trimmed = TrimSpace p in if trimmed \<noteq> [] then acc @ [trimmed] else acc) ps acc
      = acc @ filter (\<lambda>p. p \<noteq> []) (map TrimSpace ps)" for ps acc
    by (induction ps arbitrary: acc) (simp_all add: Let_def)
  then show ?thesis by (simp add: splitAndTrim_def)
qed

section \<open>Merging\<close>

text \<open>A field that the setter does not touch, and the field that it sets.\<close>
lemma override_frame: "(\<And>v c. g (f v c) = g c) \<Longrightarrow> g (override seen f c) = g c"
  by (simp add: override_def split: option.split)

lemma override_hit: "(\<And>v c. g (f v c) = h v) \<Longrightarrow> g (override seen f c) = (case seen of None \<Rightarrow> g c | Some v \<Rightarrow> h v)"
  by (simp add: override_def split: option.split)

lemma ToLower_idem [simp]: "ToLower (ToLower s) = ToLower s"
  by (auto simp: ToLower_def Let_def of_char_of)

lemma apply_flags_sel:
  "cfg_Mode (apply_flags fl c) = ToLower (case fl_mode fl of None \<Rightarrow> cfg_Mode c | Some v \<Rightarrow> v)"
  "cfg_Password (apply_flags fl c) = (case fl_password fl of None \<Rightarrow> cfg_Password c | Some v \<Rightarrow> v)"
  "cfg_AEADCipher (apply_flags fl c) = (case fl_aead_cipher fl of None \<Rightarrow> cfg_AEADCipher c | Some v \<Rightarrow> v)"
  "cfg_Listen (apply_flags fl c) = (case fl_listen fl of None \<Rightarrow> cfg_Listen c | Some v \<Rightarrow> v)"
  "cfg_Dest (apply_flags fl c) = (case fl_dest fl of None \<Rightarrow> cfg_Dest c | Some v \<Rightarrow> v)"
  "cfg_TunnelN (apply_flags fl c) = (case fl_tunnelN fl of None \<Rightarrow> cfg_TunnelN c | Some v \<Rightarrow> v)"
  "cfg_RabbitAddr (apply_flags fl c) = (case fl_rabbit_addr fl of None \<Rightarrow> cfg_RabbitAddr c | Some v \<Rightarrow> splitAndTrim v '','')"
  "cfg_StatusACL (apply_flags fl c) = (case fl_status_acl fl of None \<Rightarrow> cfg_StatusACL c | Some v \<Rightarrow> v)"
  "cfg_UseSyslog (apply_flags fl c) = cfg_UseSyslog c"
  unfolding apply_flags_def Let_def
  by (simp_all add: override_frame [of cfg_Mode]
      override_frame [of cfg_Password]
      override_frame [of cfg_AEADCipher]
      override_frame [of cfg_Listen]
      override_frame [of cfg_Dest]
      override_frame [of cfg_TunnelN]
      override_frame [of cfg_RabbitAddr]
      override_frame [of cfg_StatusACL]
      override_frame [of cfg_UseSyslog]
      override_hit [of cfg_Mode _ ToLower] override_hit [of cfg_Password _ "\<lambda>v. v"]
      override_hit [of cfg_AEADCipher _ "\<lambda>v. v"]
      override_hit [of cfg_Listen _ "\<lambda>v. v"]
      override_hit [of cfg_Dest _ "\<lambda>v. v"]
      override_hit [of cfg_TunnelN _ "\<lambda>v. v"]
      override_hit [of cfg_StatusACL _ "\<lambda>v. v"]
      override_hit [of cfg_RabbitAddr _ "\<lambda>v. splitAndTrim v '',''"] split: option.split)

section \<open>Properties\<close>

text \<open>
  C33. The hand-written \<open>split\<close> returns for every separator that is not empty, and then agrees with
  \<open>strings.Split\<close>: the parts joined by the separator are the string, and no part contains the
  separator. With an empty separator it never returns.
\<close>
theorem split_str_correct:
  assumes "sep \<noteq> []"
  shows "split_str s sep = Some (str_split sep s)
    \<and> join_str sep (str_split sep s) = s \<and> (\<forall>p\<in>set (str_split sep s). str_index sep p = None)
    \<and> split_str s [] = None"
  using assms split_loop_split [of sep 0 s "[]"] str_split_join [of sep s]
  by (simp add: split_str_def split_loop_empty)

theorem split_str_correct_witness:
  "\<exists>parts. split_str ''a, b'' '','' = Some parts \<and> join_str '','' parts = ''a, b''"
  using split_str_correct [of "'',''" "''a, b''"] by simp


text \<open>A command line without flags, and surroundings without any file.\<close>
definition no_flags :: Flags where
  "no_flags = \<lparr>fl_c = None, fl_mode = None, fl_appname = None, fl_verbose = None, fl_rabbit_addr = None,
     fl_aead_cipher = None, fl_password = None, fl_listen = None, fl_dest = None, fl_tunnelN = None,
     fl_use_syslog = None, fl_retry_failed = None, fl_mem_prof = None, fl_status_server = None,
     fl_status_acl = None, fl_ping_interval = None, fl_dial_timeout = None, fl_recv_timeout = None,
     fl_packet_timeout = None, fl_reconnect_delay = None, fl_outbound_timeout = None, fl_max_retries = None,
     fl_order_rqueue_size = None, fl_squeue_size = None, fl_rqueue_size = None, fl_buffer_size = None,
     fl_version = None, fl_v = None\<rparr>"

definition no_files :: env where
  "no_files = \<lparr>homeDir = ''/root'', Stat = (\<lambda>_. False), ReadFile = (\<lambda>_. Inl (ErrMsg ''no such file'')),
     Unmarshal = (\<lambda>content c. Inr c)\<rparr>"


text \<open>
  Two options have no effect: the flag \<open>-use-syslog\<close> does not change the configuration, and the
  configured size of the send queue does not change any setting of the program.
\<close>
lemma ignored_options:
  "LoadConfig e (fl\<lparr>fl_use_syslog := x\<rparr>) = LoadConfig e fl
   \<and> apply_settings (cfg\<lparr>cfg_SendQueueSize := n\<rparr>) = apply_settings cfg"
proof
  have "configFilePath e (fl\<lparr>fl_use_syslog := x\<rparr>) = configFilePath e fl" by (simp add: configFilePath_def)
  moreover have "apply_flags (fl\<lparr>fl_use_syslog := x\<rparr>) c = apply_flags fl c" for c by (simp add: apply_flags_def)
  ultimately show "LoadConfig e (fl\<lparr>fl_use_syslog := x\<rparr>) = LoadConfig e fl"
    by (simp add: LoadConfig_def split: sum.split)
qed (simp add: apply_settings_def)

end
