(* ===== verification/Helpers.thy ===== *)
theory Helpers
  imports NetIP Config
begin

text \<open>
  The functions that the program carries but does not call: \<open>TLSConfigFromFiles\<close>
  (\<open>tunnel_pool/manager.go\<close>) and \<open>getGoroutineID\<close> (\<open>server/server.go\<close>). The TLS library and the file
  system are parameters: loading a key pair, reading a file, and making a pool of certificates of
  its contents (\<open>None\<close> when it contains none).
\<close>

section \<open>The TLS configuration\<close>

datatype client_auth = NoClientCert | VerifyClientCertIfGiven

record ('cert, 'pool) tls_config =
  Certificates :: "'cert list"
  RootCAs :: "'pool option"
  ClientCAs :: "'pool option"
  ClientAuth :: client_auth
  InsecureSkipVerify :: bool
  MinVersion :: nat

definition VersionTLS12 :: nat where "VersionTLS12 = 0x0303"

definition zero_tls_config :: "('cert, 'pool) tls_config" where
  "zero_tls_config = \<lparr>Certificates = [], RootCAs = None, ClientCAs = None, ClientAuth = NoClientCert,
     InsecureSkipVerify = False, MinVersion = 0\<rparr>"

definition TLSConfigFromFiles ::
  "(string \<Rightarrow> string \<Rightarrow> 'cert result) \<Rightarrow> (string \<Rightarrow> byte list result) \<Rightarrow> (byte list \<Rightarrow> 'pool option)
    \<Rightarrow> string \<Rightarrow> string \<Rightarrow> string \<Rightarrow> bool \<Rightarrow> ('cert, 'pool) tls_config result" where
  "TLSConfigFromFiles LoadX509KeyPair readFile pool_of certFile keyFile caFile insecureSkipVerify =
     (case (if certFile \<noteq> [] \<and> keyFile \<noteq> []
            then (case LoadX509KeyPair certFile keyFile of
                    Inl e \<Rightarrow> Inl (ErrMsg ''failed to load TLS key pair'')
                  | Inr cert \<Rightarrow> Inr (zero_tls_config\<lparr>Certificates := [cert]\<rparr>))
            else Inr zero_tls_config) of
        Inl e \<Rightarrow> Inl e
      | Inr c1 \<Rightarrow>
          (case (if caFile \<noteq> []
                 then (case readFile caFile of
                         Inl e \<Rightarrow> Inl (ErrMsg ''failed to read CA certificate'')
                       | Inr caCert \<Rightarrow>
                           (case pool_of caCert of
                              None \<Rightarrow> Inl (ErrMsg ''failed to append CA certificate to pool'')
                            | Some p \<Rightarrow> Inr (c1\<lparr>RootCAs := Some p, ClientCAs := Some p, ClientAuth := VerifyClientCertIfGiven\<rparr>)))
                 else Inr c1) of
             Inl e \<Rightarrow> Inl e
           | Inr c2 \<Rightarrow> Inr (c2\<lparr>InsecureSkipVerify := insecureSkipVerify, MinVersion := VersionTLS12\<rparr>)))"

text \<open>
  What a configuration contains: at least TLS 1.2, the key pair and the authorities of the named
  files, and no more. With only one of the two key files named there is no certificate and no error.
\<close>
lemma TLSConfig_contents:
  assumes "TLSConfigFromFiles load rf pool_of certFile keyFile caFile ins = Inr c"
  shows "MinVersion c = VersionTLS12 \<and> InsecureSkipVerify c = ins \<and> RootCAs c = ClientCAs c
    \<and> (if certFile = [] \<or> keyFile = [] then Certificates c = [] else \<exists>cert. load certFile keyFile = Inr cert \<and> Certificates c = [cert])
    \<and> (if caFile = [] then RootCAs c = None \<and> ClientAuth c = NoClientCert
       else \<exists>pem p. rf caFile = Inr pem \<and> pool_of pem = Some p \<and> RootCAs c = Some p \<and> ClientAuth c = VerifyClientCertIfGiven)"
  using assms by (auto simp: TLSConfigFromFiles_def zero_tls_config_def split: if_splits sum.splits option.splits)

section \<open>The goroutine's number\<close>

text \<open>\<open>strings.Fields\<close> and \<open>strings.TrimPrefix\<close>.\<close>
function Fields :: "string \<Rightarrow> string list" where
  "Fields s =
     (case dropWhile ascii_space s of
        [] \<Rightarrow> []
      | c # cs \<Rightarrow> takeWhile (\<lambda>c. \<not> ascii_space c) (c # cs) # Fields (dropWhile (\<lambda>c. \<not> ascii_space c) (c # cs)))"
  by pat_completeness auto
termination
proof (relation "measure length", goal_cases)
  case (2 s c cs)
  have "\<not> ascii_space c" using 2 by (metis dropWhile_eq_Cons_conv)
  then have "length (dropWhile (\<lambda>c. \<not> ascii_space c) (c # cs)) \<le> length cs" by (simp add: length_dropWhile_le)
  moreover have "length (c # cs) \<le> length s" using 2 length_dropWhile_le [of ascii_space s] by simp
  ultimately show ?case by simp
qed simp

declare Fields.simps [simp del]

definition TrimPrefix :: "string \<Rightarrow> string \<Rightarrow> string" where
  "TrimPrefix s pfx = (if prefix pfx s then drop (length pfx) s else s)"

text \<open>\<open>strconv.Atoi\<close>: an optional sign and decimal digits, in the range of a 64-bit integer.\<close>
definition Atoi :: "string \<Rightarrow> int result" where
  "Atoi s =
     (let neg = (s \<noteq> [] \<and> s ! 0 = CHR ''-'');
          ds = (if s \<noteq> [] \<and> (s ! 0 = CHR ''-'' \<or> s ! 0 = CHR ''+'') then drop 1 s else s)
      in if ds = [] then Inl (ErrMsg ''invalid syntax'')
         else case dec_digits 0 ds of
           None \<Rightarrow> Inl (ErrMsg ''invalid syntax'')
         | Some n \<Rightarrow>
             if n < 2 ^ 63 \<or> neg \<and> n = 2 ^ 63 then Inr (if neg then - int n else int n)
             else Inl (ErrMsg ''value out of range''))"

text \<open>The argument is what \<open>runtime.Stack\<close> writes; the buffer holds 64 bytes of it.\<close>
definition getGoroutineID :: "string \<Rightarrow> int outcome" where
  "getGoroutineID stack =
     (case Fields (TrimPrefix (take 64 stack) ''goroutine '') of
        [] \<Rightarrow> Panic
      | idField # _ \<Rightarrow> (case Atoi idField of Inl e \<Rightarrow> Panic | Inr i \<Rightarrow> Ret i))"

lemma digit_char:
  assumes "d < 10"
  shows "\<not> ascii_space (digit d)" "digit d \<noteq> CHR ''-''" "digit d \<noteq> CHR ''+''"
proof -
  have c: "(of_char (digit d) :: nat) = 48 + d" using of_char_digit [of d] assms by simp
  then show "\<not> ascii_space (digit d)" by (simp add: ascii_space_def)
  from c have "(of_char (digit d) :: nat) \<notin> {45, 43}" by simp
  then show "digit d \<noteq> CHR ''-''" "digit d \<noteq> CHR ''+''" by auto
qed

lemma itoa_first: "itoa n ! 0 \<noteq> CHR ''-'' \<and> itoa n ! 0 \<noteq> CHR ''+''"
proof -
  have "itoa n ! 0 \<in> set (itoa n)" by (simp add: nth_mem)
  then obtain d where "d < 10" "itoa n ! 0 = digit d" using itoa_chars by blast
  then show ?thesis using digit_char by metis
qed

lemma Atoi_itoa: "n < 2 ^ 63 \<Longrightarrow> Atoi (itoa n) = Inr (int n)"
  using itoa_first [of n] by (simp add: Atoi_def dec_digits_itoa)

text \<open>The first line of a stack is \<open>goroutine N [state]:\<close>; the number in it is what is returned.\<close>
lemma getGoroutineID_correct:
  assumes "n < 2 ^ 63" "length (itoa n) < 54"
  shows "getGoroutineID (''goroutine '' @ itoa n @ '' '' @ rest) = Ret (int n)"
proof -
  obtain t where t: "take 64 (''goroutine '' @ itoa n @ '' '' @ rest) = ''goroutine '' @ itoa n @ CHR '' '' # t"
    using assms(2) by (simp add: take_Cons')
  have digs: "\<forall>c\<in>set (itoa n). \<not> ascii_space c" using itoa_chars digit_char(1) by blast
  have sp: "ascii_space (CHR '' '')" by (simp add: ascii_space_def)
  obtain c cs where cs: "itoa n = c # cs" by (meson itoa_nonempty list.exhaust)
  have "takeWhile (\<lambda>c. \<not> ascii_space c) (itoa n @ CHR '' '' # t) = itoa n"
    using digs sp by (simp add: takeWhile_append)
  then have "\<exists>fs. Fields (itoa n @ CHR '' '' # t) = itoa n # fs"
    using digs by (subst Fields.simps) (simp add: cs)
  moreover have "TrimPrefix (''goroutine '' @ itoa n @ CHR '' '' # t) ''goroutine '' = itoa n @ CHR '' '' # t"
    by (simp add: TrimPrefix_def)
  ultimately show ?thesis unfolding getGoroutineID_def t using Atoi_itoa [OF assms(1)] by auto
qed

end
