(* ===== verification/Acl.thy ===== *)
theory Acl
  imports NetIP Config
begin

text \<open>
  Who may use the status server, \<open>cmd/rabbit.go\<close>: the access control list, the basic
  authentication, and the test with which all request handlers start. A request is given by the
  remote address, the credentials that \<open>BasicAuth\<close> finds, and the path.
\<close>

section \<open>Access control\<close>

definition badCIDR :: go_error where "badCIDR = ErrMsg ''invalid CIDR address''"

text \<open>An entry that is itself a list: entries that do not parse are skipped.\<close>
fun acl_parts :: "byte list \<Rightarrow> string list \<Rightarrow> bool" where
  "acl_parts ip [] = False"
| "acl_parts ip (subnet1 # rest) =
     (case ParseCIDR subnet1 of
        None \<Rightarrow> acl_parts ip rest
      | Some cidr \<Rightarrow> if Contains cidr ip then True else acl_parts ip rest)"

text \<open>The loop over the entries: the first match wins; an entry that does not parse is an error.\<close>
fun acl_loop :: "byte list \<Rightarrow> string list \<Rightarrow> bool \<times> go_error option" where
  "acl_loop ip [] = (False, None)"
| "acl_loop ip (subnet # rest) =
     (if CHR '','' \<in> set subnet
      then (if acl_parts ip (str_split '','' subnet) then (True, None) else acl_loop ip rest)
      else case ParseCIDR subnet of
        None \<Rightarrow> (False, Some badCIDR)
      | Some cidr \<Rightarrow> if Contains cidr ip then (True, None) else acl_loop ip rest)"

text \<open>When the address has no port, \<open>SplitHostPort\<close> returns an empty host with its error.\<close>
definition IsIPInSubnets :: "string \<Rightarrow> string list \<Rightarrow> bool \<times> go_error option" where
  "IsIPInSubnets ipStr0 subnets =
     (if subnets = [] then (True, None)
      else (let (ipStr, err) = (case SplitHostPort ipStr0 of
                                  Inl e \<Rightarrow> (TrimSpace [], Some e) | Inr (host, port) \<Rightarrow> (host, None))
            in case ParseIP ipStr of
                 None \<Rightarrow> (False, err)
               | Some ip \<Rightarrow> acl_loop ip subnets))"

text \<open>The list as the status server prepares it from its setting.\<close>
definition acl_setup :: "string \<Rightarrow> string list" where
  "acl_setup acl =
     (let acls = str_split '','' acl;
          acls1 = (if acls = [[]] then [''0.0.0.0/0''] else acls)
      in map (\<lambda>a. if CHR ''/'' \<in> set a then a else a @ ''/32'') acls1)"

section \<open>Authentication\<close>

text \<open>Credentials in front of the listening address: user name, password, and the address itself.\<close>
definition auth_setup :: "string \<Rightarrow> string \<times> string \<times> string" where
  "auth_setup listen =
     (case index_of CHR ''@'' listen of
        None \<Rightarrow> ([], [], listen)
      | Some atIndex \<Rightarrow>
          if atIndex > 0
          then (let authPart = take atIndex listen; listen' = drop (Suc atIndex) listen
                in case index_of CHR '':'' authPart of
                     None \<Rightarrow> ([], [], listen')
                   | Some colon \<Rightarrow>
                       if colon > 0 then (take colon authPart, drop (Suc colon) authPart, listen')
                       else ([], [], listen'))
          else ([], [], listen))"

record request =
  RemoteAddr :: string
  BasicAuth :: "(string \<times> string) option"
  URLPath :: string

definition checkBasicAuth :: "request \<Rightarrow> string \<Rightarrow> string \<Rightarrow> bool" where
  "checkBasicAuth r username password =
     (case BasicAuth r of None \<Rightarrow> False | Some (user, pass) \<Rightarrow> user = username \<and> pass = password)"

text \<open>The common start of all handlers: \<open>Some\<close> status code when the request is refused.\<close>
definition admission :: "string list \<Rightarrow> string \<Rightarrow> string \<Rightarrow> request \<Rightarrow> nat option" where
  "admission acls username password r =
     (case IsIPInSubnets (RemoteAddr r) acls of
        (_, Some err) \<Rightarrow> Some 500
      | (isAllowed, None) \<Rightarrow>
          if \<not> isAllowed then Some 401
          else if username \<noteq> [] \<and> \<not> checkBasicAuth r username password then Some 401
          else None)"

section \<open>The access control list\<close>

lemma str_index_char: "str_index [c] s = index_of c s"
  by (induction s) auto

lemma str_split_part:
  assumes "c \<notin> set p"
  shows "str_split [c] (p @ c # q) = p # str_split [c] q"
  by (subst str_split.simps) (simp add: str_index_char index_of_append [OF assms])

lemma str_split_last: "c \<notin> set p \<Longrightarrow> str_split [c] p = [p]"
  by (subst str_split.simps) (simp add: str_index_char index_of_None [THEN iffD2])

lemma str_split_join_char:
  assumes "ps \<noteq> []" "\<forall>p\<in>set ps. c \<notin> set p"
  shows "str_split [c] (join_str [c] ps) = ps"
  using assms
proof (induction "[c]" ps rule: join_str.induct)
  case (3 p q ps)
  then show ?case by (simp add: str_split_part)
qed (simp_all add: str_split_last)

text \<open>An entry of the list in its text form: an address with or without a prefix length.\<close>
fun entry_text :: "byte list \<times> nat option \<Rightarrow> string" where
  "entry_text (y, Some n) = ipv4_string y @ ''/'' @ itoa n"
| "entry_text (y, None) = ipv4_string y"

fun entry_len :: "byte list \<times> nat option \<Rightarrow> nat" where
  "entry_len (y, Some n) = n"
| "entry_len (y, None) = 32"

definition valid_entry :: "byte list \<times> nat option \<Rightarrow> bool" where
  "valid_entry en \<longleftrightarrow> length (fst en) = 4 \<and> entry_len en \<le> 32"

text \<open>The set of addresses that an entry stands for.\<close>
definition covers :: "byte list \<times> nat option \<Rightarrow> byte list \<Rightarrow> bool" where
  "covers en x \<longleftrightarrow> take (entry_len en) (addr_bits x) = take (entry_len en) (addr_bits (fst en))"

lemma entry_text_chars:
  assumes "c \<in> set (entry_text en)"
  shows "c \<noteq> CHR '',''"
  using assms by (cases en rule: entry_text.cases) (auto dest: ipv4_string_chars itoa_no_sep)

text \<open>The text of the list is prepared to one network per entry.\<close>
lemma acl_setup_entries:
  assumes "ens \<noteq> []"
  shows "acl_setup (join_str '','' (map entry_text ens))
    = map (\<lambda>en. ipv4_string (fst en) @ ''/'' @ itoa (entry_len en)) ens"
proof -
  have split: "str_split '','' (join_str '','' (map entry_text ens)) = map entry_text ens"
    using assms by (intro str_split_join_char) (auto dest: entry_text_chars)
  have "entry_text en \<noteq> []" for en
    by (cases en rule: entry_text.cases) (simp_all add: ipv4_string_def)
  then have "map entry_text ens \<noteq> [[]]" by (cases ens) auto
  moreover have "(if CHR ''/'' \<in> set (entry_text en) then entry_text en else entry_text en @ ''/32'')
      = ipv4_string (fst en) @ ''/'' @ itoa (entry_len en)" for en
  proof -
    have "itoa 32 = ''32''" by code_simp
    then show ?thesis
      by (cases en rule: entry_text.cases) (auto dest: ipv4_string_chars(2))
  qed
  ultimately show ?thesis by (simp add: acl_setup_def Let_def split)
qed

lemma ParseCIDR_entry:
  assumes "length y = 4" "n \<le> 32"
  shows "ParseCIDR (ipv4_string y @ ''/'' @ itoa n) = Some \<lparr>netIP = Some (masked y (CIDRMask 4 n)), netMask = CIDRMask 4 n\<rparr>"
proof -
  have "CHR ''/'' \<notin> set (ipv4_string y)" by (auto dest: ipv4_string_chars)
  then have "index_of CHR ''/'' (ipv4_string y @ ''/'' @ itoa n) = Some (length (ipv4_string y))"
    using index_of_append by simp
  moreover have "dtoi 0 0 (itoa n) = (n, length (itoa n), True)"
    using dtoi_itoa [of n "[]"] assms(2) by simp
  moreover have "length (v4InV6Prefix @ y) = 16" "take 12 (v4InV6Prefix @ y) = v4InV6Prefix"
    "drop 12 (v4InV6Prefix @ y) = y"
    using assms(1) by (simp_all add: v4InV6Prefix_def)
  then have "Mask (CIDRMask 4 n) (v4InV6Prefix @ y) = Some (masked y (CIDRMask 4 n))"
    using assms(1) by (simp add: Mask_def Let_def length_CIDRMask)
  ultimately show ?thesis
    using assms(2) ParseAddr_ipv4 [OF assms(1)] by (simp add: ParseCIDR_def Let_def)
qed

lemma To4_mapped: "length x = 4 \<Longrightarrow> To4 (v4InV6Prefix @ x) = Some x" "length x = 4 \<Longrightarrow> To4 x = Some x"
  by (simp_all add: To4_def v4InV6Prefix_def)

lemma Contains_entry:
  assumes "length y = 4" "length x = 4"
  shows "Contains \<lparr>netIP = Some (masked y (CIDRMask 4 n)), netMask = CIDRMask 4 n\<rparr> (v4InV6Prefix @ x)
    \<longleftrightarrow> take n (addr_bits x) = take n (addr_bits y)"
proof -
  have len: "length (masked y (CIDRMask 4 n)) = 4" using assms by (simp add: masked_def length_CIDRMask)
  have "masked (masked y (CIDRMask 4 n)) (CIDRMask 4 n) = masked y (CIDRMask 4 n)"
    by (rule masked_twice)
  then have "Contains \<lparr>netIP = Some (masked y (CIDRMask 4 n)), netMask = CIDRMask 4 n\<rparr> (v4InV6Prefix @ x)
      \<longleftrightarrow> masked y (CIDRMask 4 n) = masked x (CIDRMask 4 n)"
    using assms len by (simp add: Contains_def networkNumberAndMask_def To4_mapped length_CIDRMask Let_def)
  also have "\<dots> \<longleftrightarrow> take n (addr_bits x) = take n (addr_bits y)"
    using masked_eq_prefix [of x y n] assms by auto
  finally show ?thesis .
qed

lemma acl_loop_entries:
  assumes "\<forall>en\<in>set ens. valid_entry en" "length x = 4"
  shows "acl_loop (v4InV6Prefix @ x) (map (\<lambda>en. ipv4_string (fst en) @ ''/'' @ itoa (entry_len en)) ens)
    = (\<exists>en\<in>set ens. covers en x, None)"
  using assms(1)
proof (induction ens)
  case (Cons en ens)
  let ?s = "ipv4_string (fst en) @ ''/'' @ itoa (entry_len en)"
  have "CHR '','' \<notin> set ?s" by (auto dest: ipv4_string_chars itoa_no_sep)
  moreover have "ParseCIDR ?s = Some \<lparr>netIP = Some (masked (fst en) (CIDRMask 4 (entry_len en))),
      netMask = CIDRMask 4 (entry_len en)\<rparr>"
    using Cons.prems by (intro ParseCIDR_entry) (simp_all add: valid_entry_def)
  ultimately show ?case
    using Cons Contains_entry [of "fst en" x "entry_len en"] assms(2)
    by (auto simp: valid_entry_def covers_def)
qed simp

section \<open>Credentials\<close>

lemma admission_None:
  "admission acls u p r = None \<longleftrightarrow>
     IsIPInSubnets (RemoteAddr r) acls = (True, None) \<and> (u = [] \<or> BasicAuth r = Some (u, p))"
  by (auto simp: admission_def checkBasicAuth_def split: prod.splits option.splits)

lemma auth_setup_credentials:
  assumes "user \<noteq> []" "CHR '':'' \<notin> set user" "CHR ''@'' \<notin> set user" "CHR ''@'' \<notin> set pass"
  shows "auth_setup (user @ '':'' @ pass @ ''@'' @ addr) = (user, pass, addr)"
proof -
  have "index_of CHR ''@'' ((user @ CHR '':'' # pass) @ CHR ''@'' # addr) = Some (length (user @ CHR '':'' # pass))"
    using assms by (intro index_of_append) auto
  moreover have "index_of CHR '':'' (user @ CHR '':'' # pass) = Some (length user)"
    using assms by (intro index_of_append) auto
  ultimately show ?thesis using assms(1) by (simp add: auth_setup_def Let_def)
qed

section \<open>Properties\<close>

text \<open>
  The access control list means what it says. For a list of IPv4 networks, or single addresses,
  separated by commas, a client address with its port is admitted exactly when it agrees with one
  of the entries on the bits of its prefix; there is no error.
\<close>
lemma acl_correct:
  assumes "ens \<noteq> []" and "\<forall>en\<in>set ens. valid_entry en" and "length x = 4"
  shows "IsIPInSubnets (ipv4_string x @ '':'' @ itoa port) (acl_setup (join_str '','' (map entry_text ens)))
    = (\<exists>en\<in>set ens. covers en x, None)"
proof -
  have "SplitHostPort (ipv4_string x @ '':'' @ itoa port) = Inr (ipv4_string x, itoa port)"
    using SplitHostPort_plain [of "ipv4_string x" "itoa port"]
    by (auto dest: ipv4_string_chars itoa_no_sep)
  moreover have "ParseIP (ipv4_string x) = Some (v4InV6Prefix @ x)"
    by (simp add: ParseIP_def ParseAddr_ipv4 [OF assms(3)])
  ultimately show ?thesis
    using assms(1) acl_loop_entries [OF assms(2,3)]
    by (simp add: IsIPInSubnets_def acl_setup_entries [OF assms(1)])
qed

text \<open>
  An address without a port is never admitted by a list, although it is meant to be parsed as it
  is: the failed split leaves an empty string, and the request fails with the error of the split.
\<close>
lemma acl_needs_port:
  assumes "acls \<noteq> []"
  shows "IsIPInSubnets (ipv4_string x) acls = (False, Some missingPort)"
proof -
  have "CHR '':'' \<notin> set (ipv4_string x)" by (auto dest: ipv4_string_chars)
  then have "SplitHostPort (ipv4_string x) = Inl missingPort"
    by (simp add: SplitHostPort_def last_index_of_None [THEN iffD2])
  moreover have "ParseIP (TrimSpace []) = None" by (simp add: TrimSpace_def ParseIP_def ParseAddr_def)
  ultimately show ?thesis using assms by (simp add: IsIPInSubnets_def)
qed

lemma acl_needs_port_witness:
  "IsIPInSubnets (ipv4_string [127, 0, 0, 1]) [''0.0.0.0/0''] = (False, Some missingPort)"
  by (rule acl_needs_port) simp

text \<open>
  Credentials written in front of the listening address without a colon, or with an empty user
  name, switch the authentication off instead of being required: the handlers then admit every
  client that the access control list admits, whatever credentials it sends.
\<close>
lemma credentials_without_colon:
  assumes "CHR ''@'' \<notin> set user" "user \<noteq> []" "CHR '':'' \<notin> set user \<or> user ! 0 = CHR '':''"
    and "auth_setup (user @ ''@'' @ addr) = (u, p, l)"
  shows "l = addr \<and> (admission acls u p r = None \<longleftrightarrow> IsIPInSubnets (RemoteAddr r) acls = (True, None))"
proof -
  have at: "index_of CHR ''@'' (user @ CHR ''@'' # addr) = Some (length user)"
    using assms(1) by (rule index_of_append)
  have "index_of CHR '':'' user = None \<or> index_of CHR '':'' user = Some 0"
    using assms(2,3) by (cases user) (auto simp: index_of_None)
  then have "(u, p, l) = ([], [], addr)"
    using assms(2,4) at by (auto simp: auth_setup_def Let_def)
  then show ?thesis by (simp add: admission_None)
qed

lemma credentials_without_colon_witness:
  "admission [''0.0.0.0/0''] (fst (auth_setup ''secret@:80'')) [] \<lparr>RemoteAddr = ''1.2.3.4:5'', BasicAuth = None, URLPath = ''/config''\<rparr>
     = None \<longleftrightarrow> IsIPInSubnets ''1.2.3.4:5'' [''0.0.0.0/0''] = (True, None)"
proof -
  have "auth_setup (''secret'' @ ''@'' @ '':80'') = ([], [], '':80'')" by (simp add: auth_setup_def)
  from credentials_without_colon [OF _ _ _ this] this show ?thesis by simp
qed

end
