(* ===== verification/StatusServer.thy ===== *)
theory StatusServer
  imports Acl Peer TimeText
begin

text \<open>
  The status server of \<open>cmd/rabbit.go\<close>: the information functions of the pools that it reports,
  the two request handlers of each role, and the export of the counters as Prometheus gauges. Go
  iterates over a map in an unspecified order, so the functions that list a map take the order of
  its keys. In the reports a time stands for its formatted text, and constants and the network addresses
  of the tunnels are left out. The values that the Go runtime contributes to the statistics are arguments; \<open>float64\<close>
  is modelled without rounding.
\<close>

section \<open>Reports\<close>

text \<open>The time of the last activity as text, in the local time zone.\<close>
definition GetLastActiveStr :: "int \<Rightarrow> 'a baseConnection_scheme \<Rightarrow> string" where
  "GetLastActiveStr zone c = format_time zone (sint (LastActivity c))"

definition in_GetLastActiveStr :: "int \<Rightarrow> InboundConnection \<Rightarrow> string" where
  "in_GetLastActiveStr zone c = format_time zone (sint (inLastActivity c))"

definition tGetLastActiveStr :: "int \<Rightarrow> Tunnel \<Rightarrow> string" where
  "tGetLastActiveStr zone t = format_time zone (sint (tLastActivity t))"

record tunnel_info =
  ti_tunnel_id :: u32
  ti_peer_id :: u32
  ti_is_active :: bool
  ti_last_activity :: string
  ti_latency_nano :: i64
  ti_sent_bytes :: u64
  ti_recv_bytes :: u64

definition GetTunnelConnsInfo :: "int \<Rightarrow> u32 list \<Rightarrow> TunnelPool \<Rightarrow> tunnel_info list" where
  "GetTunnelConnsInfo zone ks tp =
     map (\<lambda>tunn. \<lparr>ti_tunnel_id = tunnelID tunn, ti_peer_id = tpPeerID tp, ti_is_active = IsActive tunn,
            ti_last_activity = tGetLastActiveStr zone tunn, ti_latency_nano = tGetLatencyNano tunn,
            ti_sent_bytes = tSentBytes tunn, ti_recv_bytes = tRecvBytes tunn\<rparr>)
       (List.map_filter (tunnelMapping tp) ks)"

record conn_info =
  ci_connection_id :: u32
  ci_last_activity :: string
  ci_latency_nano :: i64
  ci_recv_queue_length :: nat
  ci_ordered_recv_queue_length :: nat
  ci_sent_bytes :: u64
  ci_recv_bytes :: u64

text \<open>An inbound connection reports its own activity field, an outbound one that of the base.\<close>
fun connection_info :: "int \<Rightarrow> pooled \<Rightarrow> conn_info" where
  "connection_info zone (PIn c) =
     \<lparr>ci_connection_id = GetConnectionID c, ci_last_activity = in_GetLastActiveStr zone c, ci_latency_nano = GetLatencyNano c,
      ci_recv_queue_length = length (chq (GetRecvQueue c)),
      ci_ordered_recv_queue_length = length (chq (GetOrderedRecvQueue c)),
      ci_sent_bytes = GetSentBytes c, ci_recv_bytes = GetRecvBytes c\<rparr>"
| "connection_info zone (POut c) =
     \<lparr>ci_connection_id = GetConnectionID c, ci_last_activity = GetLastActiveStr zone c, ci_latency_nano = GetLatencyNano c,
      ci_recv_queue_length = length (chq (GetRecvQueue c)),
      ci_ordered_recv_queue_length = length (chq (GetOrderedRecvQueue c)),
      ci_sent_bytes = GetSentBytes c, ci_recv_bytes = GetRecvBytes c\<rparr>"

definition GetConnectionsInfo :: "int \<Rightarrow> u32 list \<Rightarrow> ConnectionPool \<Rightarrow> conn_info list" where
  "GetConnectionsInfo zone ks cp = map (connection_info zone) (List.map_filter (connectionMapping cp) ks)"

text \<open>
  A connection pool comes with the tunnel pool that it points to, and reports it.
\<close>
definition GetTunnelsInfo :: "int \<Rightarrow> u32 list \<Rightarrow> ConnectionPool \<times> TunnelPool \<Rightarrow> tunnel_info list" where
  [simp]: "GetTunnelsInfo zone ks pools = GetTunnelConnsInfo zone ks (snd pools)"

definition cp_GetTunnelPoolInfo :: "ConnectionPool \<times> TunnelPool \<Rightarrow> (string \<times> nat) list" where
  [simp]: "cp_GetTunnelPoolInfo pools = GetTunnelPoolInfo (snd pools)"

definition GetAllConnectionPools :: "u32 list \<Rightarrow> PeerGroup \<Rightarrow> (ConnectionPool \<times> TunnelPool) list" where
  "GetAllConnectionPools pids pg =
     map (\<lambda>peer. (GetConnectionPool peer, GetTunnelPool peer)) (List.map_filter (peerMapping pg) pids)"

definition GetAllTunnelPools :: "u32 list \<Rightarrow> PeerGroup \<Rightarrow> TunnelPool list" where
  "GetAllTunnelPools pids pg = map GetTunnelPool (List.map_filter (peerMapping pg) pids)"

section \<open>Statistics as a map and as gauges\<close>

text \<open>The dynamic types of the values in the map that \<open>GetStats\<close> returns.\<close>
datatype goval = VUint64 u64 | VUint32 u32 | VInt32 i32 | VInt int | VFloat rat | VTime int

text \<open>What the Go runtime contributes: number of goroutines and memory figures.\<close>
record runtime_stats =
  rt_goroutines :: int
  rt_Alloc :: u64
  rt_TotalAlloc :: u64
  rt_HeapAlloc :: u64
  rt_Sys :: u64
  rt_HeapSys :: u64
  rt_HeapIdle :: u64
  rt_HeapInuse :: u64
  rt_HeapReleased :: u64
  rt_HeapObjects :: u64
  rt_Mallocs :: u64
  rt_Frees :: u64
  rt_PauseTotalNs :: u64
  rt_NumGC :: u32
  rt_LastGC :: u64

definition stats_map :: "runtime_stats \<Rightarrow> stats_report \<Rightarrow> (string \<times> goval) list" where
  "stats_map m s =
     [(''total_sent_bytes'', VUint64 (total_sent_bytes s)),
      (''total_recv_bytes'', VUint64 (total_recv_bytes s)),
      (''tunnel_count'', VInt32 (tunnel_count s)),
      (''connection_count'', VInt32 (connection_count s)),
      (''send_rate_Bps'', VFloat (send_rate_Bps s)),
      (''recv_rate_Bps'', VFloat (recv_rate_Bps s)),
      (''goroutine_count'', VInt (rt_goroutines m)),
      (''mem_alloc'', VUint64 (rt_Alloc m)),
      (''total_mem_alloc'', VUint64 (rt_TotalAlloc m)),
      (''mem_heap_alloc'', VUint64 (rt_HeapAlloc m)),
      (''mem_sys'', VUint64 (rt_Sys m)),
      (''heap_sys'', VUint64 (rt_HeapSys m)),
      (''heap_idle'', VUint64 (rt_HeapIdle m)),
      (''heap_inuse'', VUint64 (rt_HeapInuse m)),
      (''heap_released'', VUint64 (rt_HeapReleased m)),
      (''heap_objects'', VUint64 (rt_HeapObjects m)),
      (''obj_mallocs'', VUint64 (rt_Mallocs m)),
      (''obj_release'', VUint64 (rt_Frees m)),
      (''gc_pause_ms'', VFloat (of_nat (unat (rt_PauseTotalNs m)) / 1000000)),
      (''gc_count'', VUint32 (rt_NumGC m)),
      (''last_gc'', VTime (sint (rt_LastGC m)))]"

text \<open>Type assertions with the conversion to \<open>float64\<close>; a time gives its whole seconds.\<close>
fun as_uint64 :: "goval \<Rightarrow> rat option" where
  "as_uint64 (VUint64 v) = Some (of_nat (unat v))" | "as_uint64 _ = None"

fun as_uint32 :: "goval \<Rightarrow> rat option" where
  "as_uint32 (VUint32 v) = Some (of_nat (unat v))" | "as_uint32 _ = None"

fun as_int :: "goval \<Rightarrow> rat option" where
  "as_int (VInt v) = Some (of_int v)" | "as_int _ = None"

fun as_float64 :: "goval \<Rightarrow> rat option" where
  "as_float64 (VFloat v) = Some v" | "as_float64 _ = None"

fun as_time :: "goval \<Rightarrow> rat option" where
  "as_time (VTime ns) = Some (of_int (ns div 1000000000))" | "as_time _ = None"

text \<open>The gauges, by their names.\<close>
type_synonym gauges = "string \<Rightarrow> rat"

text \<open>One \<open>if val, ok := data[...].(type); ok\<close> of the source.\<close>
definition set_gauge :: "(string \<times> goval) list \<Rightarrow> string \<Rightarrow> (goval \<Rightarrow> rat option) \<Rightarrow> string \<Rightarrow> gauges \<Rightarrow> gauges" where
  "set_gauge data key assert_type name m =
     (case map_of data key of
        None \<Rightarrow> m
      | Some v \<Rightarrow> (case assert_type v of None \<Rightarrow> m | Some x \<Rightarrow> m(name := x)))"

text \<open>For each update its key, the asserted type, and the name the gauge is registered under.\<close>
definition gauge_table :: "(string \<times> (goval \<Rightarrow> rat option) \<times> string) list" where
  "gauge_table =
     [(''total_sent_bytes'', as_uint64, ''rabbit_network_total_sent_bytes''),
      (''total_recv_bytes'', as_uint64, ''rabbit_network_total_recv_bytes''),
      (''connection_count'', as_int, ''rabbit_network_connection_count''),
      (''tunnel_count'', as_int, ''rabbit_network_tunnel_count''),
      (''send_rate_Bps'', as_float64, ''rabbit_network_send_rate_bps''),
      (''recv_rate_Bps'', as_float64, ''rabbit_network_recv_rate_bps''),
      (''goroutine_count'', as_int, ''rabbit_runtime_goroutine_count''),
      (''mem_alloc'', as_uint64, ''rabbit_memstats_alloc_bytes''),
      (''mem_heap_alloc'', as_uint64, ''rabbit_memstats_heap_alloc_bytes''),
      (''total_mem_alloc'', as_uint64, ''rabbit_memstats_total_alloc_bytes''),
      (''mem_sys'', as_uint64, ''rabbit_memstats_sys_bytes''),
      (''heap_sys'', as_uint64, ''rabbit_memstats_heap_sys_bytes''),
      (''heap_idle'', as_uint64, ''rabbit_memstats_heap_idle_bytes''),
      (''heap_inuse'', as_uint64, ''rabbit_memstats_heap_inuse_bytes''),
      (''heap_released'', as_uint64, ''rabbit_memstats_heap_released_bytes''),
      (''heap_objects'', as_uint64, ''rabbit_memstats_heap_objects''),
      (''obj_mallocs'', as_uint64, ''rabbit_memstats_mallocs_total''),
      (''obj_release'', as_uint64, ''rabbit_memstats_frees_total''),
      (''gc_pause_ms'', as_float64, ''rabbit_runtime_gc_pause_ms''),
      (''gc_count'', as_uint32, ''rabbit_runtime_gc_count''),
      (''last_gc'', as_time, ''rabbit_runtime_last_gc_timestamp'')]"

definition updatePrometheusMetrics :: "(string \<times> goval) list \<Rightarrow> gauges \<Rightarrow> gauges" where
  "updatePrometheusMetrics data m =
     fold (\<lambda>(key, assert_type, name). set_gauge data key assert_type name) gauge_table m"

section \<open>Handlers\<close>

datatype response =
    Refused nat
  | ConfigReply Config
  | StatusReply string stats_report "(string \<times> nat) list list" "(nat \<times> nat \<times> nat \<times> bool) list"
  | TunnelsReply "tunnel_info list"
  | ConnectionsReply "conn_info list"
  | MetricsReply gauges
  | NotFound
  | Redirected string

definition config_handler :: "string list \<Rightarrow> string \<Rightarrow> string \<Rightarrow> Config \<Rightarrow> request \<Rightarrow> response" where
  "config_handler acls username password cfg r =
     (case admission acls username password r of Some code \<Rightarrow> Refused code | None \<Rightarrow> ConfigReply cfg)"

text \<open>The orders in which the maps are iterated, the runtime figures, the lengths of the send queues, and the local time zone.\<close>
record status_env =
  se_peers :: "u32 list"
  se_peers2 :: "u32 list"
  se_tunnels :: "TunnelPool \<Rightarrow> u32 list"
  se_conns :: "ConnectionPool \<Rightarrow> u32 list"
  se_sendq :: "ConnectionPool \<Rightarrow> nat"
  se_runtime :: runtime_stats
  se_zone :: int

text \<open>The statistics of the role the process runs in.\<close>
definition role_stats :: "Config \<Rightarrow> stats_pair \<Rightarrow> stats_report" where
  "role_stats cfg g = GetStats (if cfg_mode cfg = ClientMode then ClientStats g else ServerStats g)"

text \<open>The part of the two status handlers that chooses the reply by the path; the gauges are updated.\<close>
definition status_reply :: "status_env \<Rightarrow> Config \<Rightarrow> stats_report \<Rightarrow> (string \<times> nat) list list \<Rightarrow>
    (nat \<times> nat \<times> nat \<times> bool) list \<Rightarrow> tunnel_info list \<Rightarrow> conn_info list \<Rightarrow> request \<Rightarrow> gauges \<Rightarrow> response \<times> gauges" where
  "status_reply se cfg statsData tunnelPools connPools tunnels conns r m =
     (if URLPath r = ''/status/'' then (StatusReply (cfg_Mode cfg) statsData tunnelPools connPools, m)
      else if URLPath r = ''/status/tunnels'' then (TunnelsReply tunnels, m)
      else if URLPath r = ''/status/connections'' then (ConnectionsReply conns, m)
      else if URLPath r = ''/status/metrics''
      then (let m' = updatePrometheusMetrics (stats_map (se_runtime se) statsData) m in (MetricsReply m', m'))
      else (NotFound, m))"

text \<open>The client reports its one peer. (In server mode this handler is not used.)\<close>
definition status_handler1 ::
  "status_env \<Rightarrow> string list \<Rightarrow> string \<Rightarrow> string \<Rightarrow> Config \<Rightarrow> Peer \<Rightarrow> stats_pair \<Rightarrow> request \<Rightarrow> gauges \<Rightarrow> response \<times> gauges" where
  "status_handler1 se acls username password cfg p g r m =
     (case admission acls username password r of
        Some code \<Rightarrow> (Refused code, m)
      | None \<Rightarrow>
          (let cp = GetConnectionPool p; tp = GetTunnelPool p
           in status_reply se cfg (role_stats cfg g) [cp_GetTunnelPoolInfo (cp, tp)]
                [GetConnectionPoolInfo (se_sendq se cp) (GetTunnelMappingLen tp) cp]
                (GetTunnelsInfo (se_zone se) (se_tunnels se tp) (cp, tp)) (GetConnectionsInfo (se_zone se) (se_conns se cp) cp) r m))"

text \<open>The server collects the pools of all peers.\<close>
definition status_handler2 ::
  "status_env \<Rightarrow> string list \<Rightarrow> string \<Rightarrow> string \<Rightarrow> Config \<Rightarrow> PeerGroup \<Rightarrow> stats_pair \<Rightarrow> request \<Rightarrow> gauges \<Rightarrow> response \<times> gauges" where
  "status_handler2 se acls username password cfg pg g r m =
     (case admission acls username password r of
        Some code \<Rightarrow> (Refused code, m)
      | None \<Rightarrow>
          (let (cps, tps) = (if cfg_mode cfg = ServerMode
                 then (GetAllConnectionPools (se_peers se) pg, GetAllTunnelPools (se_peers2 se) pg) else ([], []))
           in status_reply se cfg (role_stats cfg g) (map GetTunnelPoolInfo tps)
                (map (\<lambda>(cp, tp). GetConnectionPoolInfo (se_sendq se cp) (GetTunnelMappingLen tp) cp) cps)
                (concat (map (\<lambda>tp. GetTunnelConnsInfo (se_zone se) (se_tunnels se tp) tp) tps))
                (concat (map (\<lambda>(cp, tp). GetConnectionsInfo (se_zone se) (se_conns se cp) cp) cps)) r m))"

text \<open>
  The multiplexer of \<open>net/http\<close> with the two patterns that are registered: \<open>/config\<close> matches itself,
  \<open>/status/\<close> every path below it, and a request for \<open>/status\<close> is redirected. (Paths are clean, as the
  multiplexer redirects others.)
\<close>
definition mux :: "(request \<Rightarrow> gauges \<Rightarrow> response \<times> gauges) \<Rightarrow> (request \<Rightarrow> gauges \<Rightarrow> response \<times> gauges)
    \<Rightarrow> request \<Rightarrow> gauges \<Rightarrow> response \<times> gauges" where
  "mux conf status r m =
     (if URLPath r = ''/config'' then conf r m
      else if prefix ''/status/'' (URLPath r) then status r m
      else if URLPath r = ''/status'' then (Redirected ''/status/'', m)
      else (NotFound, m))"

fun serve_requests :: "('a \<Rightarrow> gauges \<Rightarrow> response \<times> gauges) \<Rightarrow> 'a list \<Rightarrow> gauges \<Rightarrow> response list \<times> gauges" where
  "serve_requests handler [] m = ([], m)"
| "serve_requests handler (q # qs) m =
     (let (resp, m1) = handler q m; (resps, m2) = serve_requests handler qs m1 in (resp # resps, m2))"

text \<open>
  The status server of the client: it sets up the list and the credentials, listens, and answers
  requests, each of which meets some state of the process.
\<close>
definition statusServer1 :: "(string \<Rightarrow> go_error option) \<Rightarrow> string \<Rightarrow> string \<Rightarrow> Config
    \<Rightarrow> (status_env \<times> Peer \<times> stats_pair \<times> request) list \<Rightarrow> gauges \<Rightarrow> response list \<times> gauges" where
  "statusServer1 Listen listen acl cfg qs m =
     (let acls = acl_setup acl; (username, password, addr) = auth_setup listen
      in case Listen addr of
           Some e \<Rightarrow> ([], m)
         | None \<Rightarrow> serve_requests (\<lambda>(se, p, g, r).
             mux (\<lambda>r m. (config_handler acls username password cfg r, m))
               (status_handler1 se acls username password cfg p g) r) qs m)"

definition statusServer2 :: "(string \<Rightarrow> go_error option) \<Rightarrow> string \<Rightarrow> string \<Rightarrow> Config
    \<Rightarrow> (status_env \<times> PeerGroup \<times> stats_pair \<times> request) list \<Rightarrow> gauges \<Rightarrow> response list \<times> gauges" where
  "statusServer2 Listen listen acl cfg qs m =
     (let acls = acl_setup acl; (username, password, addr) = auth_setup listen
      in case Listen addr of
           Some e \<Rightarrow> ([], m)
         | None \<Rightarrow> serve_requests (\<lambda>(se, pg, g, r).
             mux (\<lambda>r m. (config_handler acls username password cfg r, m))
               (status_handler2 se acls username password cfg pg g) r) qs m)"

text \<open>\<open>MustRegister\<close> panics when a name is taken.\<close>
fun MustRegister :: "string list \<Rightarrow> string list \<Rightarrow> string list outcome" where
  "MustRegister [] reg = Ret reg"
| "MustRegister (n # ns) reg = (if n \<in> set reg then Panic else MustRegister ns (reg @ [n]))"

text \<open>The names of the gauges, in the order in which they are registered.\<close>
definition registered_gauges :: "string list" where
  "registered_gauges =
     [''rabbit_network_total_sent_bytes'', ''rabbit_network_total_recv_bytes'', ''rabbit_network_tunnel_count'',
      ''rabbit_network_connection_count'', ''rabbit_network_send_rate_bps'', ''rabbit_network_recv_rate_bps'',
      ''rabbit_runtime_goroutine_count'', ''rabbit_memstats_alloc_bytes'', ''rabbit_memstats_total_alloc_bytes'',
      ''rabbit_memstats_sys_bytes'', ''rabbit_memstats_heap_alloc_bytes'', ''rabbit_memstats_heap_sys_bytes'',
      ''rabbit_memstats_heap_idle_bytes'', ''rabbit_memstats_heap_inuse_bytes'', ''rabbit_memstats_heap_released_bytes'',
      ''rabbit_memstats_heap_objects'', ''rabbit_memstats_mallocs_total'', ''rabbit_memstats_frees_total'',
      ''rabbit_runtime_gc_pause_ms'', ''rabbit_runtime_gc_count'', ''rabbit_runtime_last_gc_timestamp'']"

definition prom_init :: "string list \<Rightarrow> string list outcome" where
  "prom_init reg = MustRegister registered_gauges reg"

text \<open>A server with one peer and one connection, for the examples.\<close>
definition sample_peer :: Peer where
  "sample_peer = (NewServerPeerWithID \<lparr>tpSendQueueSize = 64, tpRecvQueueSize = 64\<rparr> 5)
     \<lparr>prConnectionPool := (NewConnectionPool True)\<lparr>connectionMapping :=
        [9 \<mapsto> PIn (NewInboundConnection default_conn_config 0 9)]\<rparr>\<rparr>"

definition sample_env :: status_env where
  "sample_env =
     \<lparr>se_peers = [5], se_peers2 = [5], se_tunnels = \<lambda>_. [], se_conns = \<lambda>_. [9], se_sendq = \<lambda>_. 0,
      se_runtime = \<lparr>rt_goroutines = 9, rt_Alloc = 1, rt_TotalAlloc = 1, rt_HeapAlloc = 1, rt_Sys = 1, rt_HeapSys = 1,
        rt_HeapIdle = 1, rt_HeapInuse = 1, rt_HeapReleased = 1, rt_HeapObjects = 1, rt_Mallocs = 1, rt_Frees = 1,
        rt_PauseTotalNs = 1, rt_NumGC = 1, rt_LastGC = 1\<rparr>, se_zone = 0\<rparr>"

section \<open>Lemmas\<close>

text \<open>The reported text determines the time of the last activity to the microsecond.\<close>
lemma last_activity_read:
  assumes "\<bar>zone\<bar> \<le> 86400"
  shows "read_time (ci_last_activity (connection_info zone (PIn c))) = Some ((sint (inLastActivity c) + zone * 1000000000) div 1000)"
    and "read_time (ci_last_activity (connection_info zone (POut oc))) = Some ((sint (LastActivity oc) + zone * 1000000000) div 1000)"
    and "read_time (tGetLastActiveStr zone t) = Some ((sint (tLastActivity t) + zone * 1000000000) div 1000)"
  using assms sint_greater_eq [of "inLastActivity c"] sint_less [of "inLastActivity c"]
    sint_greater_eq [of "LastActivity oc"] sint_less [of "LastActivity oc"]
    sint_greater_eq [of "tLastActivity t"] sint_less [of "tLastActivity t"]
  by (simp_all add: in_GetLastActiveStr_def GetLastActiveStr_def tGetLastActiveStr_def format_time_read)

lemma set_gauge_other: "name \<noteq> name' \<Longrightarrow> set_gauge data key a name m name' = m name'"
  by (simp add: set_gauge_def split: option.splits)

lemma set_gauge_local:
  "m name = m' name \<Longrightarrow> set_gauge data key a name m name = set_gauge data key a name m' name"
  by (simp add: set_gauge_def split: option.splits)

lemma fold_set_gauge_other:
  "name \<notin> snd ` snd ` set tbl \<Longrightarrow> fold (\<lambda>(key, a, n). set_gauge data key a n) tbl m name = m name"
  by (induction tbl arbitrary: m) (auto simp: set_gauge_other)

text \<open>With distinct names every gauge is written at most once, from the value of its key.\<close>
lemma fold_set_gauge:
  assumes "distinct (map (\<lambda>e. snd (snd e)) tbl)" and "(key, a, name) \<in> set tbl"
  shows "fold (\<lambda>(key, a, n). set_gauge data key a n) tbl m name = set_gauge data key a name m name"
  using assms
proof (induction tbl arbitrary: m)
  case (Cons e tbl)
  obtain k b n where e: "e = (k, b, n)" by (cases e) auto
  show ?case
  proof (cases "(key, a, name) = e")
    case True
    with Cons.prems(1) have "name \<notin> snd ` snd ` set tbl" using e by force
    with True e show ?thesis by (simp add: fold_set_gauge_other)
  next
    case False
    with Cons.prems have in_tbl: "(key, a, name) \<in> set tbl" by simp
    with Cons.prems(1) e have "n \<noteq> name" by force
    then have "set_gauge data key a name (set_gauge data k b n m) name = set_gauge data key a name m name"
      by (intro set_gauge_local set_gauge_other)
    with Cons.IH [OF _ in_tbl] Cons.prems(1) e show ?thesis by simp
  qed
qed simp

lemma updatePrometheusMetrics_gauge:
  assumes "(key, a, name) \<in> set gauge_table"
  shows "updatePrometheusMetrics data m name = set_gauge data key a name m name"
proof -
  have "distinct (map (\<lambda>e. snd (snd e)) gauge_table)" by (simp add: gauge_table_def)
  from fold_set_gauge [OF this assms] show ?thesis by (simp add: updatePrometheusMetrics_def)
qed

lemma map_filter_keys:
  assumes "set ks = dom m"
  shows "set (List.map_filter m ks) = ran m"
proof -
  have "set (List.map_filter m ks) = {y. \<exists>k\<in>set ks. m k = Some y}"
    by (induction ks) (auto simp: List.map_filter_simps split: option.splits)
  then show ?thesis using assms by (auto simp: ran_def)
qed

lemma admitted_iff:
  assumes "ens \<noteq> []" and "\<forall>en\<in>set ens. valid_entry en" and "length x = 4"
    and "user \<noteq> []" and "RemoteAddr r = ipv4_string x @ '':'' @ itoa port"
  shows "admission (acl_setup (join_str '','' (map entry_text ens))) user pass r = None
    \<longleftrightarrow> (\<exists>en\<in>set ens. covers en x) \<and> BasicAuth r = Some (user, pass)"
  using acl_correct [OF assms(1-3)] assms(4,5) by (simp add: admission_None)

lemma MustRegister_ok: "distinct ns \<Longrightarrow> set ns \<inter> set reg = {} \<Longrightarrow> MustRegister ns reg = Ret (reg @ ns)"
  by (induction ns arbitrary: reg) auto

text \<open>Every gauge that is updated is registered, once, so that the metrics page shows it; a second call panics.\<close>
lemma prom_init_complete:
  "\<exists>reg. prom_init [] = Ret reg \<and> distinct reg \<and> set reg = (\<lambda>e. snd (snd e)) ` set gauge_table \<and> prom_init reg = Panic"
proof -
  have "distinct registered_gauges" "set registered_gauges = set (map (\<lambda>e. snd (snd e)) gauge_table)" by code_simp+
  moreover have "MustRegister registered_gauges registered_gauges = Panic" by (simp add: registered_gauges_def)
  ultimately show ?thesis using MustRegister_ok [of registered_gauges "[]"] by (simp add: prom_init_def)
qed

text \<open>The responses that tell something about the process.\<close>
fun discloses :: "response \<Rightarrow> bool" where
  "discloses (Refused code) = False"
| "discloses NotFound = False"
| "discloses (Redirected p) = False"
| "discloses _ = True"

text \<open>A handler that discloses nothing, and changes no gauge, unless the request is allowed.\<close>
definition guarded :: "('a \<Rightarrow> bool) \<Rightarrow> ('a \<Rightarrow> gauges \<Rightarrow> response \<times> gauges) \<Rightarrow> bool" where
  "guarded allowed handler \<longleftrightarrow>
     (\<forall>q m. \<not> allowed q \<longrightarrow> \<not> discloses (fst (handler q m)) \<and> snd (handler q m) = m)"

lemma serve_requests_guarded:
  assumes "guarded allowed handler" "serve_requests handler qs m = (resps, m')"
  shows "length resps = length qs \<and> (\<forall>i<length qs. discloses (resps ! i) \<longrightarrow> allowed (qs ! i))
    \<and> ((\<forall>q\<in>set qs. \<not> allowed q) \<longrightarrow> m' = m)"
  using assms(2)
proof (induction qs arbitrary: m resps)
  case (Cons q qs)
  obtain resp m1 where h: "handler q m = (resp, m1)" by fastforce
  obtain rs where rs: "serve_requests handler qs m1 = (rs, m')" "resps = resp # rs"
    using Cons.prems h by (auto split: prod.splits)
  have "\<not> allowed q \<Longrightarrow> \<not> discloses resp \<and> m1 = m"
    using assms(1) h unfolding guarded_def by (metis fst_conv snd_conv)
  with Cons.IH [OF rs(1)] rs(2) show ?case by (auto simp: nth_Cons split: nat.splits)
qed simp

lemma serve_requests_nth:
  assumes "serve_requests handler qs m = (resps, m')" "i < length qs"
  shows "\<exists>mi. resps ! i = fst (handler (qs ! i) mi)"
  using assms
proof (induction qs arbitrary: m resps i)
  case (Cons q qs)
  obtain resp m1 where h: "handler q m = (resp, m1)" by fastforce
  obtain rs where rs: "serve_requests handler qs m1 = (rs, m')" "resps = resp # rs"
    using Cons.prems h by (auto split: prod.splits)
  have "resp = fst (handler q m)" using h by simp
  with Cons.IH [OF rs(1)] Cons.prems(2) rs(2) show ?case by (cases i) auto
qed simp

lemma guarded_mux:
  assumes "\<And>q m. \<not> allowed q \<Longrightarrow> admission acls u p (req q) \<noteq> None"
    and "\<And>q m code. admission acls u p (req q) = Some code \<Longrightarrow> status q (req q) m = (Refused code, m)"
  shows "guarded allowed (\<lambda>q. mux (\<lambda>r m. (config_handler acls u p cfg r, m)) (status q) (req q))"
  using assms by (fastforce simp: guarded_def mux_def config_handler_def)

section \<open>Properties\<close>

text \<open>The requests that the operator means to allow.\<close>
definition allowed :: "(byte list \<times> nat option) list \<Rightarrow> string \<Rightarrow> string \<Rightarrow> request \<Rightarrow> bool" where
  "allowed ens user pass r \<longleftrightarrow> BasicAuth r = Some (user, pass)
     \<and> (\<exists>x port. length x = 4 \<and> RemoteAddr r = ipv4_string x @ '':'' @ itoa port \<and> (\<exists>en\<in>set ens. covers en x))"

definition ipv4_client :: "request \<Rightarrow> bool" where
  "ipv4_client r \<longleftrightarrow> (\<exists>x port. length x = 4 \<and> RemoteAddr r = ipv4_string x @ '':'' @ itoa port)"

lemma admission_allowed:
  assumes "ens \<noteq> []" "\<forall>en\<in>set ens. valid_entry en" "user \<noteq> []" "ipv4_client r"
  shows "admission (acl_setup (join_str '','' (map entry_text ens))) user pass r = None \<longleftrightarrow> allowed ens user pass r"
proof -
  note iff = admitted_iff [OF assms(1,2) _ assms(3), of _ r]
  obtain x port where x: "length x = 4" "RemoteAddr r = ipv4_string x @ '':'' @ itoa port"
    using assms(4) by (auto simp: ipv4_client_def)
  show ?thesis
  proof
    assume "admission (acl_setup (join_str '','' (map entry_text ens))) user pass r = None"
    then show "allowed ens user pass r" using iff [OF x] x by (auto simp: allowed_def)
  next
    assume "allowed ens user pass r"
    then obtain y q where "length y = 4" "RemoteAddr r = ipv4_string y @ '':'' @ itoa q"
      "\<exists>en\<in>set ens. covers en y" "BasicAuth r = Some (user, pass)" by (auto simp: allowed_def)
    with iff [of y q] show "admission (acl_setup (join_str '','' (map entry_text ens))) user pass r = None" by simp
  qed
qed

text \<open>Both status servers, with a handler for the paths below \<open>/status/\<close> that refuses what is not admitted.\<close>
lemma status_server_run:
  assumes "ens \<noteq> []" "\<forall>en\<in>set ens. valid_entry en" "user \<noteq> []" "\<forall>q\<in>set qs. ipv4_client (req q)"
    and "acls = acl_setup (join_str '','' (map entry_text ens))"
    and "\<And>q m code. admission acls user pass (req q) = Some code \<Longrightarrow> status q (req q) m = (Refused code, m)"
    and "serve_requests (\<lambda>q. mux (\<lambda>r m. (config_handler acls user pass cfg r, m)) (status q) (req q)) qs m = (resps, m')"
  shows "length resps = length qs
    \<and> (\<forall>i<length qs. (discloses (resps ! i) \<longrightarrow> allowed ens user pass (req (qs ! i)))
         \<and> (allowed ens user pass (req (qs ! i)) \<and> URLPath (req (qs ! i)) = ''/config'' \<longrightarrow> resps ! i = ConfigReply cfg))
    \<and> ((\<forall>q\<in>set qs. \<not> allowed ens user pass (req q)) \<longrightarrow> m' = m)"
proof -
  let ?h = "\<lambda>q. mux (\<lambda>r m. (config_handler acls user pass cfg r, m)) (status q) (req q)"
  have adm: "admission acls user pass (req q) = None \<longleftrightarrow> allowed ens user pass (req q)" if "q \<in> set qs" for q
    using admission_allowed [OF assms(1-3)] assms(4,5) that by simp
  have "guarded (\<lambda>q. admission acls user pass (req q) = None) ?h" by (rule guarded_mux) (use assms(6) in auto)
  note run = serve_requests_guarded [OF this assms(7)]
  have "resps ! i = ConfigReply cfg"
    if ri: "i < length qs" "allowed ens user pass (req (qs ! i))" "URLPath (req (qs ! i)) = ''/config''" for i
  proof -
    obtain mi where "resps ! i = fst (?h (qs ! i) mi)" using serve_requests_nth [OF assms(7) ri(1)] by blast
    with ri adm [of "qs ! i"] show ?thesis by (simp add: mux_def config_handler_def)
  qed
  with run adm show ?thesis by (metis nth_mem)
qed



text \<open>
  C40. What the metrics page shows. It exports the byte counters and the rates of the statistics, but
  the gauges for the numbers of connections and tunnels are never set: the counters are
  \<open>int32\<close> and the exporter asserts \<open>int\<close>, so both gauges keep their values (zero) whatever the counts are.
\<close>
theorem metrics_exported:
  "let export = updatePrometheusMetrics (stats_map rt (GetStats s)) m in
    export ''rabbit_network_total_sent_bytes'' = of_nat (unat (totalSentBytes s))
    \<and> export ''rabbit_network_total_recv_bytes'' = of_nat (unat (totalRecvBytes s))
    \<and> export ''rabbit_network_send_rate_bps'' = send_rate_Bps (GetStats s)
    \<and> export ''rabbit_network_recv_rate_bps'' = recv_rate_Bps (GetStats s)
    \<and> export ''rabbit_network_connection_count'' = m ''rabbit_network_connection_count''
    \<and> export ''rabbit_network_tunnel_count'' = m ''rabbit_network_tunnel_count''"
proof -
  note gauge = updatePrometheusMetrics_gauge [of _ _ _ "stats_map rt (GetStats s)" m]
  have "(''total_sent_bytes'', as_uint64, ''rabbit_network_total_sent_bytes'') \<in> set gauge_table"
    "(''total_recv_bytes'', as_uint64, ''rabbit_network_total_recv_bytes'') \<in> set gauge_table"
    "(''send_rate_Bps'', as_float64, ''rabbit_network_send_rate_bps'') \<in> set gauge_table"
    "(''recv_rate_Bps'', as_float64, ''rabbit_network_recv_rate_bps'') \<in> set gauge_table"
    "(''connection_count'', as_int, ''rabbit_network_connection_count'') \<in> set gauge_table"
    "(''tunnel_count'', as_int, ''rabbit_network_tunnel_count'') \<in> set gauge_table"
    by (simp_all add: gauge_table_def)
  from this [THEN gauge] show ?thesis
    by (simp add: set_gauge_def stats_map_def GetStats_def)
qed

text \<open>
  C39. The reports of a server are complete. Whatever the order in which Go iterates over its maps, the
  connections page lists exactly the connections of the pools of all peers and the tunnels page
  exactly their tunnels.
\<close>
theorem status_complete:
  assumes "admission acls u p r = None" and "cfg_mode cfg = ServerMode"
    and "set (se_peers se) = dom (peerMapping pg)" and "set (se_peers2 se) = dom (peerMapping pg)"
    and "\<forall>peer\<in>ran (peerMapping pg).
      set (se_conns se (prConnectionPool peer)) = dom (connectionMapping (prConnectionPool peer)) \<and>
      set (se_tunnels se (prTunnelPool peer)) = dom (tunnelMapping (prTunnelPool peer))"
    and "status_handler2 se acls u p cfg pg g r m = (reply, m')"
  shows "(URLPath r = ''/status/connections'' \<longrightarrow> (\<exists>cs. reply = ConnectionsReply cs \<and>
           set cs = (\<Union>peer\<in>ran (peerMapping pg). connection_info (se_zone se) ` ran (connectionMapping (prConnectionPool peer)))))
    \<and> (URLPath r = ''/status/tunnels'' \<longrightarrow> (\<exists>ts. reply = TunnelsReply ts \<and>
           ti_tunnel_id ` set ts = (\<Union>peer\<in>ran (peerMapping pg). tunnelID ` ran (tunnelMapping (prTunnelPool peer)))))"
proof (intro conjI impI)
  have peers: "set (List.map_filter (peerMapping pg) (se_peers se)) = ran (peerMapping pg)"
    "set (List.map_filter (peerMapping pg) (se_peers2 se)) = ran (peerMapping pg)"
    using assms(3,4) by (simp_all add: map_filter_keys)
  have conns: "set (GetConnectionsInfo (se_zone se) (se_conns se (prConnectionPool peer)) (prConnectionPool peer))
      = connection_info (se_zone se) ` ran (connectionMapping (prConnectionPool peer))" if "peer \<in> ran (peerMapping pg)" for peer
    using assms(5) that by (simp add: GetConnectionsInfo_def map_filter_keys)
  have tunns: "ti_tunnel_id ` set (GetTunnelConnsInfo (se_zone se) (se_tunnels se (prTunnelPool peer)) (prTunnelPool peer))
      = tunnelID ` ran (tunnelMapping (prTunnelPool peer))" if "peer \<in> ran (peerMapping pg)" for peer
    using assms(5) that by (simp add: GetTunnelConnsInfo_def map_filter_keys image_image)
  show "\<exists>cs. reply = ConnectionsReply cs \<and>
      set cs = (\<Union>peer\<in>ran (peerMapping pg). connection_info (se_zone se) ` ran (connectionMapping (prConnectionPool peer)))"
    if "URLPath r = ''/status/connections''"
    using assms(1,2,6) that
    by (auto simp: status_handler2_def status_reply_def GetAllConnectionPools_def peers conns)
  show "\<exists>ts. reply = TunnelsReply ts \<and>
      ti_tunnel_id ` set ts = (\<Union>peer\<in>ran (peerMapping pg). tunnelID ` ran (tunnelMapping (prTunnelPool peer)))"
    if "URLPath r = ''/status/tunnels''"
    using assms(1,2,6) that
    by (auto simp: status_handler2_def status_reply_def GetAllTunnelPools_def peers image_UN tunns)
qed

theorem status_complete_witness:
  "\<exists>cs. fst (status_handler2 sample_env [] [] [] (NewDefaultConfig\<lparr>cfg_mode := ServerMode\<rparr>)
        \<lparr>peerMapping = [5 \<mapsto> sample_peer]\<rparr> (InitStats 10)
        \<lparr>RemoteAddr = ''1.2.3.4:5'', BasicAuth = None, URLPath = ''/status/connections''\<rparr> (\<lambda>_. 0)) = ConnectionsReply cs
     \<and> ci_connection_id ` set cs = {9}"
proof -
  let ?r = "\<lparr>RemoteAddr = ''1.2.3.4:5'', BasicAuth = None, URLPath = ''/status/connections''\<rparr>"
  have "admission [] [] [] ?r = None" by (simp add: admission_None IsIPInSubnets_def)
  moreover have "connectionMapping (prConnectionPool sample_peer) = [9 \<mapsto> PIn (NewInboundConnection default_conn_config 0 9)]"
    "tunnelMapping (prTunnelPool sample_peer) = Map.empty"
    by (simp_all add: sample_peer_def NewServerPeerWithID_def NewTunnelPool_def)
  ultimately show ?thesis
    using status_complete [of "[]" "[]" "[]" ?r "NewDefaultConfig\<lparr>cfg_mode := ServerMode\<rparr>" sample_env
        "\<lparr>peerMapping = [5 \<mapsto> sample_peer]\<rparr>" "InitStats 10" "\<lambda>_. 0"]
    by (auto simp: sample_env_def NewInboundConnection_def prod_eq_iff)
qed

end
