(* ===== verification/Startup.thy ===== *)
theory Startup
  imports Socks5 StatusServer SecureStream Logger
begin

text \<open>
  The two kinds of process and how they start: the client with its two listeners
  (\<open>client/client.go\<close>), the server (\<open>server/server.go\<close>), and \<open>main\<close> of \<open>cmd/rabbit.go\<close>, which makes
  one of them from the configuration. What the listeners accept is an argument; each accepted
  connection is served by its own goroutine, whose access to the shared pool is a single step (it
  holds the pool's lock), so a list of accepted connections stands for the order of these steps.
\<close>

section \<open>The client\<close>

text \<open>The cipher is kept by the manager of the tunnel pool, which hands it to every tunnel it dials.\<close>
record Client =
  cl_Peer :: Peer
  cl_cipher :: "metaCipher option"
  cl_authkey :: string

definition NewClient :: "byte list result \<Rightarrow> pool_config \<Rightarrow> u32 \<Rightarrow> int \<Rightarrow> string list \<Rightarrow> metaCipher option
    \<Rightarrow> string \<Rightarrow> bool \<Rightarrow> Client outcome" where
  "NewClient rnd cfg pid num eps cipher authkey retryfailed =
     (case NewClientPeer rnd cfg pid num eps retryfailed of
        Panic \<Rightarrow> Panic
      | Ret p \<Rightarrow> Ret \<lparr>cl_Peer = p, cl_cipher = cipher, cl_authkey = authkey\<rparr>)"

type_synonym client_state = "Client \<times> stats_pair"

definition Client_Dial :: "conn_config \<Rightarrow> i64 \<Rightarrow> u32 \<Rightarrow> string \<Rightarrow> client_state \<Rightarrow> InboundConnection \<times> client_state" where
  "Client_Dial cfg now cid address s =
     (let (c, g) = s; (conn, p, g1) = Dial cfg now cid (of_string address) (cl_Peer c) g
      in (conn, (c\<lparr>cl_Peer := p\<rparr>, g1)))"

definition Client_Cancel :: "Client \<Rightarrow> Client outcome" where
  "Client_Cancel c = (case Peer_Stop (cl_Peer c) of Panic \<Rightarrow> Panic | Ret p \<Rightarrow> Ret (c\<lparr>cl_Peer := p\<rparr>))"

text \<open>
  What \<open>Accept\<close> gives: an error, or a connection, here with the time and the random connection ID
  that the dial for it will use.
\<close>
datatype app_event = AppFails | AppConnects i64 u32 net_conn

fun ServeForward_loop :: "conn_config \<Rightarrow> string \<Rightarrow> app_event list \<Rightarrow> client_state \<Rightarrow> client_state" where
  "ServeForward_loop cfg dest [] s = s"
| "ServeForward_loop cfg dest (AppFails # es) s = ServeForward_loop cfg dest es s"
| "ServeForward_loop cfg dest (AppConnects now cid conn # es) s =
     ServeForward_loop cfg dest es (snd (Client_Dial cfg now cid dest s))"

definition ServeForward :: "conn_config \<Rightarrow> go_error option \<Rightarrow> string \<Rightarrow> app_event list \<Rightarrow> client_state
    \<Rightarrow> go_error option \<times> client_state" where
  "ServeForward cfg listen dest es s =
     (case listen of Some e \<Rightarrow> (Some e, s) | None \<Rightarrow> (None, ServeForward_loop cfg dest es s))"

fun ServeForwardSocks5_loop :: "conn_config \<Rightarrow> Socks5Auth option \<Rightarrow> app_event list \<Rightarrow> client_state \<Rightarrow> client_state" where
  "ServeForwardSocks5_loop cfg auth [] s = s"
| "ServeForwardSocks5_loop cfg auth (AppFails # es) s = ServeForwardSocks5_loop cfg auth es s"
| "ServeForwardSocks5_loop cfg auth (AppConnects now cid conn # es) (c, g) =
     (case handleSocks5Client cfg now cid auth conn (cl_Peer c) g of
        (res, conn', p, g1) \<Rightarrow> ServeForwardSocks5_loop cfg auth es (c\<lparr>cl_Peer := p\<rparr>, g1))"

text \<open>The function of the addresses to listen on decides whether listening fails.\<close>
definition ServeForwardSocks5 ::
  "(string \<Rightarrow> (string \<times> (string \<times> string) option) result) \<Rightarrow> conn_config \<Rightarrow> (string \<Rightarrow> go_error option) \<Rightarrow> string
    \<Rightarrow> app_event list \<Rightarrow> client_state \<Rightarrow> go_error option \<times> client_state" where
  "ServeForwardSocks5 url_Parse cfg Listen listen es s =
     (case parseSocks5URL url_Parse listen of
        Inl e \<Rightarrow> (Some e, s)
      | Inr u \<Rightarrow>
          (case Listen (fst u) of
             Some e \<Rightarrow> (Some e, s)
           | None \<Rightarrow> (None, ServeForwardSocks5_loop cfg (auth_info u) es s)))"

section \<open>The server\<close>

text \<open>The cipher is kept by the peer group, which hands it to every tunnel it accepts.\<close>
record Server =
  sv_peerGroup :: PeerGroup
  sv_cipher :: "metaCipher option"
  sv_keyfile :: string
  sv_certfile :: string
  sv_authkey :: string

definition NewServer :: "byte list result \<Rightarrow> metaCipher option \<Rightarrow> string \<Rightarrow> string \<Rightarrow> string \<Rightarrow> Server outcome" where
  "NewServer rnd cipher authkey keyfile certfile =
     (case NewPeerGroup rnd of
        Panic \<Rightarrow> Panic
      | Ret pg \<Rightarrow> Ret \<lparr>sv_peerGroup = pg, sv_cipher = cipher, sv_keyfile = keyfile, sv_certfile = certfile,
                       sv_authkey = authkey\<rparr>)"

text \<open>The order is the one in which the map of peers is iterated.\<close>
definition Server_Cancel :: "u32 list \<Rightarrow> Server \<Rightarrow> Server outcome" where
  "Server_Cancel pids s =
     (case pg_Stop pids (sv_peerGroup s) of Panic \<Rightarrow> Panic | Ret pg \<Rightarrow> Ret (s\<lparr>sv_peerGroup := pg\<rparr>))"

text \<open>
  One thread for each address, with the result of listening there. The threads share the peer
  group; an event says which thread accepts what, so a list of events is an interleaving. A
  thread that could not listen has returned.
\<close>
definition Serve_event :: "pool_config \<Rightarrow> go_error option list \<Rightarrow> nat \<times> accept_event \<Rightarrow> PeerGroup \<times> stats_pair
    \<Rightarrow> PeerGroup \<times> stats_pair" where
  "Serve_event cfg listens ev s =
     (if fst ev < length listens then snd (ServeThread cfg (listens ! fst ev) [snd ev] s) else s)"

definition Serve :: "pool_config \<Rightarrow> go_error option list \<Rightarrow> (nat \<times> accept_event) list \<Rightarrow> PeerGroup \<times> stats_pair
    \<Rightarrow> PeerGroup \<times> stats_pair" where
  "Serve cfg listens evs s = fold (Serve_event cfg listens) evs s"

section \<open>The main function\<close>

datatype forwarding = Socks5Proxy string | TcpForward string string

datatype process =
    Ended nat
  | Crashed
  | ClientProcess Client forwarding "(string \<times> string) option" log_globals stats_pair
  | ServerProcess Server "string list" "(string \<times> string) option" log_globals stats_pair

text \<open>The random seed, the random peer ID, and whether the syslog daemon can be reached.\<close>
record start_env =
  st_rand :: "byte list result"
  st_peerID :: u32
  st_syslog :: bool

text \<open>\<open>SendQueueSize\<close> of the tunnel pool keeps its initial value.\<close>
definition pool_config_of :: "settings \<Rightarrow> pool_config" where
  "pool_config_of st = \<lparr>tpSendQueueSize = 64, tpRecvQueueSize = nat (set_tp_RecvQueueSize st)\<rparr>"

text \<open>The error of \<open>NewAEADCipher\<close> is dropped; the cipher is then \<open>nil\<close>.\<close>
definition main_cipher :: "'blk crypto_lib \<Rightarrow> Config \<Rightarrow> metaCipher option option" where
  "main_cipher L cfg =
     map_option (case_sum (\<lambda>e. None) Some) (NewAEADCipher L (cfg_AEADCipher cfg) [] (of_string (cfg_Password cfg)))"

definition status_setting :: "Config \<Rightarrow> (string \<times> string) option" where
  "status_setting cfg = (if cfg_StatusServer cfg \<noteq> [] then Some (cfg_StatusServer cfg, cfg_StatusACL cfg) else None)"

text \<open>
  Up to the wait for a signal; \<open>None\<close> would be a key derivation that does not end. Making a channel
  of a negative size panics, which the client meets when it makes its tunnel pool.
\<close>
definition main :: "'blk crypto_lib \<Rightarrow> start_env \<Rightarrow> env \<Rightarrow> Flags \<Rightarrow> process option" where
  "main L se e fl =
     (case parseFlags e fl of
        Exits n \<Rightarrow> Some (Ended n)
      | Parsed pass mcfg st \<Rightarrow>
          if \<not> pass then Some (Ended 0)
          else (case NewLogger (st_syslog se) ''[Main]''
                       (init_globals\<lparr>LEVEL := cfg_Verbose mcfg, UseSyslog := cfg_UseSyslog mcfg\<rparr>) of
             Panic \<Rightarrow> Some (Ended 1)
           | Ret (mainlogger, lg) \<Rightarrow>
               (case main_cipher L mcfg of
                  None \<Rightarrow> None
                | Some cipher \<Rightarrow>
                    Some (if cfg_mode mcfg = ClientMode
                      then (if set_tp_RecvQueueSize st < 0 then Crashed
                            else (case NewClient (st_rand se) (pool_config_of st) (st_peerID se) (cfg_TunnelN mcfg)
                                         (cfg_RabbitAddr mcfg) cipher (cfg_AuthKey mcfg) (cfg_RetryFailedAddr mcfg) of
                               Panic \<Rightarrow> Crashed
                             | Ret c \<Rightarrow> ClientProcess c
                                 (if prefix ''socks5://'' (cfg_Listen mcfg) then Socks5Proxy (cfg_Listen mcfg)
                                  else TcpForward (cfg_Listen mcfg) (cfg_Dest mcfg))
                                 (status_setting mcfg) lg (InitStats 20)))
                      else if cfg_mode mcfg = ServerMode
                      then (case NewServer (st_rand se) cipher (cfg_AuthKey mcfg) (cfg_TLSKeyFile mcfg) (cfg_TLSCertFile mcfg) of
                               Panic \<Rightarrow> Crashed
                             | Ret s \<Rightarrow> ServerProcess s (cfg_RabbitAddr mcfg) (status_setting mcfg) lg (InitStats 20))
                      else Ended 0))))"

text \<open>After the signal; the order is the one in which the map of peers is iterated.\<close>
fun shutdown :: "u32 list \<Rightarrow> process \<Rightarrow> process outcome" where
  "shutdown pids (ClientProcess c fw status lg g) =
     (case Client_Cancel c of Panic \<Rightarrow> Panic | Ret c' \<Rightarrow> Ret (ClientProcess c' fw status (CloseSyslog lg) g))"
| "shutdown pids (ServerProcess s addrs status lg g) =
     (case Server_Cancel pids s of Panic \<Rightarrow> Panic | Ret s' \<Rightarrow> Ret (ServerProcess s' addrs status (CloseSyslog lg) g))"
| "shutdown pids (Ended n) = Ret (Ended n)"
| "shutdown pids Crashed = Ret Crashed"

text \<open>
  For the examples: a client that offers the password method, sends the user name \<open>u\<close> and the
  password \<open>p\<close>, and asks for port 80 of the address 1.2.3.4.
\<close>
definition sample_request :: "byte list" where
  "sample_request = [5, 1, 2] @ [1, 1, 117, 1, 112] @ [5, 1, 0, 1, 1, 2, 3, 4, 0, 80]"

definition sample_conn :: net_conn where
  "sample_conn = \<lparr>cin = sample_request, cout = \<lparr>slog = [], sscript = []\<rparr>\<rparr>"

section \<open>Lemmas\<close>

lemma Client_Dial_entry:
  assumes "Client_Dial cfg now cid address (c, g) = (conn, c', g')"
  shows "connectionMapping (prConnectionPool (cl_Peer c'))
      = (connectionMapping (prConnectionPool (cl_Peer c)))(cid \<mapsto> PIn conn)"
    and "sendq conn = [NewConnectBlock now cid 0 (of_string address)]"
  using assms Dial_correct [of cfg now cid "of_string address" "cl_Peer c" g]
  by (auto simp: Client_Dial_def split: prod.splits)

text \<open>The connections that a list of events brings, in order.\<close>
definition accepted_ids :: "app_event list \<Rightarrow> u32 list" where
  "accepted_ids es = List.map_filter (\<lambda>e. case e of AppFails \<Rightarrow> None | AppConnects now cid conn \<Rightarrow> Some cid) es"

lemma accepted_ids_simps [simp]:
  "accepted_ids [] = []" "accepted_ids (AppFails # es) = accepted_ids es"
  "accepted_ids (AppConnects now cid conn # es) = cid # accepted_ids es"
  by (simp_all add: accepted_ids_def List.map_filter_simps)

abbreviation client_conns :: "client_state \<Rightarrow> u32 \<rightharpoonup> pooled" where
  "client_conns s \<equiv> connectionMapping (prConnectionPool (cl_Peer (fst s)))"

lemma client_conns_Dial:
  "client_conns (snd (Client_Dial cfg now cid address s))
     = (client_conns s)(cid \<mapsto> PIn (fst (Client_Dial cfg now cid address s)))"
  by (cases s, cases "Client_Dial cfg now cid address s") (auto dest: Client_Dial_entry(1))

lemma ServeForward_keeps:
  "cid \<notin> set (accepted_ids es) \<Longrightarrow> client_conns (ServeForward_loop cfg dest es s) cid = client_conns s cid"
  by (induction cfg dest es s rule: ServeForward_loop.induct) (simp_all add: client_conns_Dial)

lemma ServeForward_loop_dials:
  assumes "distinct (accepted_ids es)" "AppConnects now cid conn \<in> set es"
  shows "\<exists>c. client_conns (ServeForward_loop cfg dest es s) cid = Some (PIn c)
    \<and> sendq c = [NewConnectBlock now cid 0 (of_string dest)]"
  using assms
proof (induction cfg dest es s rule: ServeForward_loop.induct)
  case (3 cfg dest now' cid' conn' es s)
  show ?case
  proof (cases "AppConnects now cid conn \<in> set es")
    case True
    with 3 show ?thesis by simp
  next
    case False
    with 3 have "cid' = cid" "now' = now" "cid \<notin> set (accepted_ids es)" by auto
    moreover obtain c g conn1 c1 g1 where "s = (c, g)" "Client_Dial cfg now cid dest s = (conn1, c1, g1)"
      by (metis prod_cases3 surj_pair)
    ultimately show ?thesis
      using Client_Dial_entry [of cfg now cid dest c g conn1 c1 g1] by (simp add: ServeForward_keeps)
  qed
qed simp_all

lemma handleSocks5Client_conns:
  assumes "handleSocks5Client cfg now cid auth conn p g = (res, conn', p', g')"
    and "k \<in> dom (connectionMapping (prConnectionPool p'))"
  shows "k \<in> dom (connectionMapping (prConnectionPool p)) \<or> k = cid \<and> fst (socks5Handshake auth conn) = None"
proof (cases "fst (socks5_target auth conn)")
  case (Inl e)
  then have "p' = p" using assms(1) by (auto simp: handleSocks5Client_def split: prod.splits)
  with assms(2) show ?thesis by simp
next
  case (Inr target)
  then have "fst (socks5Handshake auth conn) = None"
    by (auto simp: socks5_target_def split: prod.splits option.splits)
  moreover obtain c where "Dial cfg now cid (of_string target) p g = (c, p', g')"
    using assms(1) Inr by (auto simp: handleSocks5Client_def split: prod.splits)
  then have "connectionMapping (prConnectionPool p') = (connectionMapping (prConnectionPool p))(cid \<mapsto> PIn c)"
    using Dial_correct [of cfg now cid "of_string target" p g] by auto
  ultimately show ?thesis using assms(2) by auto
qed

lemma ServeForwardSocks5_conns:
  assumes "k \<in> dom (client_conns (ServeForwardSocks5_loop cfg auth es s))"
  shows "k \<in> dom (client_conns s) \<or>
    (\<exists>now conn. AppConnects now k conn \<in> set es \<and> fst (socks5Handshake auth conn) = None)"
  using assms
proof (induction cfg auth es s rule: ServeForwardSocks5_loop.induct)
  case (3 cfg auth now cid conn es c g)
  obtain res conn' p g1 where h: "handleSocks5Client cfg now cid auth conn (cl_Peer c) g = (res, conn', p, g1)"
    by (metis prod_cases4)
  with 3 have "k \<in> dom (connectionMapping (prConnectionPool p)) \<or>
      (\<exists>now conn. AppConnects now k conn \<in> set es \<and> fst (socks5Handshake auth conn) = None)" by auto
  with handleSocks5Client_conns [OF h] show ?case by auto
qed auto

lemma main_cipher_cases:
  assumes "lib_ok L"
  shows "aeadList L (canonical_name (cfg_AEADCipher cfg)) = None \<Longrightarrow> main_cipher L cfg = Some None"
    and "aeadList L (canonical_name (cfg_AEADCipher cfg)) \<noteq> None \<Longrightarrow> \<exists>c. main_cipher L cfg = Some (Some c) \<and> good_cipher L c"
  using NewAEADCipher_derived [OF assms, of "cfg_AEADCipher cfg" "of_string (cfg_Password cfg)"]
  by (auto simp: main_cipher_def split: option.splits)

text \<open>With any number of listening threads, too, every tunnel of the server is in the pool of its own peer.\<close>
lemma ServeThread_loop_Cons: "ServeThread_loop cfg (e # es) s = ServeThread_loop cfg es (ServeThread_loop cfg [e] s)"
  by (cases e) simp_all

text \<open>The threads together do what one thread does that accepts everything the listening ones accept.\<close>
lemma Serve_one_thread:
  "Serve cfg listens evs s =
     ServeThread_loop cfg (map snd (filter (\<lambda>ev. fst ev < length listens \<and> listens ! fst ev = None) evs)) s"
proof (induction evs arbitrary: s)
  case (Cons ev evs)
  let ?on = "fst ev < length listens \<and> listens ! fst ev = None"
  have "Serve_event cfg listens ev s = (if ?on then ServeThread_loop cfg [snd ev] s else s)"
    by (simp add: Serve_event_def ServeThread_def split: option.split)
  then have "Serve cfg listens (ev # evs) s = Serve cfg listens evs (if ?on then ServeThread_loop cfg [snd ev] s else s)"
    by (simp add: Serve_def)
  then show ?case
    unfolding Cons.IH using ServeThread_loop_Cons [of cfg "snd ev" "map snd (filter (\<lambda>ev. fst ev < length listens \<and> listens ! fst ev = None) evs)" s]
    by (cases ?on) (auto simp del: ServeThread_loop.simps)
qed (simp add: Serve_def)

lemma pg_ok_Serve: "pg_ok (fst s) \<Longrightarrow> pg_ok (fst (Serve cfg listens evs s))"
  by (simp add: Serve_one_thread pg_ok_ServeThread)

lemma parseFlags_no_files:
  assumes "fl_c fl = None" "fl_version fl = None" "fl_v fl = None"
  shows "parseFlags no_files fl = (case check_config (apply_flags fl NewDefaultConfig) of (pass, cfg) \<Rightarrow>
    Parsed pass cfg (apply_settings (apply_flags fl NewDefaultConfig)))"
  using assms by (simp add: parseFlags_def LoadConfig_def read_config_def configFilePath_def no_files_def)

section \<open>Properties\<close>



text \<open>
  C15. A SOCKS5 proxy whose address carries a user name and a password opens connections only for
  clients that know them: every connection that appears in the pool of the client belongs to an
  accepted connection which has passed the handshake with these credentials.
\<close>
theorem socks5_proxy_gated:
  assumes "take 9 listen = ''socks5://''" and "url_Parse listen = Inr (host, Some (user, pass))"
    and "k \<in> dom (client_conns (snd (ServeForwardSocks5 url_Parse cfg Listen listen es s)))"
    and "k \<notin> dom (client_conns s)"
  shows "Listen host = None \<and> (\<exists>now conn. AppConnects now k conn \<in> set es
    \<and> fst (socks5Handshake (Some \<lparr>Username = user, Password = pass\<rparr>) conn) = None)"
  using assms(3,4) ServeForwardSocks5_conns [of k cfg "Some \<lparr>Username = user, Password = pass\<rparr>" es s]
  by (auto simp: ServeForwardSocks5_def parseSocks5URL_def assms(1,2) auth_info_def split: option.splits)

theorem socks5_proxy_gated_witness:
  "\<exists>now conn. AppConnects now 7 conn \<in> set [AppConnects 5 7 sample_conn]
     \<and> fst (socks5Handshake (Some \<lparr>Username = ''u'', Password = ''p''\<rparr>) conn) = None"
proof -
  let ?s = "(\<lparr>cl_Peer = sample_peer, cl_cipher = None, cl_authkey = []\<rparr>, InitStats 20)"
    and ?a = "Some \<lparr>Username = ''u'', Password = ''p''\<rparr>" and ?url = "\<lambda>_. Inr (''h'', Some (''u'', ''p''))"
  have "fst (socks5_target ?a sample_conn) = Inr ''1.2.3.4:80''" by code_simp
  then obtain conn' where "socks5_target ?a sample_conn = (Inr ''1.2.3.4:80'', conn')" by (cases "socks5_target ?a sample_conn") auto
  moreover have "take 9 ''socks5://u:p@h'' = ''socks5://''" by simp
  ultimately have new: "7 \<in> dom (client_conns (snd (ServeForwardSocks5 ?url default_conn_config (\<lambda>_. None) ''socks5://u:p@h''
      [AppConnects 5 7 sample_conn] ?s)))"
    using Dial_correct [of default_conn_config 5 7 "of_string ''1.2.3.4:80''" sample_peer "InitStats 20"]
    by (auto simp: ServeForwardSocks5_def parseSocks5URL_def auth_info_def handleSocks5Client_def)
  have "7 \<notin> dom (client_conns ?s)" by (simp add: sample_peer_def)
  from socks5_proxy_gated [OF _ _ new this] show ?thesis by simp
qed

text \<open>
  C19. The start of the program. A configuration that passes the checks always leads to an answer
  (the key derivation ends). When the configured cipher is one of the known ones, the client and
  the server get a working cipher; when it is not, for instance because of a typing error, both run
  without any: their tunnels are the bare connections and everything is sent in plain text.
\<close>
theorem main_uses_cipher:
  assumes "lib_ok L" and "parseFlags e fl = Parsed True cfg st"
    and "known \<longleftrightarrow> aeadList L (canonical_name (cfg_AEADCipher cfg)) \<noteq> None"
  shows "(\<exists>proc. main L se e fl = Some proc)
    \<and> (main L se e fl = Some (ClientProcess c fw status lg g) \<longrightarrow>
      (if known then \<exists>ciph. cl_cipher c = Some ciph \<and> good_cipher L ciph else NewEncryptedConn conn (cl_cipher c) = PlainConn conn))
    \<and> (main L se e fl = Some (ServerProcess s addrs status lg g) \<longrightarrow>
      (if known then \<exists>ciph. sv_cipher s = Some ciph \<and> good_cipher L ciph else NewEncryptedConn conn (sv_cipher s) = PlainConn conn))"
proof (intro conjI impI)
  obtain cipher where ciph: "main_cipher L cfg = Some cipher"
    and use: "if known then \<exists>c. cipher = Some c \<and> good_cipher L c else cipher = None"
    using main_cipher_cases [OF assms(1), of cfg] assms(3)
    by (cases "aeadList L (canonical_name (cfg_AEADCipher cfg)) = None") auto
  note run = main_def assms(2) ciph
  show "\<exists>proc. main L se e fl = Some proc" by (simp add: run split: outcome.splits prod.splits)
  show "if known then \<exists>ciph. cl_cipher c = Some ciph \<and> good_cipher L ciph else NewEncryptedConn conn (cl_cipher c) = PlainConn conn"
    if "main L se e fl = Some (ClientProcess c fw status lg g)"
  proof -
    have "cl_cipher c = cipher"
      using that by (auto simp: run NewClient_def split: outcome.splits prod.splits if_splits)
    with use show ?thesis by (simp add: NewEncryptedConn_def)
  qed
  show "if known then \<exists>ciph. sv_cipher s = Some ciph \<and> good_cipher L ciph else NewEncryptedConn conn (sv_cipher s) = PlainConn conn"
    if "main L se e fl = Some (ServerProcess s addrs status lg g)"
  proof -
    have "sv_cipher s = cipher"
      using that by (auto simp: run NewServer_def split: outcome.splits prod.splits if_splits)
    with use show ?thesis by (simp add: NewEncryptedConn_def)
  qed
qed

theorem main_uses_cipher_witness:
  "\<exists>s addrs status lg g. main demo_lib \<lparr>st_rand = Inr [1, 2, 3, 4, 5, 6, 7, 8], st_peerID = 3, st_syslog = True\<rparr> no_files
       (no_flags\<lparr>fl_mode := Some ''s'', fl_password := Some ''secret'', fl_aead_cipher := Some ''rot13''\<rparr>)
     = Some (ServerProcess s addrs status lg g)
   \<and> NewEncryptedConn sample_conn (sv_cipher s) = PlainConn sample_conn"
proof -
  let ?fl = "no_flags\<lparr>fl_mode := Some ''s'', fl_password := Some ''secret'', fl_aead_cipher := Some ''rot13''\<rparr>"
    and ?se = "\<lparr>st_rand = Inr [1, 2, 3, 4, 5, 6, 7, 8], st_peerID = 3, st_syslog = True\<rparr>"
  have "ToLower ''s'' = ''s''" by code_simp
  then have mode: "cfg_Mode (apply_flags ?fl NewDefaultConfig) = ''s''" by (simp add: apply_flags_sel)
  let ?cfg = "(apply_flags ?fl NewDefaultConfig)\<lparr>cfg_mode := ServerMode\<rparr>"
  have r: "parseFlags no_files ?fl = Parsed True ?cfg (apply_settings (apply_flags ?fl NewDefaultConfig))"
    using mode by (simp add: parseFlags_no_files check_config_def DefaultPassword_def ClientMode_def ServerMode_def
        apply_flags_sel no_flags_def)
  have "canonical_name ''rot13'' = ''ROT13''" by code_simp
  then have unknown: "aeadList demo_lib (canonical_name (cfg_AEADCipher ?cfg)) = None"
    by (simp add: apply_flags_sel aeadList_def aeadAes128Gcm_def aeadAes192Gcm_def aeadAes256Gcm_def aeadChacha20Poly1305_def)
  have "\<exists>s addrs status lg g. main demo_lib ?se no_files ?fl = Some (ServerProcess s addrs status lg g)"
    using main_cipher_cases(1) [OF demo_lib_ok unknown]
    by (simp add: main_def r NewLogger_def ServerMode_def ClientMode_def NewServer_def NewPeerGroup_def initRand_def Uint64_def)
  then obtain s addrs status lg g where m: "main demo_lib ?se no_files ?fl = Some (ServerProcess s addrs status lg g)"
    by blast
  from main_uses_cipher [OF demo_lib_ok r, of False ?se _ _ _ _ _ sample_conn s addrs] unknown m show ?thesis by auto
qed

text \<open>
  A negative number of tunnels passes the checks of the configuration, although the program asks
  for a positive one; the client then starts and its manager never makes a tunnel, whatever the
  outcome of dialling would be.
\<close>
lemma negative_tunnelN:
  assumes "parseFlags e fl = Parsed pass cfg st" and "cfg_TunnelN cfg < 0"
    and "main L se e fl = Some (ClientProcess c fw status lg g)"
  shows "\<exists>tp. DecreaseNotify evs (prTunnelPool (cl_Peer c), g) = (True, tp, g) \<and> tunnelMapping tp = Map.empty"
proof -
  have "tpManager (prTunnelPool (cl_Peer c))
      = ClientM (NewClientManager (cfg_TunnelN cfg) (cfg_RabbitAddr cfg) (st_peerID se) (cfg_RetryFailedAddr cfg))"
    and "tunnelMapping (prTunnelPool (cl_Peer c)) = Map.empty"
    using assms(1,3)
    by (auto simp: main_def NewClient_def NewClientPeer_def newClientPeerWithID_def NewTunnelPool_def
        split: outcome.splits prod.splits if_splits option.splits sum.splits)
  moreover have "dn_loop cm evs (d, s) = (True, d, s)" if "dn_todo d \<le> 0" for cm d s
    using that by (cases evs) simp_all
  ultimately show ?thesis
    using assms(2) by (simp add: DecreaseNotify_def dn_start_def NewClientManager_def)
qed

lemma negative_tunnelN_witness:
  "\<exists>c fw status lg g tp. main demo_lib \<lparr>st_rand = Inr [1, 2, 3, 4, 5, 6, 7, 8], st_peerID = 3, st_syslog = True\<rparr> no_files
       (no_flags\<lparr>fl_password := Some ''secret'', fl_dest := Some ''h:1'', fl_tunnelN := Some (- 1)\<rparr>)
     = Some (ClientProcess c fw status lg g)
   \<and> DecreaseNotify [DialOk (demo_tunnel 1)] (prTunnelPool (cl_Peer c), g) = (True, tp, g) \<and> tunnelMapping tp = Map.empty"
proof -
  let ?fl = "no_flags\<lparr>fl_password := Some ''secret'', fl_dest := Some ''h:1'', fl_tunnelN := Some (- 1)\<rparr>"
    and ?se = "\<lparr>st_rand = Inr [1, 2, 3, 4, 5, 6, 7, 8], st_peerID = 3, st_syslog = True\<rparr>"
  have "ToLower ''client'' = ''client''" by code_simp
  then have mode: "cfg_Mode (apply_flags ?fl NewDefaultConfig) = ''client''"
    by (simp add: apply_flags_sel no_flags_def NewDefaultConfig_def)
  let ?cfg = "(apply_flags ?fl NewDefaultConfig)\<lparr>cfg_mode := ClientMode\<rparr>" and ?st = "apply_settings (apply_flags ?fl NewDefaultConfig)"
  have r: "parseFlags no_files ?fl = Parsed True ?cfg ?st"
    using mode by (simp add: parseFlags_no_files check_config_def DefaultPassword_def ClientMode_def ServerMode_def
        apply_flags_sel no_flags_def NewDefaultConfig_def)
  obtain cipher where "main_cipher demo_lib ?cfg = Some cipher"
    using main_cipher_cases [OF demo_lib_ok, of ?cfg] by blast
  moreover have "0 \<le> set_tp_RecvQueueSize ?st"
    by (simp add: apply_settings_def apply_flags_def override_def no_flags_def NewDefaultConfig_def)
  ultimately have "\<exists>c fw status lg g. main demo_lib ?se no_files ?fl = Some (ClientProcess c fw status lg g)"
    by (simp add: main_def r NewLogger_def NewClient_def NewClientPeer_def initRand_def Uint64_def)
  then obtain c fw status lg g where m: "main demo_lib ?se no_files ?fl = Some (ClientProcess c fw status lg g)"
    by blast
  have "cfg_TunnelN ?cfg < 0" by (simp add: apply_flags_sel)
  from negative_tunnelN [OF r this m] m show ?thesis by blast
qed

end
