(* ===== verification/Spec2Isabelle.thy ===== *)
theory Spec2Isabelle
  imports Prelude Block ByteSource RingBuffer BlockProcessor Connection Inbound Outbound Session PoolRun Cipher SecureStream
    Stats Tunnel SecureTunnel TunnelPool ConnectionPool Peer ServerRun NetAddr Socks5 NetIP TimeText Logger LoggerWin Config
    Helpers Acl StatusServer Startup
begin

text \<open>
  \<^bold>\<open>A forwarder over several TCP connections.\<close> The program (\<open>src/\<close>, Go) carries the byte streams
  of applications from a client to a server over a set of encrypted TCP connections, the tunnels.
  On the client an application connects to a port forwarder or a SOCKS5 proxy (\<open>client/\<close>); the bytes
  of each such connection are cut into numbered blocks (\<open>block/\<close>, \<open>connection/\<close>), the blocks of all
  connections of a peer go through one queue (\<open>connection_pool/\<close>) to whichever tunnel takes them next
  (\<open>tunnel_pool/\<close>), each tunnel encrypts what it sends (\<open>tunnel/\<close>). At the other end the blocks arrive
  in any order; they are handed to the connection they name, put in order, and written to the
  destination. The other direction works alike. \<open>peer/\<close> and \<open>server/\<close> hold the parts of a process
  together, \<open>stats/\<close> counts, \<open>logger/\<close> logs, \<open>cmd/rabbit.go\<close> configures and starts a process and runs
  its status server.

  \<^bold>\<open>The theories.\<close> Each theory models one part: its state as records, its operations as functions on
  them with the names of the source, then the lemmas and the properties (those marked C1, C2, and so on).

  \<^item> \<open>Prelude\<close>: machine integers, Go errors (\<open>'a result\<close>) and panics (\<open>'a outcome\<close>), little-endian and
    big-endian numbers, buffered channels, \<open>io.ReadFull\<close>; the interfaces \<open>stream_codec\<close> (what is
    encoded one after the other is decoded one after the other), \<open>registry\<close> and \<open>counted_registry\<close> (a table
    by ID, and its counter), \<open>invariant_system\<close> (invariants of reachable states). \<open>ByteSource\<close>: the
    interfaces \<open>byte_source\<close> and \<open>byte_buffer\<close> of readers, with the correctness of reading until full.
  \<^item> \<open>Block\<close> (\<open>block/block.go\<close>): the wire format; encoding and decoding are inverse, a stream of encoded
    blocks decodes to these blocks (interpretation of \<open>stream_codec\<close>).
  \<^item> \<open>RingBuffer\<close> (\<open>connection/ring_buffer.go\<close>): the rest of a block that a reader had no room for, an
    interpretation of \<open>byte_buffer\<close>.
  \<^item> \<open>BlockProcessor\<close> (\<open>connection/block_processor.go\<close>): the loop that puts blocks in order. Whatever
    arrives, what it hands over is the sequence up to some block; a block is handed over exactly when
    it and all before it have arrived; the timeout fires exactly when there is a hole; after the
    block numbers wrap around, a block can be lost.
  \<^item> \<open>Connection\<close>, \<open>Inbound\<close>, \<open>Outbound\<close> (\<open>connection/connection.go\<close>, \<open>inbound_connection.go\<close>,
    \<open>outbound_connection.go\<close>): the connection the application uses, and the one to the destination. Reads
    return the next bytes of the stream on every branch and end; writes send exactly their bytes as
    numbered blocks; however the two loops of an outbound connection interleave, they do not panic and
    send at most one shutdown.
  \<^item> \<open>Session\<close> (\<open>client/client.go\<close>: \<open>biRelay\<close>, \<open>relay\<close>): the two directions of an application's session, with
    \<open>io.Copy\<close> as rounds of a read and a write, interleaved with the blocks that arrive. The invariant
    \<open>sess_inv\<close> of all interleavings says what was sent and received and when a session can panic; \<open>typed_stream\<close>
    is the protocol of the blocks it sends; after an error of the upload a session never ends.
  \<^item> \<open>Cipher\<close>, \<open>SecureStream\<close> (\<open>tunnel/aead.go\<close>, \<open>cipher.go\<close>, \<open>tunnel.go\<close>): the ciphers by name, the key
    derivation, and the encrypted connection. What is written is what is read, whatever the sizes of
    the calls; no nonce is used twice before the counter wraps around; a cut stream is an error, with
    one exception. The interface \<open>cipher_pair\<close> is what the stream needs of a cipher. \<open>SecureTunnel\<close>: blocks
    read through the encrypted connection are those read from the plain bytes, a simulation that
    justifies modelling tunnels above the encryption.
  \<^item> \<open>Tunnel\<close> (\<open>tunnel_pool/tunnel.go\<close>): handshake, sending loop with retry, receiving loop, keep-alive.
    The handshake agrees on the peer; a tunnel whose writes succeed neither loses, reorders nor invents
    blocks; the keep-alive loop closes a tunnel exactly when its peer was silent for too long. \<open>TunnelPool\<close> (\<open>tunnel_pool/pool.go\<close>, \<open>manager.go\<close>): the pool with its counter, the client's
    dialling loop (it ends with the configured number of tunnels) and the server's countdown as a step
    relation, with an invariant of all reachable states.
  \<^item> \<open>ConnectionPool\<close> (\<open>connection_pool/pool.go\<close>): every received block reaches exactly the connection it
    names, in order of arrival. \<open>PoolRun\<close> (the same file with \<open>OrderedRelay\<close> of every connection): the
    pool at work, as interleaved events. The invariant \<open>pool_inv\<close> says that every connection, also one that
    has left the table, hands over an initial part of the sequence of its own ID. \<open>Peer\<close> (\<open>peer/\<close>, \<open>server/server.go\<close>): over any sequence of accepted
    connections every tunnel is in the pool of its own peer. \<open>ServerRun\<close> (\<open>peer/peer_group.go\<close>,
    \<open>tunnel_pool/manager.go\<close>): the life of the server's peers as a step relation with threads that accept, tunnels
    that end and countdowns that run out; an invariant of all reachable states, and the race that
    strands a tunnel in a removed peer. Without that race it refines the operations of \<open>Peer\<close>
    (\<open>sr_AddTunnel_refines\<close>). \<open>Stats\<close> (\<open>stats/stats.go\<close>): the history is the
    last samples, and the rates are computed from it.
  \<^item> \<open>NetAddr\<close>, \<open>NetIP\<close>: the functions of Go's \<open>net\<close> package that the sources call: splitting and joining
    of host and port, the text of addresses, networks in CIDR notation and their members. \<open>TimeText\<close>: the
    text of time stamps, which \<open>GetLastActiveStr\<close> reports; read back it gives the time to the microsecond.
  \<^item> \<open>Socks5\<close> (\<open>client/client.go\<close>): the proxy accepts exactly the clients with the right credentials; a
    domain request yields its target; an IPv6 request yields a target that cannot be dialled.
  \<^item> \<open>Logger\<close> and \<open>LoggerWin\<close> (\<open>logger/\<close>: the file for each operating system, and that they log the same),
    \<open>Helpers\<close> (\<open>TLSConfigFromFiles\<close> and \<open>getGoroutineID\<close>, which nothing calls), \<open>Config\<close> (\<open>cmd/rabbit.go\<close>: flags, file, defaults, checks), \<open>Acl\<close> and \<open>StatusServer\<close>
    (\<open>cmd/rabbit.go\<close>: access control, the two servers with their routing and handlers, metrics), \<open>Startup\<close> (\<open>main\<close>, client and server
    process): who may see the status, what the pages contain, what a started process encrypts.
  \<^item> This theory: the whole path in both directions (C1 and C2). Many sessions share the tunnels; what the
    application of a session sends, the destination of that session receives and no other one, over any
    number of tunnels and in spite of any order of arrival, duplication and loss; and conversely.

  \<^bold>\<open>How effects are modelled.\<close> Goroutines are loops whose iterations are functions on a state; which case
  of a \<open>select\<close> fires, the clock, random numbers, the results of system calls and the order in which Go
  iterates over a map are arguments, so that the properties hold for all of them. A channel is its
  contents, its capacity and whether it is closed; sending may wait or panic. Several loops on one state
  interleave as lists of steps. A network connection is the bytes that will come and a log of what was
  written, with a script of failures. Block numbers, counters and times keep their widths and wrap
  around. The cryptographic library is the parameter \<open>crypto_lib\<close> with the hypothesis \<open>lib_ok\<close> (decryption
  inverts encryption, sizes are as documented); \<open>demo_lib\<close> satisfies it. The YAML library,
  \<open>url.Parse\<close> and the loading of certificates are parameters without hypotheses.

  \<^bold>\<open>Bounds.\<close> Loops are structurally recursive over the list of their events, or have a termination proof.
  Three use fuel: \<open>Read\<close>, which returns or waits within one step per queued block (shown as a
  property; after a local close it never returns, also shown); the key derivation, for which the key
  length is enough fuel; \<open>io.ReadFull\<close>, for which the number of bytes is. \<open>split\<close> is a partial function, total
  for separators that are not empty. The end-to-end properties assume fewer than \<open>2 ^ 32\<close> blocks.

  \<^bold>\<open>Not modelled.\<close> Deadlines as clocks (a timeout is an event), the HTTP, JSON, Prometheus, profiling and
  signal libraries beyond routing and registration (the sources only call them), the mutexes (an
  operation under a lock is one step), and the texts of log messages. The offset of the local time zone
  is an argument.
\<close>

section \<open>The whole path\<close>

text \<open>
  A tunnel with both its ends: the sending loop with its queues and schedule, and the receiving
  loop at the other end of the connection with its environment.
\<close>
record hop =
  hop_id :: u32
  hop_peer :: u32
  hop_stats :: stats_pair
  hop_cap :: nat
  hop_retry :: "block list"
  hop_normal :: "block list"
  hop_sched :: "((nat \<Rightarrow> bool) \<times> bool) list"
  hop_rx_id :: u32
  hop_rx_stats :: stats_pair
  hop_envs :: "in_env list"

definition hop_out :: "hop \<Rightarrow> out_state" where
  "hop_out h = OutboundRelay (hop_sched h)
     (fresh_out (newTunnelWithID (hop_id h) (fresh_tun []) (hop_peer h)) (hop_stats h) (hop_cap h)
        (hop_retry h) (hop_normal h))"

definition hop_delivered :: "hop \<Rightarrow> block list" where
  "hop_delivered h = idelivered (snd (InboundRelay (hop_envs h)
     \<lparr>itun = newTunnelWithID (hop_rx_id h) (fresh_tun (written (otun (hop_out h)))) (hop_peer h),
      istats = hop_rx_stats h, idelivered = []\<rparr>))"

text \<open>The receiving loop has run over everything that was written, and its queue had room.\<close>
definition hop_finished :: "hop \<Rightarrow> bool" where
  "hop_finished h \<longleftrightarrow> length (hop_envs h) = length (otaken (hop_out h))
     \<and> (\<forall>env\<in>set (hop_envs h). fate env = Accepted)"

text \<open>
  Blocks travel over any number of tunnels, each of which carries some of those that were sent (a
  block may also be queued twice); what arrives is something that the tunnels have delivered.
\<close>
definition carried :: "hop list \<Rightarrow> block set \<Rightarrow> block set \<Rightarrow> bool" where
  "carried hops sent arr \<longleftrightarrow>
     (\<forall>h\<in>set hops. hop_finished h \<and> set (hop_retry h @ hop_normal h) \<subseteq> sent)
   \<and> arr \<subseteq> (\<Union>h\<in>set hops. set (hop_delivered h))"

lemma hop_delivers:
  assumes "hop_finished h" "\<forall>b\<in>set (hop_retry h @ hop_normal h). payload_block b"
  shows "hop_delivered h = map as_received (otaken (hop_out h))"
    and "set (hop_delivered h) \<subseteq> as_received ` set (hop_retry h @ hop_normal h)"
proof -
  have inv: "Tunnel.out_inv (hop_retry h @ hop_normal h) (hop_out h)"
    unfolding hop_out_def using assms(2) by (intro fresh_out_run) (auto simp: payload_block_def)
  note taken = out_inv_taken [OF inv]
  then have "\<forall>b\<in>set (otaken (hop_out h)). payload_block b" using assms(2) by blast
  from transfer_received [OF inv this _ _ refl, of "hop_envs h" "hop_rx_id h" "hop_peer h" "hop_rx_stats h"]
  show *: "hop_delivered h = map as_received (otaken (hop_out h))"
    using assms(1) by (auto simp: hop_delivered_def hop_finished_def)
  from taken show "set (hop_delivered h) \<subseteq> as_received ` set (hop_retry h @ hop_normal h)"
    by (auto simp: *)
qed

lemma payload_as_received [simp]: "payload (map as_received bs) = payload bs"
  by (induction bs) simp_all

lemma numbered_as_received:
  assumes "sent_numbered c" "length (sendq c) < 2 ^ 32"
  shows "numbered (map as_received (sendq c))"
proof -
  have "BlockID (sendq c ! i) = of_nat i" if "i < length (sendq c)" for i
    using assms(1) that by (metis sent_numbered_def nth_map length_map length_upt nth_upt add_0 minus_nat.diff_0)
  with assms(2) show ?thesis by (simp add: numbered_def)
qed

lemma carried_blocks:
  assumes "carried hops sent arr" "\<forall>b\<in>sent. payload_block b"
  shows "arr \<subseteq> as_received ` sent"
proof -
  have "set (hop_delivered h) \<subseteq> as_received ` sent" if "h \<in> set hops" for h
  proof -
    have q: "set (hop_retry h @ hop_normal h) \<subseteq> sent" "hop_finished h"
      using assms(1) that by (simp_all add: carried_def)
    with assms(2) have "\<forall>b\<in>set (hop_retry h @ hop_normal h). payload_block b" by blast
    from hop_delivers(2) [OF q(2) this] q(1) show ?thesis by (meson image_mono order_trans)
  qed
  then show ?thesis using assms(1) unfolding carried_def by (meson UN_least order_trans)
qed

text \<open>The sequences that the ends of the connections \<open>C\<close> send, as they arrive.\<close>
definition streams :: "u32 set \<Rightarrow> (u32 \<Rightarrow> block list) \<Rightarrow> u32 \<Rightarrow> block list" where
  "streams C q k = (if k \<in> C then map as_received (q k) else [])"

text \<open>A connection that has all blocks of a sequence and whose relay has worked them off.\<close>
definition caught_up :: "block list \<Rightarrow> pooled \<Rightarrow> lane \<Rightarrow> bool" where
  "caught_up bs conn l \<longleftrightarrow> \<not> relay_stopped (ln_relay l) \<and> chq (conn_recvQueue conn) = []
     \<and> as_received ` set bs \<subseteq> set (ln_got l)"

text \<open>
  The stage shared by both directions: whatever the connections \<open>C\<close> send, all over the same tunnels,
  every connection of the pool at the other end hands over what its own peer has sent, up to some
  block; all of it, once it has caught up.
\<close>
lemma streams_inv:
  assumes "\<And>k. k \<in> C \<Longrightarrow> sent_numbered (c k) \<and> connectionID (c k) = k \<and> length (sendq (c k)) < 2 ^ 32"
    and "carried hops (\<Union>k\<in>C. set (sendq (c k))) (set (delivered evs))"
    and "run_pool cfg evs (start_pool accept g) = Some (Ret p)"
  shows "pool_inv (streams C (\<lambda>k. sendq (c k))) p"
proof (rule pool_inv_run [OF _ assms(3) pool_inv_start])
  show "numbered (streams C (\<lambda>k. sendq (c k)) k)" for k
    using assms(1) [of k] numbered_as_received [of "c k"] by (simp add: streams_def numbered_def)
  fix b
  assume b: "b \<in> set (delivered evs)"
  have pb: "payload_block d \<and> ConnectionID d = k" if "k \<in> C" "d \<in> set (sendq (c k))" for k d
    using assms(1) [OF that(1)] that(2) by (simp add: sent_numbered_def payload_block_def)
  then have "set (delivered evs) \<subseteq> as_received ` (\<Union>k\<in>C. set (sendq (c k)))"
    by (intro carried_blocks [OF assms(2)]) blast
  with b obtain k d where "k \<in> C" "d \<in> set (sendq (c k))" "b = as_received d" by blast
  with pb [of k d] show "b \<in> set (streams C (\<lambda>k. sendq (c k)) (ConnectionID b))" by (simp add: streams_def)
qed

lemma streams_in_order:
  assumes "pool_inv (streams C q) p" "(conn, l) \<in> incarnations p" "connID conn \<in> C"
  obtains r where "ordered (ln_relay l) = map as_received (take r (q (connID conn)))"
    and "caught_up (q (connID conn)) conn l \<Longrightarrow> r = length (q (connID conn))"
proof -
  have "lane_ok (map as_received (q (connID conn))) conn l"
    using incarnations_ok [OF assms(1,2)] assms(3) by (simp add: streams_def)
  then obtain r where r: "ordered (ln_relay l) = take r (map as_received (q (connID conn)))"
    "caught_up (q (connID conn)) conn l \<Longrightarrow> r = length (q (connID conn))"
    by (rule lane_ok_ordered) (simp add: caught_up_def)
  then show thesis by (intro that [of r]) (simp_all add: take_map)
qed

lemma as_received_disconnect [simp]:
  "no_empty_disconnect (map as_received bs) = no_empty_disconnect bs" "half_closed (map as_received bs) = half_closed bs"
  by (simp_all add: no_empty_disconnect_def half_closed_def is_shutdown_write_def)

lemma prefix_payload_take: "prefix (payload (take r bs)) (payload bs)"
  by (metis append_take_drop_id payload_simps(3) prefixI)

text \<open>The blocks up to one that ends the stream carry all of it.\<close>
lemma half_closed_take:
  assumes "up_inv up run bs" "half_closed (take r bs)"
  shows "payload (take r bs) = up"
proof -
  obtain b where "b \<in> set (take r bs)" "is_shutdown_write b" using assms(2) by (auto simp: half_closed_def)
  then obtain pre post where b: "take r bs = pre @ b # post" "is_shutdown_write b" by (meson split_list)
  have split: "bs = pre @ b # (post @ drop r bs)" by (metis append_Cons append_assoc append_take_drop_id b(1))
  have "payload (post @ drop r bs) = []"
    using assms(1) b(2) split unfolding up_inv_def by blast
  moreover have "half_closed bs" by (subst split) (simp add: b(2))
  then have "payload bs = up" using assms(1) by (simp add: up_inv_def)
  moreover have "payload bs = payload (take r bs) @ payload (drop r bs)"
    by (metis append_take_drop_id payload_simps(3))
  ultimately show ?thesis by simp
qed

text \<open>The life of a session on the client: its connection and the events of its relay.\<close>
record client_run =
  cr_cfg :: conn_config
  cr_opened :: i64
  cr_dialled :: i64
  cr_addr :: "byte list"
  cr_events :: "session_event list"

definition client_session :: "u32 \<Rightarrow> client_run \<Rightarrow> session outcome option" where
  "client_session k r = biRelay (cr_events r)
     (start_session (SendConnect (cr_dialled r) (cr_addr r) (NewInboundConnection (cr_cfg r) (cr_opened r) k)))"

text \<open>A session that has not panicked, with fewer blocks than there are block numbers.\<close>
definition session_runs :: "u32 \<Rightarrow> client_run \<Rightarrow> session \<Rightarrow> bool" where
  "session_runs k r s \<longleftrightarrow> client_session k r = Some (Ret s) \<and> length (cr_addr r) < 2 ^ 32
     \<and> no_empty_disconnect (arrived (cr_events r)) \<and> length (sendq (ss_conn s)) < 2 ^ 32"

lemma session_runs_inv:
  assumes "session_runs k r s"
  shows "sess_inv (app_sent (cr_events r)) (arrived (cr_events r)) s" "typed_stream k (cr_addr r) (ss_conn s)"
    "length (sendq (ss_conn s)) < 2 ^ 32"
proof -
  let ?s0 = "start_session (SendConnect (cr_dialled r) (cr_addr r) (NewInboundConnection (cr_cfg r) (cr_opened r) k))"
  have r: "biRelay (cr_events r) ?s0 = Some (Ret s)" "length (cr_addr r) < 2 ^ 32" "no_empty_disconnect (arrived (cr_events r))"
    using assms by (simp_all add: session_runs_def client_session_def)
  show "sess_inv (app_sent (cr_events r)) (arrived (cr_events r)) s"
    using biRelay_inv [OF dialled_session_inv [OF r(2)] r(1,3)] by simp
  show "typed_stream k (cr_addr r) (ss_conn s)"
    using typed_biRelay [OF _ r(1)] typed_dialled [OF r(2)] by (simp add: start_session_def)
  show "length (sendq (ss_conn s)) < 2 ^ 32" using assms by (simp add: session_runs_def)
qed

text \<open>A session dials one address, the one it was made for.\<close>
lemma typed_stream_address:
  "typed_stream k addr c \<Longrightarrow> b \<in> set (sendq c) \<Longrightarrow> Type b = TypeConnect \<Longrightarrow> BlockData b = addr"
  by (auto simp: typed_stream_def stream_block_def list_all_iff dest!: bspec)

text \<open>The destination of a connection is written what the lane has handed over.\<close>
lemma upload_written:
  assumes "sess_inv up arr s" "ordered rl = map as_received (take r (sendq (ss_conn s)))"
  shows "\<exists>oc' l. SendRelay (map (\<lambda>b. SendBlock now b None) (ordered rl)) (connect now' True (NewOutboundConnection cfg k)) = Ret oc'
     \<and> halfOpenConn oc' = Some l \<and> calls_written l = payload (take r (sendq (ss_conn s))) \<and> prefix (calls_written l) up
     \<and> (TcpCloseWrite \<in> set l \<longrightarrow> calls_written l = up)"
proof -
  let ?oc = "connect now' True (NewOutboundConnection cfg k)" and ?q = "sendq (ss_conn s)"
  have c: "no_empty_disconnect ?q" "up_inv up (ss_up s) ?q" using assms(1) by (simp_all add: sess_inv_def conn_ok_def)
  have "no_empty_disconnect (take r ?q)" using c(1) by (auto simp: no_empty_disconnect_def dest: in_set_takeD)
  then obtain oc' l where "SendRelay (map (\<lambda>b. SendBlock now b None) (ordered rl)) ?oc = Ret oc'"
      "halfOpenConn oc' = Some l" "calls_written l = payload (take r ?q)" "TcpCloseWrite \<in> set l \<longleftrightarrow> half_closed (take r ?q)"
    using SendRelay_calls [of ?oc "[]" "map as_received (take r ?q)" now]
    by (auto simp: assms(2) connect_def NewOutboundConnection_def)
  moreover have "prefix (payload (take r ?q)) up"
    using prefix_order.order_trans [OF prefix_payload_take] c(2) unfolding up_inv_def by blast
  ultimately show ?thesis using half_closed_take [OF c(2)] by (intro exI [of _ oc'] exI [of _ l]) auto
qed

text \<open>
  C1. What an application sends is what its destination receives, and no other destination. The client
  runs sessions with different connection IDs, each in any interleaving of its two directions and with any
  errors; all their blocks are carried by the same tunnels, any number of them, in any schedule and with
  duplicates, and arrive at the server's pool in any order, while connections there come and go.
  Then every outbound connection of the pool belongs to a session; the bytes written to its
  destination are an initial part of what the application of that session has sent; all that its client has
  sent once the connection has caught up; its destination sees the end of the stream only
  after all bytes of the application; and the pool dials for a session only the address that session asked for.
\<close>
theorem upload_end_to_end:
  assumes "\<forall>k\<in>C. session_runs k (R k) (T k)"
    and "carried hops (\<Union>k\<in>C. set (sendq (ss_conn (T k)))) (set (delivered evs))"
    and "run_pool cfg evs (start_pool True g) = Some (Ret p)"
  shows "(\<forall>(k, addr)\<in>set (cpDials (fst (pr_state p))). k \<in> C \<and> addr = cr_addr (R k))
    \<and> (\<forall>(conn, lane)\<in>incarnations p. \<forall>oc. conn = POut oc \<longrightarrow> connectionID oc \<in> C \<and>
         (let k = connectionID oc; up = app_sent (cr_events (R k)) in
          \<exists>oc' l. SendRelay (map (\<lambda>b. SendBlock now b None) (ordered (ln_relay lane))) (connect now' True (NewOutboundConnection cfg k)) = Ret oc'
            \<and> halfOpenConn oc' = Some l \<and> prefix (calls_written l) up \<and> (TcpCloseWrite \<in> set l \<longrightarrow> calls_written l = up)
            \<and> (caught_up (sendq (ss_conn (T k))) conn lane \<longrightarrow>
                 calls_written l = payload (sendq (ss_conn (T k)))
               \<and> (ss_up (T k) \<or> half_closed (sendq (ss_conn (T k))) \<longrightarrow> calls_written l = up))))"
proof -
  let ?S = "streams C (\<lambda>k. sendq (ss_conn (T k)))"
  note runs = session_runs_inv [OF bspec [OF assms(1)]]
  have inv: "pool_inv ?S p"
    using runs by (intro streams_inv [OF _ assms(2,3)]) (auto simp: sess_inv_def conn_ok_def typed_stream_def)
  have "k \<in> C \<and> addr = cr_addr (R k)" if "(k, addr) \<in> set (cpDials (fst (pr_state p)))" for k addr
    using pool_invD(3) [OF inv that] typed_stream_address [OF runs(2)] by (auto simp: streams_def split: if_splits)
  moreover have "connectionID oc \<in> C \<and> (let k = connectionID oc; up = app_sent (cr_events (R k)) in
      \<exists>oc' l. SendRelay (map (\<lambda>b. SendBlock now b None) (ordered (ln_relay lane))) (connect now' True (NewOutboundConnection cfg k)) = Ret oc'
        \<and> halfOpenConn oc' = Some l \<and> prefix (calls_written l) up \<and> (TcpCloseWrite \<in> set l \<longrightarrow> calls_written l = up)
        \<and> (caught_up (sendq (ss_conn (T k))) (POut oc) lane \<longrightarrow> calls_written l = payload (sendq (ss_conn (T k)))
           \<and> (ss_up (T k) \<or> half_closed (sendq (ss_conn (T k))) \<longrightarrow> calls_written l = up)))"
    if i: "(POut oc, lane) \<in> incarnations p" for oc lane
  proof -
    have k: "connectionID oc \<in> C"
      using incarnations_ok [OF inv i] by (auto simp: lane_ok_def streams_def split: if_splits)
    obtain r where r: "ordered (ln_relay lane) = map as_received (take r (sendq (ss_conn (T (connectionID oc)))))"
      "caught_up (sendq (ss_conn (T (connectionID oc)))) (POut oc) lane \<Longrightarrow> r = length (sendq (ss_conn (T (connectionID oc))))"
      using streams_in_order [OF inv i] k by auto
    have "up_inv (app_sent (cr_events (R (connectionID oc)))) (ss_up (T (connectionID oc))) (sendq (ss_conn (T (connectionID oc))))"
      using runs(1) [OF k] by (simp add: sess_inv_def)
    with k upload_written [OF runs(1) [OF k] r(1), of now now' cfg "connectionID oc"] r(2) show ?thesis
      by (fastforce simp: up_inv_def Let_def)
  qed
  ultimately show ?thesis by blast
qed

text \<open>A hop that carries a queue of blocks completely.\<close>
definition sample_hop :: "block list \<Rightarrow> hop" where
  "sample_hop bs = \<lparr>hop_id = 1, hop_peer = 5, hop_stats = InitStats 10, hop_cap = 8, hop_retry = [], hop_normal = bs,
     hop_sched = replicate (length bs) (\<lambda>_. False, False), hop_rx_id = 2, hop_rx_stats = InitStats 10,
     hop_envs = replicate (length bs)
       \<lparr>in_now = 0, pong_now = 0, latency_now = 0, fate = Accepted, after = Room, buffered = None\<rparr>\<rparr>"

lemma sample_hop_delivers:
  assumes "\<forall>b\<in>set bs. payload_block b"
  shows "hop_finished (sample_hop bs)" "hop_delivered (sample_hop bs) = map as_received bs"
proof -
  let ?st = "fresh_out (newTunnelWithID 1 (fresh_tun []) 5) (InitStats 10) 8 [] bs"
  have taken: "otaken (hop_out (sample_hop bs)) = bs"
    using OutboundRelay_drains [of ?st] assms
    by (simp add: hop_out_def sample_hop_def fresh_out_def newTunnelWithID_def fresh_tun_def healthy_def payload_block_def)
  show f: "hop_finished (sample_hop bs)"
    unfolding hop_finished_def taken by (simp add: sample_hop_def)
  have "\<forall>b\<in>set (hop_retry (sample_hop bs) @ hop_normal (sample_hop bs)). payload_block b"
    using assms by (simp add: sample_hop_def)
  from hop_delivers(1) [OF f this] show "hop_delivered (sample_hop bs) = map as_received bs" by (simp only: taken)
qed

lemma sample_hop_carries:
  assumes "\<forall>b\<in>set bs. payload_block b" "arr \<subseteq> as_received ` set bs"
  shows "carried [sample_hop bs] (set bs) arr"
  using sample_hop_delivers [OF assms(1)] assms(2) by (simp add: carried_def) (simp add: sample_hop_def)

text \<open>
  Two sessions: the application of the first has sent one byte, that of the second nothing. All three blocks
  travel over one tunnel, and those of the first session arrive in the wrong order.
\<close>
definition sample_client :: "u32 \<Rightarrow> client_run" where
  "sample_client k = \<lparr>cr_cfg = default_conn_config, cr_opened = 0, cr_dialled = 0, cr_addr = (if k = 7 then [104] else [105]),
     cr_events = (if k = 7 then [UpRead (\<lambda>_. 0) 0 (RdOk [65])] else [])\<rparr>"

definition sample_end :: "u32 \<Rightarrow> session" where
  "sample_end k = (case client_session k (sample_client k) of Some (Ret s) \<Rightarrow> s
     | _ \<Rightarrow> start_session (NewInboundConnection default_conn_config 0 k))"

lemma sample_sessions:
  "session_runs 7 (sample_client 7) (sample_end 7)" "session_runs 8 (sample_client 8) (sample_end 8)" "ss_up (sample_end 7)"
  "sendq (ss_conn (sample_end 7)) = [NewConnectBlock 0 7 0 [104], newDataBlock 0 7 1 [65]]"
  "sendq (ss_conn (sample_end 8)) = [NewConnectBlock 0 8 0 [105]]"
  by (simp_all add: session_runs_def sample_client_def sample_end_def client_session_def session_step_def copy_up_def
      start_session_def Write_def Let_def SendConnect_def packConnect_def sendData_def packData_def NewDataBlocks_single
      NewInboundConnection_def newBlockProcessor_def DataSize_def no_empty_disconnect_def)

definition sample_arrivals :: "pool_event list" where
  "sample_arrivals = [Deliver (as_received (newDataBlock 0 7 1 [65])), Deliver (as_received (NewConnectBlock 0 8 0 [105])),
     Order 7 (TakeBlock None), Deliver (as_received (NewConnectBlock 0 7 0 [104])), Order 8 (TakeBlock None),
     Order 7 (TakeBlock None)]"

lemma sample_arrivals_run:
  obtains p oc where "run_pool default_conn_config sample_arrivals (start_pool True (InitStats 10)) = Some (Ret p)"
    and "connectionMapping (fst (pr_state p)) 7 = Some (POut oc)" "connectionID oc = 7"
    and "caught_up [NewConnectBlock 0 7 0 [104], newDataBlock 0 7 1 [65]] (POut oc) (pr_lanes p 7)"
  by (simp add: sample_arrivals_def start_pool_def pool_step_def deliver_def recvRelay_block_def NewConnectionPool_def
      NewPooledOutboundConnection_def addConnection_def out_RecvBlock_def RecvBlock_def chan_send_def chan_recv_def order_step_def
      store_conn_def new_lane_def NewOutboundConnection_def make_chan_def default_conn_config_def NewConnectBlock_def
      new_relay_def relay_recv_def newBlockProcessor_def drain_cache.simps Let_def caught_up_def)

theorem upload_end_to_end_witness:
  "\<exists>p oc' l. run_pool default_conn_config sample_arrivals (start_pool True (InitStats 10)) = Some (Ret p)
     \<and> SendRelay (map (\<lambda>b. SendBlock 0 b None) (ordered (ln_relay (pr_lanes p 7))))
         (connect 0 True (NewOutboundConnection default_conn_config 7)) = Ret oc'
     \<and> halfOpenConn oc' = Some l \<and> calls_written l = [65]"
proof -
  let ?q = "\<lambda>k. sendq (ss_conn (sample_end k))" and ?bs = "[NewConnectBlock 0 7 0 [104], newDataBlock 0 7 1 [65], NewConnectBlock 0 8 0 [105]]"
  obtain p oc where p: "run_pool default_conn_config sample_arrivals (start_pool True (InitStats 10)) = Some (Ret p)"
    and oc: "connectionMapping (fst (pr_state p)) 7 = Some (POut oc)" "connectionID oc = 7"
      "caught_up [NewConnectBlock 0 7 0 [104], newDataBlock 0 7 1 [65]] (POut oc) (pr_lanes p 7)"
    by (rule sample_arrivals_run)
  have "\<forall>b\<in>set ?bs. payload_block b"
    using wf_NewConnectBlock [of "[104]" 0 7 0] wf_NewConnectBlock [of "[105]" 0 8 0] wf_newDataBlock [of "[65]" 0 7 1]
    by (simp add: payload_block_def NewConnectBlock_def DataSize_def)
  then have "carried [sample_hop ?bs] (set ?bs) (set (delivered sample_arrivals))"
    by (rule sample_hop_carries) (simp add: sample_arrivals_def)
  moreover have "(\<Union>k\<in>{7, 8}. set (?q k)) = set ?bs" by (auto simp: sample_sessions)
  ultimately have c: "carried [sample_hop ?bs] (\<Union>k\<in>{7, 8}. set (?q k)) (set (delivered sample_arrivals))" by simp
  have "\<forall>k\<in>{7, 8}. session_runs k (sample_client k) (sample_end k)" by (simp add: sample_sessions)
  from upload_end_to_end [OF this c p, of 0 0] mapped_incarnation [OF oc(1)] oc(2,3)
  have "\<exists>oc' l. SendRelay (map (\<lambda>b. SendBlock 0 b None) (ordered (ln_relay (pr_lanes p 7))))
         (connect 0 True (NewOutboundConnection default_conn_config 7)) = Ret oc'
     \<and> halfOpenConn oc' = Some l \<and> calls_written l = payload (?q 7)"
    by (fastforce simp: Let_def sample_sessions(4))
  with p show ?thesis by (auto simp: sample_sessions(4) NewConnectBlock_def)
qed

text \<open>
  C2. What a destination sends is what its application receives, and no other one. At the server the receive loops
  of connections with different IDs read from their destinations, in any pattern of reads and
  timeouts; all their blocks travel over the same tunnels and arrive at the client's pool in any order, while
  connections there come and go; the session of a connection takes what its relay hands over while it runs, in
  any interleaving. Then it panics only if a block is delivered after the session has closed its
  queue; the bytes written to the application are an initial part of what its destination sent; and
  once the connection has caught up and the session was handed everything, what is written and what
  is left to read make up all of it as long as the download runs.
\<close>
theorem download_end_to_end:
  assumes "\<forall>k\<in>C. RecvRelay (its k) (connect (now k) True (NewOutboundConnection cfg k)) = Ret (oc k) \<and> length (sendq (oc k)) < 2 ^ 32"
    and "carried hops (\<Union>k\<in>C. set (sendq (oc k))) (set (delivered evs))"
    and "run_pool cfg' evs (start_pool False g) = Some (Ret p)" "(conn, lane) \<in> incarnations p" "connID conn = k" "k \<in> C"
    and "client_session k r = Some res" "length (cr_addr r) < 2 ^ 32" "prefix (arrived (cr_events r)) (ordered (ln_relay lane))"
  shows "case res of
      Panic \<Rightarrow> late_arrival (cr_events r)
        (start_session (SendConnect (cr_dialled r) (cr_addr r) (NewInboundConnection (cr_cfg r) (cr_opened r) k)))
    | Ret s \<Rightarrow> prefix (calls_written (ss_app s)) (read_bytes_of (its k))
      \<and> (caught_up (sendq (oc k)) conn lane \<and> arrived (cr_events r) = ordered (ln_relay lane) \<and> ss_down s \<longrightarrow>
           calls_written (ss_app s) @ unread (ss_conn s) = read_bytes_of (its k))"
proof -
  have oc: "sent_numbered (oc j) \<and> no_empty_disconnect (sendq (oc j)) \<and> connectionID (oc j) = j" if "j \<in> C" for j
    using RecvRelay_inv [OF out_inv_connected, of "its j" "now j" cfg j] connectionID_RecvRelay [of "its j"] assms(1) that
    by (fastforce simp: Outbound.out_inv_def connect_def NewOutboundConnection_def)
  have sent: "payload (sendq (oc k)) = read_bytes_of (its k)"
    using RecvRelay_forwards [OF _ conjunct1 [OF bspec [OF assms(1,6)]]] by (simp add: connect_def NewOutboundConnection_def)
  have "pool_inv (streams C (\<lambda>k. sendq (oc k))) p"
    using oc assms(1) by (intro streams_inv [OF _ assms(2,3)]) blast
  then obtain n where n: "ordered (ln_relay lane) = map as_received (take n (sendq (oc k)))"
    "caught_up (sendq (oc k)) conn lane \<Longrightarrow> n = length (sendq (oc k))"
    using streams_in_order [OF _ assms(4)] assms(5,6) by metis
  obtain zs where zs: "map as_received (take n (sendq (oc k))) = arrived (cr_events r) @ zs"
    using assms(9) by (auto simp: n(1) prefix_def)
  have "no_empty_disconnect (take n (sendq (oc k)))"
    using oc [OF assms(6)] by (auto simp: no_empty_disconnect_def dest: in_set_takeD)
  then have "no_empty_disconnect (arrived (cr_events r))" by (metis as_received_disconnect(1) no_empty_disconnect_simps(2) zs)
  note inv = biRelay_inv [OF dialled_session_inv [OF assms(8)] assms(7) [unfolded client_session_def] this]
  have "payload (arrived (cr_events r)) @ payload zs = payload (take n (sendq (oc k)))"
    by (metis payload_as_received payload_simps(3) zs)
  then have "prefix (payload (arrived (cr_events r))) (read_bytes_of (its k))"
    using prefix_payload_take [of n "sendq (oc k)"] sent by (metis prefixI prefix_order.order_trans)
  moreover have "payload (arrived (cr_events r)) = read_bytes_of (its k)"
    if "caught_up (sendq (oc k)) conn lane" "arrived (cr_events r) = ordered (ln_relay lane)"
    using n(2) [OF that(1)] that(2) n(1) sent by simp
  ultimately show ?thesis
    using inv prefix_order.order_trans by (auto simp: sess_inv_def down_inv_def split: outcome.splits)
qed

text \<open>A block arrives while the download runs, and the next read passes it on.\<close>
definition sample_download :: "session_event list" where
  "sample_download = [Arrive (as_received (newDataBlock 0 7 0 [65, 66])),
     DownRead \<lparr>rc_fuel = Suc (Suc 0), rc_fire = (\<lambda>_. False), rc_now = 0\<rparr> 0 None]"

definition sample_reader :: client_run where
  "sample_reader = \<lparr>cr_cfg = default_conn_config, cr_opened = 0, cr_dialled = 0, cr_addr = [104], cr_events = sample_download\<rparr>"

lemma sample_download_runs:
  "\<exists>s. client_session 7 sample_reader = Some (Ret s) \<and> ss_down s \<and> unread (ss_conn s) = []"
  by (simp add: client_session_def sample_reader_def sample_download_def start_session_def session_step_def copy_down_def
      SendConnect_def packConnect_def NewInboundConnection_def newBlockProcessor_def make_chan_def default_conn_config_def
      chan_send_def chan_recv_def recv_ordered_def Read_def Read_queue_def readBlock_def in_SetLastActive_def rb_Empty_def
      NewByteRingBuffer_def copyBufferSize_def unread_def rb_contents_def Let_def)

definition sample_returns :: "pool_event list" where
  "sample_returns = [OpenConn 0 7, OpenConn 0 8, Deliver (as_received (newDataBlock 0 7 0 [65, 66])), Order 7 (TakeBlock None)]"

lemma sample_returns_run:
  obtains p conn where "run_pool default_conn_config sample_returns (start_pool False (InitStats 10)) = Some (Ret p)"
    and "connectionMapping (fst (pr_state p)) 7 = Some conn" "connID conn = 7"
    and "caught_up [newDataBlock 0 7 0 [65, 66]] conn (pr_lanes p 7)"
    and "ordered (ln_relay (pr_lanes p 7)) = [as_received (newDataBlock 0 7 0 [65, 66])]"
  by (simp add: sample_returns_def start_pool_def pool_step_def deliver_def recvRelay_block_def NewConnectionPool_def
      NewPooledInboundConnection_def addConnection_def RecvBlock_def chan_send_def chan_recv_def order_step_def
      store_conn_def new_lane_def NewInboundConnection_def make_chan_def default_conn_config_def
      new_relay_def relay_recv_def newBlockProcessor_def drain_cache.simps Let_def caught_up_def)

theorem download_end_to_end_witness:
  "\<exists>s. client_session 7 sample_reader = Some (Ret s) \<and> calls_written (ss_app s) = [65, 66]"
proof -
  let ?b = "newDataBlock 0 7 0 [65, 66]" and ?its = "\<lambda>_ :: u32. [sample_recv (RdOk [65, 66])]"
  obtain oc where oc: "RecvRelay (?its 7) (connect 0 True (NewOutboundConnection default_conn_config 7)) = Ret oc"
    and sent: "sendq oc = [?b]"
    by (simp add: connect_def NewOutboundConnection_def newBlockProcessor_def RecvRelay_iter_def sample_recv_def Let_def
        sendData_def packData_def NewDataBlocks_single DataSize_def)
  then have rx: "\<forall>k\<in>{7}. RecvRelay (?its k) (connect 0 True (NewOutboundConnection default_conn_config k)) = Ret oc
      \<and> length (sendq oc) < 2 ^ 32" by simp
  have "\<forall>b\<in>set (sendq oc). payload_block b"
    unfolding sent using wf_newDataBlock [of "[65, 66]" 0 7 0] by (simp add: payload_block_def DataSize_def)
  then have c: "carried [sample_hop (sendq oc)] (\<Union>k\<in>{7 :: u32}. set (sendq oc)) (set (delivered sample_returns))"
    using sample_hop_carries [of "sendq oc"] by (simp add: sent sample_returns_def)
  obtain p conn where p: "run_pool default_conn_config sample_returns (start_pool False (InitStats 10)) = Some (Ret p)"
    and k: "connectionMapping (fst (pr_state p)) 7 = Some conn" "connID conn = 7"
    and l: "caught_up [?b] conn (pr_lanes p 7)" "ordered (ln_relay (pr_lanes p 7)) = [as_received ?b]"
    by (rule sample_returns_run)
  obtain s where s: "client_session 7 sample_reader = Some (Ret s)" "ss_down s" "unread (ss_conn s) = []"
    using sample_download_runs by blast
  have r: "length (cr_addr sample_reader) < 2 ^ 32" "arrived (cr_events sample_reader) = [as_received ?b]"
    by (simp_all add: sample_reader_def sample_download_def)
  from download_end_to_end [OF rx c p mapped_incarnation [OF k(1)] k(2) _ s(1) r(1)] s(2,3) l r(2)
  have "calls_written (ss_app s) = [65, 66]" unfolding sent by (simp add: sample_recv_def)
  with s(1) show ?thesis by blast
qed

end
